(* ===== verification/Prelude.thy ===== *)
theory Prelude
  imports Main "HOL-Library.Word" "HOL-Library.Monad_Syntax"
begin

text \<open>
  What the components share: the C integer and text types, the result of running code that may
  exit the process or have undefined behaviour, the fuelled loop with its termination locale, and
  list facts about blocks of memory.

  A function of the model whose result is an \<open>option\<close> returns \<open>None\<close> exactly where the C code
  has undefined behaviour (a read outside a block, a write past the end of an array, a null
  pointer that is followed).
\<close>

unbundle bit_operations_syntax

named_theorems decode \<open>facts about reading a field at an offset of a block\<close>
named_theorems frame_simps \<open>what a step leaves unchanged\<close>

section \<open>Types of the C program\<close>

type_synonym byte = "8 word"
type_synonym i16 = "16 word"
type_synonym i32 = "32 word"
type_synonym i64 = "64 word"
type_synonym size_t = "64 word"

text \<open>A piece of text is the list of its bytes, without the terminating NUL.\<close>

type_synonym ctext = "byte list"

definition bs :: "string \<Rightarrow> ctext" where
  "bs s = map of_char s"

abbreviation newline :: byte where
  "newline \<equiv> 10"

lemma of_char_byte_eq [simp]: "(of_char c :: byte) = of_char d \<longleftrightarrow> c = d"
proof
  have unat_of_char: "unat (of_char c :: byte) = of_char c" for c :: char
  proof -
    have "unat (of_nat (of_char c) :: byte) = of_char c" by (simp add: unat_of_nat)
    then show ?thesis by (simp only: of_nat_of_char)
  qed
  assume "(of_char c :: byte) = of_char d"
  then have "(of_char c :: nat) = of_char d" by (metis unat_of_char)
  then show "c = d" by (simp only: of_char_eq_iff)
qed simp

lemma bs_eq_iff [simp]: "bs s = bs t \<longleftrightarrow> s = t"
  unfolding bs_def by (rule inj_map_eq_map) (simp add: inj_def)

lemma bs_facts [simp]: "length (bs s) = length s" "bs s = [] \<longleftrightarrow> s = []" "bs [] = []"
  "set (bs s) = of_char ` set s"
  by (simp_all add: bs_def)

section \<open>Outcomes\<close>

text \<open>
  \<open>Returned\<close>: the call returned. \<open>Exited\<close>: the process called \<open>exit\<close> with this status, in this
  state. \<open>Undefined\<close>: undefined behaviour. \<open>Diverged\<close>: the fuel of a loop ran out.
\<close>

datatype ('s, 'a) outcome = Returned 'a | Exited int 's | Undefined | Diverged

fun and_then :: "('s, 'a) outcome \<Rightarrow> ('a \<Rightarrow> ('s, 'b) outcome) \<Rightarrow> ('s, 'b) outcome" where
  "and_then (Returned a) f = f a"
| "and_then (Exited c s) f = Exited c s"
| "and_then Undefined f = Undefined"
| "and_then Diverged f = Diverged"

definition defined :: "'a option \<Rightarrow> ('s, 'a) outcome" where
  "defined x = (case x of None \<Rightarrow> Undefined | Some a \<Rightarrow> Returned a)"

lemma defined_simps [simp]: "defined None = Undefined" "defined (Some a) = Returned a"
  by (simp_all add: defined_def)

lemma and_then_Returned_iff:
  "and_then m f = Returned b \<longleftrightarrow> (\<exists>a. m = Returned a \<and> f a = Returned b)"
  by (cases m) auto

lemma defined_Returned_iff: "defined x = Returned a \<longleftrightarrow> x = Some a"
  by (cases x) auto

text \<open>
  Partial correctness: if the call returned, \<open>P\<close> holds of its result, and if it ended the process, \<open>E\<close>
  holds of the state.
\<close>

definition ends :: "('a \<Rightarrow> bool) \<Rightarrow> ('s \<Rightarrow> bool) \<Rightarrow> ('s, 'a) outcome \<Rightarrow> bool" where
  "ends P E r = (case r of Returned a \<Rightarrow> P a | Exited c s \<Rightarrow> E s | _ \<Rightarrow> True)"

lemma ends_simps [simp]: "ends P E (Returned a) = P a" "ends P E (Exited c s) = E s"
  "ends P E Undefined" "ends P E Diverged"
  by (simp_all add: ends_def)

lemma ends_then: "ends P E m \<Longrightarrow> (\<And>a. P a \<Longrightarrow> ends Q E (f a)) \<Longrightarrow> ends Q E (and_then m f)"
  by (cases m) simp_all

lemma ends_defined: "(\<And>a. x = Some a \<Longrightarrow> P a) \<Longrightarrow> ends P E (defined x)"
  by (cases x) simp_all

lemma ends_mono: "ends P E r \<Longrightarrow> (\<And>a. P a \<Longrightarrow> Q a) \<Longrightarrow> (\<And>s. E s \<Longrightarrow> F s) \<Longrightarrow> ends Q F r"
  by (cases r) simp_all

lemma ends_conj: "ends P E r \<Longrightarrow> ends Q E r \<Longrightarrow> ends (\<lambda>a. P a \<and> Q a) E r"
  by (cases r) simp_all

text \<open>Total correctness: the call returns, and \<open>P\<close> holds of its result.\<close>

definition gives :: "('a \<Rightarrow> bool) \<Rightarrow> ('s, 'a) outcome \<Rightarrow> bool" where
  "gives P r \<longleftrightarrow> (\<exists>a. r = Returned a \<and> P a)"

lemma gives_simps [simp]: "gives P (Returned a) = P a" "\<not> gives P (Exited c s)"
  "\<not> gives P Undefined" "\<not> gives P Diverged"
  by (simp_all add: gives_def)

lemma gives_then: "gives P m \<Longrightarrow> (\<And>a. P a \<Longrightarrow> gives Q (f a)) \<Longrightarrow> gives Q (and_then m f)"
  by (cases m) simp_all

lemma gives_mono: "gives P r \<Longrightarrow> (\<And>a. P a \<Longrightarrow> Q a) \<Longrightarrow> gives Q r"
  by (auto simp: gives_def)

section \<open>Loops with fuel\<close>

text \<open>One run of a loop body either goes round again or leaves the loop with a result.\<close>

datatype ('s, 'r) iter = Again 's | Stop 'r

fun loop :: "('s \<Rightarrow> ('s, 'r) iter) \<Rightarrow> nat \<Rightarrow> 's \<Rightarrow> 'r option" where
  "loop body 0 s = None"
| "loop body (Suc n) s =
     (case body s of Again s' \<Rightarrow> loop body n s' | Stop r \<Rightarrow> Some r)"

lemma loop_mono: "loop body n s = Some r \<Longrightarrow> n \<le> m \<Longrightarrow> loop body m s = Some r"
proof (induction body n s arbitrary: m rule: loop.induct)
  case (2 body n s)
  then obtain m' where "m = Suc m'" "n \<le> m'" by (cases m) auto
  with 2 show ?case by (auto split: iter.splits)
qed simp

text \<open>An invariant of a loop body and what it gives at the exit, carried along the loop.\<close>

lemma loop_result:
  assumes "\<And>x. J x \<Longrightarrow> case body x of Again y \<Rightarrow> J y | Stop r \<Rightarrow> post r"
  shows "loop body n x = Some r \<Longrightarrow> J x \<Longrightarrow> post r"
proof (induction n arbitrary: x)
  case (Suc n)
  with assms [of x] show ?case by (auto split: iter.splits)
qed simp

text \<open>A body that can always go round again never leaves the loop, whatever the fuel.\<close>

lemma loop_forever:
  assumes "\<And>s. P s \<Longrightarrow> \<exists>s'. body s = Again s' \<and> P s'" and "P s"
  shows "loop body n s = None"
  using assms(2)
proof (induction n arbitrary: s)
  case (Suc n)
  from assms(1) [OF Suc.prems] obtain s' where "body s = Again s'" "P s'" by blast
  with Suc.IH show ?case by simp
qed simp

text \<open>
  The interface of a loop that stops: an invariant that the body keeps and a variant that it
  decreases. The client lemma gives the fuel that is enough.
\<close>

locale variant_loop =
  fixes body :: "'s \<Rightarrow> ('s, 'r) iter"
    and inv :: "'s \<Rightarrow> bool"
    and variant :: "'s \<Rightarrow> nat"
  assumes keeps: "inv s \<Longrightarrow> body s = Again s' \<Longrightarrow> inv s'"
    and decreases: "inv s \<Longrightarrow> body s = Again s' \<Longrightarrow> variant s' < variant s"
begin

lemma enough_fuel: "inv s \<Longrightarrow> variant s < n \<Longrightarrow> \<exists>r. loop body n s = Some r"
proof (induction n arbitrary: s)
  case (Suc n)
  show ?case
  proof (cases "body s")
    case (Again s')
    with Suc.prems have "inv s'" "variant s' < n"
      using keeps decreases [of s s'] by auto
    with Suc.IH Again show ?thesis by simp
  qed simp
qed simp

lemma fuel_irrelevant:
  assumes "inv s" "variant s < n" "variant s < m"
  shows "loop body n s = loop body m s"
proof -
  from enough_fuel assms obtain r where "loop body (Suc (variant s)) s = Some r" by blast
  with assms show ?thesis by (metis Suc_leI loop_mono)
qed

end

section \<open>Runs of a step relation\<close>

text \<open>\<open>runs step s es t\<close>: the events \<open>es\<close>, taken in this order, lead from \<open>s\<close> to \<open>t\<close>.\<close>

inductive runs :: "('s \<Rightarrow> 'e \<Rightarrow> 's \<Rightarrow> bool) \<Rightarrow> 's \<Rightarrow> 'e list \<Rightarrow> 's \<Rightarrow> bool"
  for step :: "'s \<Rightarrow> 'e \<Rightarrow> 's \<Rightarrow> bool" where
  runs_Nil: "runs step s [] s"
| runs_Cons: "step s e t \<Longrightarrow> runs step t es u \<Longrightarrow> runs step s (e # es) u"

inductive_cases runs_NilE: "runs step s [] t"
inductive_cases runs_ConsE: "runs step s (e # es) t"

lemma runs_append: "runs step s es t \<Longrightarrow> runs step t es' u \<Longrightarrow> runs step s (es @ es') u"
  by (induction rule: runs.induct) (auto intro: runs_Cons)

text \<open>
  The interface of a state machine with an invariant: the initial states satisfy it and the events
  that are allowed keep it. The client lemma carries it along every run of allowed events.
\<close>

locale machine =
  fixes initial :: "'s \<Rightarrow> bool"
    and step :: "'s \<Rightarrow> 'e \<Rightarrow> 's \<Rightarrow> bool"
    and allowed :: "'e \<Rightarrow> bool"
    and inv :: "'s \<Rightarrow> bool"
  assumes initial_inv: "initial s \<Longrightarrow> inv s"
    and step_inv: "inv s \<Longrightarrow> step s e t \<Longrightarrow> allowed e \<Longrightarrow> inv t"
begin

lemma runs_inv: "runs step s es t \<Longrightarrow> inv s \<Longrightarrow> \<forall>e \<in> set es. allowed e \<Longrightarrow> inv t"
  by (induction rule: runs.induct) (auto intro: step_inv)

lemma runs_from_initial: "runs step s es t \<Longrightarrow> initial s \<Longrightarrow> \<forall>e \<in> set es. allowed e \<Longrightarrow> inv t"
  by (blast intro: initial_inv runs_inv)

end

section \<open>Repeated reads\<close>

text \<open>
  \<open>rep n rd o\<close> is the loop \<open>for (i = 0; i < n; i++)\<close> whose body reads one item at the offset
  \<open>o\<close> and moves \<open>o\<close> past it.
\<close>

fun rep :: "nat \<Rightarrow> (nat \<Rightarrow> ('a \<times> nat) option) \<Rightarrow> nat \<Rightarrow> ('a list \<times> nat) option" where
  "rep 0 rd off = Some ([], off)"
| "rep (Suc n) rd off =
     do { (x, off1) \<leftarrow> rd off; (xs, off2) \<leftarrow> rep n rd off1; Some (x # xs, off2) }"

lemma rep_length: "rep n rd off = Some (xs, off') \<Longrightarrow> length xs = n"
  by (induction n rd off arbitrary: xs off' rule: rep.induct)
    (auto split: Option.bind_splits prod.splits)

text \<open>From the offset \<open>off\<close> on, the block holds \<open>suf\<close>.\<close>

definition at :: "byte list \<Rightarrow> nat \<Rightarrow> byte list \<Rightarrow> bool" where
  "at data off suf \<longleftrightarrow> off \<le> length data \<and> drop off data = suf"

lemma at_split: "at data off suf \<longleftrightarrow> (\<exists>pre. data = pre @ suf \<and> off = length pre)"
  unfolding at_def by (metis append_take_drop_id append_eq_conv_conj length_append length_take le_add1 min.absorb2)

lemma at_append: "off = length pre \<Longrightarrow> at (pre @ suf) off suf"
  by (simp add: at_def)

text \<open>
  The interface of a field of a message: its wire form and the code that reads it at an offset.
  The law says that reading where the wire form lies gives the value back and moves the offset
  behind it; a sequence of fields then reads back as well.
\<close>

locale wire_field =
  fixes enc :: "'a \<Rightarrow> byte list"
    and rd :: "byte list \<Rightarrow> nat \<Rightarrow> ('a \<times> nat) option"
    and wf :: "'a \<Rightarrow> bool"
  assumes rd_at: "wf x \<Longrightarrow> at data off (enc x @ post) \<Longrightarrow>
    \<exists>off'. rd data off = Some (x, off') \<and> at data off' post"
begin

lemma rep_at: "list_all wf xs \<Longrightarrow> at data off (concat (map enc xs) @ post) \<Longrightarrow>
  \<exists>off'. rep (length xs) (rd data) off = Some (xs, off') \<and> at data off' post"
proof (induction xs arbitrary: off)
  case (Cons x xs)
  then have "wf x" "at data off (enc x @ concat (map enc xs) @ post)" by simp_all
  from rd_at [OF this] obtain off1 where
    "rd data off = Some (x, off1)" "at data off1 (concat (map enc xs) @ post)" by blast
  with Cons.IH [of off1] Cons.prems(1) show ?case by auto
qed simp

text \<open>A field behind a prefix that is known.\<close>

lemma rd_behind: "wf x \<Longrightarrow> \<exists>off'. rd (pre @ enc x @ post) (length pre) = Some (x, off') \<and>
  at (pre @ enc x @ post) off' post"
  by (rule rd_at) (simp_all add: at_append)

end

section \<open>Blocks of memory\<close>

text \<open>Writing a run of bytes at an offset of an array; \<open>None\<close> when it does not fit.\<close>

definition put :: "byte list \<Rightarrow> nat \<Rightarrow> byte list \<Rightarrow> byte list option" where
  "put arr off bytes =
     (if off + length bytes \<le> length arr
      then Some (take off arr @ bytes @ drop (off + length bytes) arr) else None)"

lemma put_length: "put arr off bytes = Some arr' \<Longrightarrow> length arr' = length arr"
  by (auto simp: put_def split: if_splits)

lemma put_take: "put arr off bytes = Some arr' \<Longrightarrow> take off arr' = take off arr"
  by (auto simp: put_def split: if_splits)

text \<open>The C string at the start of an array: the bytes before the first NUL.\<close>

definition cstr :: "byte list \<Rightarrow> ctext" where
  "cstr arr = takeWhile (\<lambda>b. b \<noteq> 0) arr"

lemma cstr_no_nul: "0 \<notin> set (cstr arr)"
  by (auto simp: cstr_def dest: set_takeWhileD)

lemma cstr_append_nul [simp]: "0 \<notin> set s \<Longrightarrow> cstr (s @ 0 # rest) = s"
  unfolding cstr_def by (subst takeWhile_append2) auto

lemma cstr_Nil [simp]: "cstr [] = []" and cstr_nul [simp]: "cstr (0 # xs) = []"
  by (simp_all add: cstr_def)

lemma cstr_id: "0 \<notin> set s \<Longrightarrow> cstr s = s"
  unfolding cstr_def by (auto simp: takeWhile_eq_all_conv)

lemma length_cstr: "length (cstr arr) \<le> length arr"
  by (simp add: cstr_def length_takeWhile_le)

lemma cstr_shorter: "0 \<in> set arr \<Longrightarrow> length (cstr arr) < length arr"
  unfolding cstr_def by (induction arr) auto

lemma split_block: "off + n \<le> length data \<Longrightarrow>
  data = take off data @ take n (drop off data) @ drop (off + n) data"
  by (metis add.commute append_take_drop_id drop_drop)

text \<open>The \<open>n\<close> bytes at \<open>off\<close>; a negative \<open>n\<close> is a huge \<open>size_t\<close>, which no block holds.\<close>

definition mem_range :: "byte list \<Rightarrow> nat \<Rightarrow> int \<Rightarrow> byte list option" where
  "mem_range data off n =
     (if 0 \<le> n \<and> off + nat n \<le> length data then Some (take (nat n) (drop off data)) else None)"

text \<open>Arithmetic on \<open>int\<close>: a result outside the type is undefined.\<close>

definition c_int :: "int \<Rightarrow> int option" where
  "c_int i = (if - (2 ^ 31) \<le> i \<and> i < 2 ^ 31 then Some i else None)"

lemma c_int_in: "- (2 ^ 31) \<le> i \<Longrightarrow> i < 2 ^ 31 \<Longrightarrow> c_int i = Some i"
  by (simp add: c_int_def)

end
