(* ===== verification/Bytes.thy ===== *)
theory Bytes
  imports Prelude
begin

text \<open>
  The readers and writers of \<open>src/src/libpgprtdbg/utils.c\<close>: big-endian integers and C strings at
  a position of a block of memory. A pointer \<open>data + o\<close> is the block and the offset \<open>o\<close>. The
  platform is little-endian, as the code assumes where it takes the bytes of an integer apart.
\<close>

section \<open>Reading\<close>

definition read_byte :: "byte list \<Rightarrow> nat \<Rightarrow> byte option" where
  "read_byte data off = (if off < length data then Some (data ! off) else None)"

definition read_int16 :: "byte list \<Rightarrow> nat \<Rightarrow> i16 option" where
  "read_int16 data off = do {
     b0 \<leftarrow> read_byte data off;
     b1 \<leftarrow> read_byte data (off + 1);
     Some (push_bit 8 (ucast b0) OR ucast b1) }"

definition read_int32 :: "byte list \<Rightarrow> nat \<Rightarrow> i32 option" where
  "read_int32 data off = do {
     b0 \<leftarrow> read_byte data off;
     b1 \<leftarrow> read_byte data (off + 1);
     b2 \<leftarrow> read_byte data (off + 2);
     b3 \<leftarrow> read_byte data (off + 3);
     Some (push_bit 24 (ucast b0) OR push_bit 16 (ucast b1) OR push_bit 8 (ucast b2) OR ucast b3) }"

definition read_long :: "byte list \<Rightarrow> nat \<Rightarrow> i64 option" where
  "read_long data off = do {
     b0 \<leftarrow> read_byte data off;
     b1 \<leftarrow> read_byte data (off + 1);
     b2 \<leftarrow> read_byte data (off + 2);
     b3 \<leftarrow> read_byte data (off + 3);
     b4 \<leftarrow> read_byte data (off + 4);
     b5 \<leftarrow> read_byte data (off + 5);
     b6 \<leftarrow> read_byte data (off + 6);
     b7 \<leftarrow> read_byte data (off + 7);
     Some (push_bit 56 (ucast b0) OR push_bit 48 (ucast b1) OR push_bit 40 (ucast b2)
       OR push_bit 32 (ucast b3) OR push_bit 24 (ucast b4) OR push_bit 16 (ucast b5)
       OR push_bit 8 (ucast b6) OR ucast b7) }"

text \<open>
  \<open>pgprtdbg_read_string\<close> only hands the pointer on; its users follow it to the terminating NUL
  (\<open>strlen\<close>, \<open>%s\<close>), which has to lie inside the block.
\<close>

definition read_string :: "byte list \<Rightarrow> nat \<Rightarrow> ctext option" where
  "read_string data off =
     (if 0 \<in> set (drop off data) then Some (cstr (drop off data)) else None)"

section \<open>Writing\<close>

definition write_byte :: "byte list \<Rightarrow> nat \<Rightarrow> byte \<Rightarrow> byte list option" where
  "write_byte data off b = (if off < length data then Some (data[off := b]) else None)"

text \<open>The bytes of an integer in memory, lowest first.\<close>

definition bytes_of_int32 :: "i32 \<Rightarrow> byte list" where
  "bytes_of_int32 i = [ucast i, ucast (drop_bit 8 i), ucast (drop_bit 16 i), ucast (drop_bit 24 i)]"

definition bytes_of_long :: "i64 \<Rightarrow> byte list" where
  "bytes_of_long i = map (\<lambda>k. ucast (drop_bit (8 * k) i)) [0..<8]"

definition write_int32 :: "byte list \<Rightarrow> nat \<Rightarrow> i32 \<Rightarrow> byte list option" where
  "write_int32 data off i = do {
     data \<leftarrow> write_byte data (off + 3) (bytes_of_int32 i ! 0);
     data \<leftarrow> write_byte data (off + 2) (bytes_of_int32 i ! 1);
     data \<leftarrow> write_byte data (off + 1) (bytes_of_int32 i ! 2);
     write_byte data off (bytes_of_int32 i ! 3) }"

definition write_long :: "byte list \<Rightarrow> nat \<Rightarrow> i64 \<Rightarrow> byte list option" where
  "write_long data off i = do {
     data \<leftarrow> write_byte data (off + 7) (bytes_of_long i ! 0);
     data \<leftarrow> write_byte data (off + 6) (bytes_of_long i ! 1);
     data \<leftarrow> write_byte data (off + 5) (bytes_of_long i ! 2);
     data \<leftarrow> write_byte data (off + 4) (bytes_of_long i ! 3);
     data \<leftarrow> write_byte data (off + 3) (bytes_of_long i ! 4);
     data \<leftarrow> write_byte data (off + 2) (bytes_of_long i ! 5);
     data \<leftarrow> write_byte data (off + 1) (bytes_of_long i ! 6);
     write_byte data off (bytes_of_long i ! 7) }"

text \<open>\<open>memcpy (data, s, strlen (s))\<close>: the terminating NUL is not written.\<close>

definition write_string :: "byte list \<Rightarrow> nat \<Rightarrow> ctext \<Rightarrow> byte list option" where
  "write_string data off s = put data off s"

section \<open>Wire forms and round trips\<close>

text \<open>The wire form of the fields of a message (specification): network byte order.\<close>

definition be16 :: "i16 \<Rightarrow> byte list" where
  "be16 w = [ucast (drop_bit 8 w), ucast w]"

definition be32 :: "i32 \<Rightarrow> byte list" where
  "be32 w = [ucast (drop_bit 24 w), ucast (drop_bit 16 w), ucast (drop_bit 8 w), ucast w]"

definition be64 :: "i64 \<Rightarrow> byte list" where
  "be64 w = [ucast (drop_bit 56 w), ucast (drop_bit 48 w), ucast (drop_bit 40 w),
     ucast (drop_bit 32 w), ucast (drop_bit 24 w), ucast (drop_bit 16 w), ucast (drop_bit 8 w),
     ucast w]"

definition zstr :: "ctext \<Rightarrow> byte list" where
  "zstr s = s @ [0]"

definition nul_free :: "ctext \<Rightarrow> bool" where
  "nul_free s \<longleftrightarrow> 0 \<notin> set s"

lemma length_be [simp]:
  "length (be16 w) = 2" "length (be32 v) = 4" "length (be64 u) = 8" "length (zstr s) = length s + 1"
  by (simp_all add: be16_def be32_def be64_def zstr_def)

text \<open>One byte of a word, put back at its place, is the word masked to that byte.\<close>

lemma byte_part:
  "push_bit k (ucast (ucast (drop_bit k w) :: byte)) = (w :: 'a::len word) AND push_bit k (mask 8)"
  by (rule bit_word_eqI) (auto simp: bit_simps)

lemma byte_part_0: "ucast (ucast w :: byte) = (w :: 'a::len word) AND mask 8"
  using byte_part [of 0 w] by simp

lemma full_mask: "(65535 :: i16) = - 1" "(4294967295 :: i32) = - 1"
  "(18446744073709551615 :: i64) = - 1"
  by simp_all

lemma join16: "push_bit 8 (ucast (ucast (drop_bit 8 w) :: byte)) OR ucast (ucast w :: byte) = (w :: i16)"
  unfolding byte_part unfolding byte_part_0 bit.conj_disj_distrib [symmetric]
  by (simp add: mask_eq_exp_minus_1 full_mask)

lemma join32: "push_bit 24 (ucast (ucast (drop_bit 24 w) :: byte)) OR
    push_bit 16 (ucast (ucast (drop_bit 16 w) :: byte)) OR
    push_bit 8 (ucast (ucast (drop_bit 8 w) :: byte)) OR ucast (ucast w :: byte) = (w :: i32)"
  unfolding byte_part unfolding byte_part_0 bit.conj_disj_distrib [symmetric]
  by (simp add: mask_eq_exp_minus_1 full_mask)

lemma join64: "push_bit 56 (ucast (ucast (drop_bit 56 w) :: byte)) OR
    push_bit 48 (ucast (ucast (drop_bit 48 w) :: byte)) OR
    push_bit 40 (ucast (ucast (drop_bit 40 w) :: byte)) OR
    push_bit 32 (ucast (ucast (drop_bit 32 w) :: byte)) OR
    push_bit 24 (ucast (ucast (drop_bit 24 w) :: byte)) OR
    push_bit 16 (ucast (ucast (drop_bit 16 w) :: byte)) OR
    push_bit 8 (ucast (ucast (drop_bit 8 w) :: byte)) OR ucast (ucast w :: byte) = (w :: i64)"
  unfolding byte_part unfolding byte_part_0 bit.conj_disj_distrib [symmetric]
  by (simp add: mask_eq_exp_minus_1 full_mask)

lemma read_byte_at [decode]: "off = length pre \<Longrightarrow> read_byte (pre @ b # post) off = Some b"
  by (simp add: read_byte_def)

lemma read_byte_skip [decode]:
  "read_byte (pre @ x # post) (length pre + n) = (if n = 0 then Some x else read_byte post (n - 1))"
  by (cases n) (auto simp: read_byte_def nth_append)

lemma read_byte_Cons: "read_byte (x # xs) (Suc n) = read_byte xs n" "read_byte (x # xs) 0 = Some x"
  by (simp_all add: read_byte_def)

lemma read_int16_at [decode]: "off = length pre \<Longrightarrow> read_int16 (pre @ be16 w @ post) off = Some w"
  by (simp add: read_int16_def be16_def read_byte_def nth_append join16)

lemma read_int32_at [decode]: "off = length pre \<Longrightarrow> read_int32 (pre @ be32 w @ post) off = Some w"
  by (simp add: read_int32_def be32_def read_byte_def nth_append join32)

lemma read_long_at [decode]: "off = length pre \<Longrightarrow> read_long (pre @ be64 w @ post) off = Some w"
  by (simp add: read_long_def be64_def read_byte_def nth_append join64)

lemma read_string_at [decode]:
  "nul_free s \<Longrightarrow> off = length pre \<Longrightarrow> read_string (pre @ zstr s @ post) off = Some s"
  by (simp add: read_string_def zstr_def nul_free_def)

lemma read_byte_Some_iff: "(\<exists>b. read_byte data off = Some b) \<longleftrightarrow> off < length data"
  by (simp add: read_byte_def)

lemma read_int32_None_iff: "read_int32 data off = None \<longleftrightarrow> length data < off + 4"
  by (auto simp: read_int32_def read_byte_def)

lemma read_int16_None_iff: "read_int16 data off = None \<longleftrightarrow> length data < off + 2"
  by (auto simp: read_int16_def read_byte_def)

lemma read_int32_bound: "read_int32 data off = Some w \<Longrightarrow> off + 4 \<le> length data"
  by (metis leI option.distinct(1) read_int32_None_iff)

lemma read_int16_bound: "read_int16 data off = Some w \<Longrightarrow> off + 2 \<le> length data"
  by (metis leI option.distinct(1) read_int16_None_iff)

lemma read_byte_bound: "read_byte data off = Some b \<Longrightarrow> off + 1 \<le> length data"
  by (auto simp: read_byte_def split: if_splits)

lemma read_string_bound: "read_string data off = Some s \<Longrightarrow> off + length s + 1 \<le> length data"
proof -
  assume "read_string data off = Some s"
  then have "0 \<in> set (drop off data)" and s: "s = cstr (drop off data)"
    by (auto simp: read_string_def split: if_splits)
  from \<open>0 \<in> set (drop off data)\<close> have "length s < length (drop off data)"
    unfolding s by (rule cstr_shorter)
  then show ?thesis by simp
qed

lemma read_string_nul_free: "read_string data off = Some s \<Longrightarrow> nul_free s"
  by (auto simp: read_string_def nul_free_def cstr_no_nul split: if_splits)

section \<open>Taking a field and moving the offset\<close>

text \<open>
  The pattern \<open>x = pgprtdbg_read_T (data + o); o += sizeof (T);\<close> of every decoder, and
  \<open>s = pgprtdbg_read_string (data + o); o += strlen (s) + 1;\<close> for strings.
\<close>

definition take_byte :: "byte list \<Rightarrow> nat \<Rightarrow> (byte \<times> nat) option" where
  "take_byte data off = map_option (\<lambda>b. (b, off + 1)) (read_byte data off)"

definition take_int16 :: "byte list \<Rightarrow> nat \<Rightarrow> (i16 \<times> nat) option" where
  "take_int16 data off = map_option (\<lambda>w. (w, off + 2)) (read_int16 data off)"

definition take_int32 :: "byte list \<Rightarrow> nat \<Rightarrow> (i32 \<times> nat) option" where
  "take_int32 data off = map_option (\<lambda>w. (w, off + 4)) (read_int32 data off)"

definition take_string :: "byte list \<Rightarrow> nat \<Rightarrow> (ctext \<times> nat) option" where
  "take_string data off = map_option (\<lambda>s. (s, off + length s + 1)) (read_string data off)"

lemma take_bound:
  "take_byte data off = Some (b, off') \<Longrightarrow> off < off' \<and> off' \<le> length data"
  "take_int16 data off = Some (w, off') \<Longrightarrow> off < off' \<and> off' \<le> length data"
  "take_int32 data off = Some (v, off') \<Longrightarrow> off < off' \<and> off' \<le> length data"
  "take_string data off = Some (s, off') \<Longrightarrow> off < off' \<and> off' \<le> length data"
  by (auto simp: take_byte_def take_int16_def take_int32_def take_string_def
      dest: read_byte_bound read_int16_bound read_int32_bound read_string_bound)

lemma take_at:
  "at data off (b # post) \<Longrightarrow> take_byte data off = Some (b, off + 1) \<and> at data (off + 1) post"
  "at data off (be16 w @ post) \<Longrightarrow> take_int16 data off = Some (w, off + 2) \<and> at data (off + 2) post"
  "at data off (be32 v @ post) \<Longrightarrow> take_int32 data off = Some (v, off + 4) \<and> at data (off + 4) post"
  "nul_free s \<Longrightarrow> at data off (zstr s @ post) \<Longrightarrow>
     take_string data off = Some (s, off + length s + 1) \<and> at data (off + length s + 1) post"
  by (auto simp: at_split take_byte_def take_int16_def take_int32_def take_string_def decode
      intro: exI [of _ "_ @ [_]"] exI [of _ "_ @ be16 _"] exI [of _ "_ @ be32 _"] exI [of _ "_ @ zstr _"])

interpretation byte_field: wire_field "\<lambda>b. [b]" take_byte "\<lambda>_. True"
  by unfold_locales (auto dest: take_at(1))

interpretation int16_field: wire_field be16 take_int16 "\<lambda>_. True"
  by unfold_locales (auto dest: take_at(2))

interpretation int32_field: wire_field be32 take_int32 "\<lambda>_. True"
  by unfold_locales (auto dest: take_at(3))

interpretation string_field: wire_field zstr take_string nul_free
  by unfold_locales (auto dest: take_at(4))

text \<open>
  \<open>pgprtdbg_write_int32\<close> stores a value in network byte order at an offset of a block that has
  four bytes there, touches nothing else, and \<open>pgprtdbg_read_int32\<close> reads the value back.
\<close>

theorem write_int32_read_int32:
  assumes "off + 4 \<le> length data"
  shows "\<exists>data'. write_int32 data off v = Some data' \<and> put data off (be32 v) = Some data' \<and>
    read_int32 data' off = Some v"
proof -
  define pre mid post where "pre = take off data" and "mid = take 4 (drop off data)"
    and "post = drop (off + 4) data"
  have data: "data = pre @ mid @ post" and off: "off = length pre" and mid: "length mid = 4"
    using assms by (simp_all add: pre_def mid_def post_def split_block)
  from mid obtain a b c d where m: "mid = [a, b, c, d]"
    by (auto simp: numeral_eq_Suc length_Suc_conv)
  have "write_int32 data off v = Some (pre @ be32 v @ post)"
    by (simp add: write_int32_def write_byte_def data off m bytes_of_int32_def be32_def
        list_update_append numeral_eq_Suc)
  moreover have "put data off (be32 v) = Some (pre @ be32 v @ post)"
    by (simp add: put_def data off m)
  ultimately show ?thesis by (simp add: read_int32_at off)
qed

theorem write_int32_read_int32_witness:
  "\<exists>data'. write_int32 [9, 0, 0, 0, 0, 7] 1 (-2) = Some data' \<and>
    put [9, 0, 0, 0, 0, 7] 1 (be32 (-2)) = Some data' \<and> read_int32 data' 1 = Some (-2)"
  by (rule write_int32_read_int32) simp

text \<open>
  \<open>pgprtdbg_write_long\<close> and \<open>pgprtdbg_read_long\<close> are inverse in the same way on eight bytes.
\<close>

theorem write_long_read_long:
  assumes "off + 8 \<le> length data"
  shows "\<exists>data'. write_long data off v = Some data' \<and> put data off (be64 v) = Some data' \<and>
    read_long data' off = Some v"
proof -
  define pre mid post where "pre = take off data" and "mid = take 8 (drop off data)"
    and "post = drop (off + 8) data"
  have data: "data = pre @ mid @ post" and off: "off = length pre" and mid: "length mid = 8"
    using assms by (simp_all add: pre_def mid_def post_def split_block)
  from mid obtain a b c d e f g h where m: "mid = [a, b, c, d, e, f, g, h]"
    by (auto simp: numeral_eq_Suc length_Suc_conv)
  have "write_long data off v = Some (pre @ be64 v @ post)"
    by (simp add: write_long_def write_byte_def data off m bytes_of_long_def be64_def
        list_update_append numeral_eq_Suc upt_rec)
  moreover have "put data off (be64 v) = Some (pre @ be64 v @ post)"
    by (simp add: put_def data off m)
  ultimately show ?thesis by (simp add: read_long_at off)
qed

theorem write_long_read_long_witness:
  "\<exists>data'. write_long [1, 1, 1, 1, 1, 1, 1, 1] 0 258 = Some data' \<and>
    put [1, 1, 1, 1, 1, 1, 1, 1] 0 (be64 258) = Some data' \<and> read_long data' 0 = Some 258"
  by (rule write_long_read_long) simp

end
