(* ===== verification/Buffer.thy ===== *)
theory Buffer
  imports Bytes
begin

text \<open>
  \<open>pgprtdbg_data_append\<close> and \<open>pgprtdbg_data_remove\<close> of \<open>src/src/libpgprtdbg/utils.c\<close>: the growing
  block in which the protocol decoder collects a stream. A pointer to the block is \<open>None\<close> for
  \<open>NULL\<close> and \<open>Some\<close> of the block's bytes otherwise; the size the caller keeps beside it is a
  \<open>size_t\<close>, so a size that is too large to remove wraps around. Allocation does not fail.
\<close>

type_synonym ptr = "byte list option"

text \<open>
  \<open>memcpy\<close> out of a block: the \<open>n\<close> bytes at \<open>off\<close>, which have to lie inside it. The end is
  computed without wrap-around, as a run of memory is.
\<close>

definition copy_out :: "byte list \<Rightarrow> size_t \<Rightarrow> size_t \<Rightarrow> byte list option" where
  "copy_out blk off n =
     (if unat off + unat n \<le> length blk then Some (take (unat n) (drop (unat off) blk)) else None)"

text \<open>
  The bytes that \<open>realloc\<close> adds are written by the \<open>memcpy\<close> that follows when the recorded size
  is the size of the block; a recorded size beyond the block would leave bytes without a value.
\<close>

definition data_append :: "ptr \<Rightarrow> size_t \<Rightarrow> byte list \<Rightarrow> (ptr \<times> size_t) option" where
  "data_append data data_size new_data =
     (case data of
        Some blk \<Rightarrow>
          if unat data_size \<le> length blk
          then Some (Some (take (unat data_size) blk @ new_data),
                     data_size + word_of_nat (length new_data))
          else None
      | None \<Rightarrow> Some (Some new_data, word_of_nat (length new_data)))"

definition data_remove :: "ptr \<Rightarrow> size_t \<Rightarrow> size_t \<Rightarrow> (ptr \<times> size_t) option" where
  "data_remove data data_size remove_size =
     (if data_size - remove_size = 0 then Some (None, 0)
      else do {
        let new_size = data_size - remove_size;
        blk \<leftarrow> data;
        result \<leftarrow> copy_out blk remove_size new_size;
        Some (Some result, new_size) })"

section \<open>The bytes held and the representation invariant\<close>

definition held :: "ptr \<Rightarrow> byte list" where
  "held data = (case data of None \<Rightarrow> [] | Some blk \<Rightarrow> blk)"

definition buffer_ok :: "ptr \<Rightarrow> size_t \<Rightarrow> bool" where
  "buffer_ok data data_size \<longleftrightarrow> unat data_size = length (held data)"

lemma held_simps [simp]: "held None = []" "held (Some blk) = blk"
  by (simp_all add: held_def)

lemma buffer_ok_empty [simp]: "buffer_ok None 0"
  by (simp add: buffer_ok_def)

lemma buffer_ok_size: "buffer_ok data n \<Longrightarrow> n = word_of_nat (length (held data))"
  by (metis buffer_ok_def of_nat_unat ucast_id)

lemma data_append_ok:
  assumes "buffer_ok data n" "length (held data) + length new < 2 ^ 64"
  shows "\<exists>blk. data_append data n new = Some (Some blk, n + word_of_nat (length new)) \<and>
    blk = held data @ new \<and> buffer_ok (Some blk) (n + word_of_nat (length new))"
proof -
  have "unat (n + word_of_nat (length new)) = length (held data) + length new"
    using assms by (simp add: buffer_ok_def unat_word_ariths unat_of_nat)
  moreover have "n + word_of_nat (length new) = word_of_nat (length new)" if "data = None"
    using that assms(1) by (simp add: buffer_ok_def unat_eq_0)
  ultimately show ?thesis
    using assms(1) by (auto simp: data_append_def buffer_ok_def split: option.splits)
qed

lemma data_remove_ok:
  assumes "buffer_ok data n" "k \<le> length (held data)" "k < 2 ^ 64"
  shows "\<exists>data' n'. data_remove data n (word_of_nat k) = Some (data', n') \<and>
    held data' = drop k (held data) \<and> buffer_ok data' n'"
proof -
  have k: "unat (word_of_nat k :: size_t) = k" using assms(3) by (simp add: unat_of_nat)
  have le: "(word_of_nat k :: size_t) \<le> n"
    using assms k by (simp add: word_le_nat_alt buffer_ok_def)
  have diff: "unat (n - word_of_nat k) = length (held data) - k"
    using assms(1) k unat_sub [OF le] by (simp add: buffer_ok_def)
  show ?thesis
  proof (cases "n - word_of_nat k = 0")
    case True
    then have "length (held data) - k = 0" using diff by simp
    with True show ?thesis by (simp add: data_remove_def)
  next
    case False
    then have "unat (n - word_of_nat k) \<noteq> 0" by (simp add: unat_eq_0)
    then obtain blk where blk: "data = Some blk" using diff by (cases data) auto
    have "copy_out blk (word_of_nat k) (n - word_of_nat k) = Some (drop k blk)"
      using assms(2) by (simp add: copy_out_def k diff blk)
    with False show ?thesis
      by (simp add: data_remove_def blk buffer_ok_def diff Let_def)
  qed
qed

text \<open>
  The interface the decoder relies on: the block as a queue of bytes. Appending adds at the end,
  removing takes from the front, and both keep the size right.
\<close>

locale byte_queue =
  fixes append_op :: "'p \<Rightarrow> 'n \<Rightarrow> byte list \<Rightarrow> ('p \<times> 'n) option"
    and remove_op :: "'p \<Rightarrow> 'n \<Rightarrow> nat \<Rightarrow> ('p \<times> 'n) option"
    and content :: "'p \<Rightarrow> byte list"
    and ok :: "'p \<Rightarrow> 'n \<Rightarrow> bool"
    and room :: nat
  assumes append_law: "ok p n \<Longrightarrow> length (content p) + length new < room \<Longrightarrow>
      \<exists>p' n'. append_op p n new = Some (p', n') \<and> content p' = content p @ new \<and> ok p' n'"
    and remove_law: "ok p n \<Longrightarrow> k \<le> length (content p) \<Longrightarrow> k < room \<Longrightarrow>
      \<exists>p' n'. remove_op p n k = Some (p', n') \<and> content p' = drop k (content p) \<and> ok p' n'"
begin

lemma append_remove:
  assumes "ok p n" "length (content p) + length new < room" "k \<le> length (content p)"
  shows "\<exists>p1 n1 p2 n2. append_op p n new = Some (p1, n1) \<and> remove_op p1 n1 k = Some (p2, n2) \<and>
    content p2 = drop k (content p) @ new \<and> ok p2 n2"
proof -
  from append_law [OF assms(1,2)] obtain p1 n1 where
    1: "append_op p n new = Some (p1, n1)" "content p1 = content p @ new" "ok p1 n1" by blast
  from remove_law [OF 1(3), of k] assms 1(2) obtain p2 n2 where
    "remove_op p1 n1 k = Some (p2, n2)" "content p2 = drop k (content p1)" "ok p2 n2" by auto
  with 1 assms(3) show ?thesis by auto
qed

text \<open>Appending a message in pieces leaves the same bytes as appending it at once.\<close>

lemma append_append:
  assumes "ok p n" "length (content p) + length (xs @ ys) < room"
  shows "\<exists>p1 n1 p2 n2 p3 n3. append_op p n xs = Some (p1, n1) \<and> append_op p1 n1 ys = Some (p2, n2) \<and>
    append_op p n (xs @ ys) = Some (p3, n3) \<and> content p2 = content p3"
proof -
  from append_law [OF assms(1), of xs] assms(2) obtain p1 n1 where
    1: "append_op p n xs = Some (p1, n1)" "content p1 = content p @ xs" "ok p1 n1" by auto
  from append_law [OF 1(3), of ys] assms(2) 1(2) obtain p2 n2 where
    2: "append_op p1 n1 ys = Some (p2, n2)" "content p2 = content p1 @ ys" by auto
  from append_law [OF assms] obtain p3 n3 where
    "append_op p n (xs @ ys) = Some (p3, n3)" "content p3 = content p @ xs @ ys" by blast
  with 1 2 show ?thesis by auto
qed

end

interpretation stream_buffer: byte_queue data_append "\<lambda>p n k. data_remove p n (word_of_nat k)"
  held buffer_ok "2 ^ 64"
proof unfold_locales
  fix p :: ptr and n :: size_t and new :: "byte list"
  assume "buffer_ok p n" "length (held p) + length new < 2 ^ 64"
  from data_append_ok [OF this] show "\<exists>p' n'. data_append p n new = Some (p', n') \<and>
    held p' = held p @ new \<and> buffer_ok p' n'" by auto
next
  fix p :: ptr and n :: size_t and k :: nat
  assume "buffer_ok p n" "k \<le> length (held p)" "k < 2 ^ 64"
  from data_remove_ok [OF this] show "\<exists>p' n'. data_remove p n (word_of_nat k) = Some (p', n') \<and>
    held p' = drop k (held p) \<and> buffer_ok p' n'" .
qed

text \<open>
  A block with a right size takes new bytes at its end and gives up bytes at its front: after
  \<open>pgprtdbg_data_append\<close> and \<open>pgprtdbg_data_remove\<close> of \<open>k\<close> old bytes it holds the old bytes from
  \<open>k\<close> on and then the new ones, and its recorded size is again its length.
\<close>

theorem append_then_remove:
  assumes "buffer_ok p n" "length (held p) + length new < 2 ^ 64" "k \<le> length (held p)"
  shows "\<exists>p1 n1 p2 n2. data_append p n new = Some (p1, n1) \<and>
    data_remove p1 n1 (word_of_nat k) = Some (p2, n2) \<and>
    held p2 = drop k (held p) @ new \<and> buffer_ok p2 n2"
  by (rule stream_buffer.append_remove [OF assms])

theorem append_then_remove_witness:
  "\<exists>p1 n1 p2 n2. data_append (Some [1, 2, 3]) 3 [4] = Some (p1, n1) \<and>
    data_remove p1 n1 (word_of_nat 2) = Some (p2, n2) \<and>
    held p2 = drop 2 (held (Some [1, 2, 3])) @ [4] \<and> buffer_ok p2 n2"
  by (rule append_then_remove) (simp_all add: buffer_ok_def)

text \<open>
  Removing more than the block holds: the size wraps around and the copy reads outside the block,
  whichever side of it the wrapped offset falls on.
\<close>

lemma data_remove_too_much:
  assumes "buffer_ok data n" "n < k"
  shows "data_remove data n k = None"
proof -
  have "n - k \<noteq> 0" using assms(2) by auto
  moreover have "copy_out blk k (n - k) = None" if "data = Some blk" for blk
    using assms that by (simp add: copy_out_def buffer_ok_def word_less_nat_alt)
  ultimately show ?thesis by (cases data) (simp_all add: data_remove_def Let_def)
qed

end
