(* ===== verification/Format.thy ===== *)
theory Format
  imports Bytes
begin

text \<open>
  The part of the C library's formatting and parsing that the program uses: the conversions
  \<open>%d\<close>, \<open>%ld\<close>, \<open>%03ld\<close> and \<open>%02X\<close>, the truncation of \<open>snprintf\<close>, \<open>atoi\<close> as glibc has it, and
  \<open>strcasecmp\<close> in the C locale.
\<close>

section \<open>Printing\<close>

definition digit :: "nat \<Rightarrow> byte" where
  "digit n = 48 + word_of_nat n"

fun show_nat :: "nat \<Rightarrow> ctext" where
  "show_nat n = (if n < 10 then [digit n] else show_nat (n div 10) @ [digit (n mod 10)])"

declare show_nat.simps [simp del]

definition show_int :: "int \<Rightarrow> ctext" where
  "show_int i = (if i < 0 then bs ''-'' @ show_nat (nat (- i)) else show_nat (nat i))"

text \<open>\<open>%03ld\<close> of a number that is not negative.\<close>

definition show_pad3 :: "nat \<Rightarrow> ctext" where
  "show_pad3 n = (let s = show_nat n in replicate (3 - length s) 48 @ s)"

definition nibble :: "nat \<Rightarrow> byte" where
  "nibble n = (if n < 10 then 48 + word_of_nat n else 55 + word_of_nat n)"

fun show_hex :: "nat \<Rightarrow> ctext" where
  "show_hex n = (if n < 16 then [nibble n] else show_hex (n div 16) @ [nibble (n mod 16)])"

declare show_hex.simps [simp del]

text \<open>
  \<open>sprintf (p, "%02X", (signed char) c)\<close>: the argument is promoted to \<open>int\<close> with its sign and the
  conversion reads the \<open>int\<close> as unsigned.
\<close>

definition hex02 :: "byte \<Rightarrow> ctext" where
  "hex02 b = (let s = show_hex (unat (scast b :: i32)) in replicate (2 - length s) 48 @ s)"

text \<open>\<open>snprintf (buf, n, ...)\<close> keeps at most \<open>n - 1\<close> bytes of the text.\<close>

definition snprintf :: "nat \<Rightarrow> ctext \<Rightarrow> ctext" where
  "snprintf n s = take (n - 1) s"

lemma snprintf_fits: "length s < n \<Longrightarrow> snprintf n s = s"
  by (simp add: snprintf_def)

section \<open>Parsing\<close>

definition is_digit :: "byte \<Rightarrow> bool" where
  "is_digit b \<longleftrightarrow> 48 \<le> b \<and> b \<le> 57"

definition is_space :: "byte \<Rightarrow> bool" where
  "is_space b \<longleftrightarrow> b = 32 \<or> 9 \<le> b \<and> b \<le> 13"

definition digits_value :: "ctext \<Rightarrow> nat" where
  "digits_value s = foldl (\<lambda>acc b. 10 * acc + (unat b - 48)) 0 (takeWhile is_digit s)"

text \<open>\<open>strtol\<close> in base 10: the value saturates at the bounds of \<open>long\<close>.\<close>

definition strtol :: "ctext \<Rightarrow> int" where
  "strtol s =
     (let t = dropWhile is_space s;
          v = (case t of
                 [] \<Rightarrow> 0
               | c # u \<Rightarrow> if c = 45 then - int (digits_value u)
                         else if c = 43 then int (digits_value u) else int (digits_value t))
      in max (- (2 ^ 63)) (min (2 ^ 63 - 1) v))"

definition atoi :: "ctext \<Rightarrow> i32" where
  "atoi s = word_of_int (strtol s)"

definition to_lower :: "byte \<Rightarrow> byte" where
  "to_lower b = (if 65 \<le> b \<and> b \<le> 90 then b + 32 else b)"

definition strcasecmp_eq :: "ctext \<Rightarrow> ctext \<Rightarrow> bool" where
  "strcasecmp_eq s t \<longleftrightarrow> map to_lower s = map to_lower t"

section \<open>Facts\<close>

lemma digit_range: "n < 10 \<Longrightarrow> is_digit (digit n) \<and> unat (digit n) = 48 + n"
proof -
  assume "n < 10"
  then have "unat (digit n) = 48 + n"
    by (simp add: digit_def unat_word_ariths unat_of_nat)
  with \<open>n < 10\<close> show ?thesis by (simp add: is_digit_def word_le_nat_alt)
qed

lemma show_nat_digits: "b \<in> set (show_nat n) \<Longrightarrow> is_digit b"
proof (induction n rule: show_nat.induct)
  case (1 n)
  then show ?case
    by (subst (asm) (2) show_nat.simps) (auto split: if_splits simp: digit_range)
qed

lemma show_nat_nonempty: "show_nat n \<noteq> []"
  by (subst show_nat.simps) simp

lemma digits_value_append:
  "\<forall>b \<in> set s. is_digit b \<Longrightarrow> is_digit b \<Longrightarrow> digits_value (s @ [b]) = 10 * digits_value s + (unat b - 48)"
  by (simp add: digits_value_def takeWhile_eq_all_conv [THEN iffD2] takeWhile_append2)

lemma digits_value_stop:
  "\<forall>b \<in> set s. is_digit b \<Longrightarrow> rest = [] \<or> \<not> is_digit (hd rest) \<Longrightarrow>
    digits_value (s @ rest) = digits_value s"
  by (cases rest) (simp_all add: digits_value_def takeWhile_append2 takeWhile_eq_all_conv [THEN iffD2]
      takeWhile_append1 takeWhile_tail)

lemma digits_value_show_nat: "digits_value (show_nat n) = n"
proof (induction n rule: show_nat.induct)
  case (1 n)
  show ?case
  proof (cases "n < 10")
    case True
    then show ?thesis
      by (subst show_nat.simps) (simp add: digits_value_def digit_range)
  next
    case False
    with "1.IH" have IH: "digits_value (show_nat (n div 10)) = n div 10" by simp
    have "digits_value (show_nat (n div 10) @ [digit (n mod 10)])
        = 10 * digits_value (show_nat (n div 10)) + (unat (digit (n mod 10)) - 48)"
      by (rule digits_value_append) (auto simp: show_nat_digits digit_range)
    with IH False show ?thesis
      by (subst show_nat.simps) (simp add: digit_range)
  qed
qed

lemma show_nat_length_less: "0 < k \<Longrightarrow> length (show_nat n) \<le> k \<longleftrightarrow> n < 10 ^ k"
proof (induction n arbitrary: k rule: show_nat.induct)
  case (1 n)
  show ?case
  proof (cases "n < 10")
    case True
    have "(10::nat) ^ 1 \<le> 10 ^ k" using "1.prems" by (intro power_increasing) auto
    with True "1.prems" show ?thesis by (subst show_nat.simps) simp
  next
    case False
    show ?thesis
    proof (cases "k = 1")
      case True
      with False show ?thesis
        by (subst show_nat.simps) (simp add: show_nat_nonempty)
    next
      case k: False
      with "1.prems" obtain j where j: "k = Suc j" "0 < j" by (cases k) auto
      have "length (show_nat (n div 10)) \<le> j \<longleftrightarrow> n div 10 < 10 ^ j"
        using "1.IH" [OF False j(2)] .
      also have "\<dots> \<longleftrightarrow> n < 10 ^ k" using j by (simp add: less_mult_imp_div_less div_less_iff_less_mult mult.commute)
      finally show ?thesis using False j by (subst show_nat.simps) simp
    qed
  qed
qed

lemma is_digit_not_space: "is_digit b \<Longrightarrow> \<not> is_space b"
  by (auto simp: is_digit_def is_space_def word_le_nat_alt)

lemma is_digit_not_sign: "is_digit b \<Longrightarrow> b \<noteq> 45 \<and> b \<noteq> 43 \<and> b \<noteq> 0"
  by (auto simp: is_digit_def)

lemma strtol_show_int:
  assumes "- (2 ^ 63) \<le> i" "i < 2 ^ 63" "rest = [] \<or> \<not> is_digit (hd rest)"
  shows "strtol (show_int i @ rest) = i"
proof (cases "i < 0")
  case True
  have "digits_value (show_nat (nat (- i)) @ rest) = nat (- i)"
    using digits_value_stop [OF _ assms(3)] show_nat_digits digits_value_show_nat by metis
  with True assms(1,2) show ?thesis by (simp add: strtol_def show_int_def is_space_def bs_def)
next
  case False
  obtain c s where cs: "show_nat (nat i) = c # s"
    using show_nat_nonempty by (meson neq_Nil_conv)
  then have c: "is_digit c" using show_nat_digits by (metis list.set_intros(1))
  have "digits_value (c # s @ rest) = nat i"
    using digits_value_stop [OF _ assms(3)] show_nat_digits digits_value_show_nat
    by (metis append_Cons cs)
  with False assms(1,2) c show ?thesis
    by (simp add: strtol_def show_int_def cs is_digit_not_space is_digit_not_sign)
qed

lemma show_hex_step: "0 < q \<Longrightarrow> r < 16 \<Longrightarrow> show_hex (16 * q + r) = show_hex q @ [nibble r]"
  by (subst show_hex.simps) simp

lemma unat_byte_less: "unat (b :: byte) < 256"
proof -
  have "unat b < 2 ^ LENGTH(8)" by (rule unsigned_less)
  then show ?thesis by simp
qed

lemma uint_byte: "0 \<le> uint (b :: byte)" "uint b < 256" "uint b < 128 \<longleftrightarrow> unat b < 128"
proof -
  show "0 \<le> uint b" by simp
  have "uint b < 2 ^ LENGTH(8)" by (rule unsigned_less)
  then show "uint b < 256" by simp
  show "uint b < 128 \<longleftrightarrow> unat b < 128"
    using nat_less_iff [of "uint b" 128] by simp
qed

lemma shift_mod_256:
  "0 \<le> u \<Longrightarrow> u < 256 \<Longrightarrow> (u + 128) mod 256 = (if u < 128 then u + 128 else u - 128 :: int)"
  using mod_pos_pos_trivial [of "u + 128" 256] mod_pos_pos_trivial [of "u - 128" 256]
    mod_add_self2 [of "u - 128" 256] by (cases "u < 128") (simp_all add: add.commute)

lemma wrap_mod_32:
  "0 \<le> u \<Longrightarrow> u < 256 \<Longrightarrow> (u - 256) mod 4294967296 = (u + 4294967040 :: int)"
  using mod_pos_pos_trivial [of "u + 4294967040" 4294967296] mod_add_self2 [of "u - 256" 4294967296]
  by simp

lemma sint_byte: "sint (b :: byte) = (if unat b < 128 then uint b else uint b - 256)"
proof -
  have "sint b = (uint b + 128) mod 256 - 128"
    by (simp add: sint_uint signed_take_bit_eq_take_bit_shift take_bit_eq_mod)
  then show ?thesis using shift_mod_256 uint_byte [of b] by simp
qed

lemma unat_scast_byte: "unat (scast (b :: byte) :: i32) =
    (if unat b < 128 then unat b else 16 ^ 2 * 0xFFFFFF + unat b)"
proof -
  have "uint (scast b :: i32) = sint b mod 2 ^ LENGTH(32)"
    by (simp only: scast_eq uint_word_of_int)
  then have s: "uint (scast b :: i32) = sint b mod 4294967296" by simp
  have "uint (scast b :: i32) = (if unat b < 128 then uint b else uint b + 4294967040)"
    using wrap_mod_32 [OF uint_byte(1,2) [of b]] uint_byte [of b]
    by (simp add: s sint_byte mod_pos_pos_trivial)
  then have "nat (uint (scast b :: i32)) = (if unat b < 128 then nat (uint b) else nat (uint b) + 4294967040)"
    using uint_byte(1) [of b] by (simp add: nat_add_distrib)
  then show ?thesis by simp
qed

lemma hex02_low: "unat b < 128 \<Longrightarrow> hex02 b = [nibble (unat b div 16), nibble (unat b mod 16)]"
proof -
  assume b: "unat b < 128"
  then have "unat b div 16 < 16" "unat b mod 16 < 16" by simp_all
  then have "show_hex (unat b) = (if unat b < 16 then [nibble (unat b)]
      else [nibble (unat b div 16), nibble (unat b mod 16)])"
    by (simp add: show_hex.simps [of "unat b"] show_hex.simps [of "unat b div 16"])
  with b show ?thesis by (auto simp: hex02_def unat_scast_byte nibble_def Let_def)
qed

lemma hex02_high: "\<not> unat b < 128 \<Longrightarrow> hex02 b =
    bs ''FFFFFF'' @ [nibble (unat b div 16), nibble (unat b mod 16)]"
proof -
  assume b: "\<not> unat b < 128"
  have "show_hex (16 ^ 2 * 0xFFFFFF + unat b) = show_hex (16 * (16 * 0xFFFFFF + unat b div 16) + unat b mod 16)"
    by (rule arg_cong [of _ _ show_hex]) simp
  also have "\<dots> = show_hex (16 * 0xFFFFFF + unat b div 16) @ [nibble (unat b mod 16)]"
    by (rule show_hex_step) simp_all
  also have "show_hex (16 * 0xFFFFFF + unat b div 16) = show_hex 0xFFFFFF @ [nibble (unat b div 16)]"
    using unat_byte_less [of b] by (intro show_hex_step) simp_all
  also have "show_hex 0xFFFFFF = bs ''FFFFFF''"
    by (simp add: show_hex.simps nibble_def bs_def)
  finally show ?thesis using b by (simp add: hex02_def unat_scast_byte)
qed

lemma atoi_show:
  assumes "rest = [] \<or> \<not> is_digit (hd rest)"
  shows "atoi (show_int (sint i) @ rest) = i"
proof -
  have "- (2 ^ 31) \<le> sint i" "sint i < 2 ^ 31"
    using sint_greater_eq [of i] sint_less [of i] by simp_all
  then have "strtol (show_int (sint i) @ rest) = sint i"
    using assms by (intro strtol_show_int) simp_all
  then show ?thesis by (simp add: atoi_def)
qed

lemma show_int_chars: "b \<in> set (show_int i) \<Longrightarrow> is_digit b \<or> b = 45"
  by (auto simp: show_int_def show_nat_digits split: if_splits)

lemma show_int_nonempty: "show_int i \<noteq> []"
  by (simp add: show_int_def show_nat_nonempty)

lemma length_show_int: "length (show_int (sint (i :: i32))) \<le> 11"
proof -
  have b: "- (2 ^ 31) \<le> sint i" "sint i < 2 ^ 31"
    using sint_greater_eq [of i] sint_less [of i] by simp_all
  then have "nat (- sint i) < 10 ^ 10" "nat (sint i) < 10 ^ 10" by simp_all
  then have "length (show_nat (nat (- sint i))) \<le> 10" "length (show_nat (nat (sint i))) \<le> 10"
    using show_nat_length_less [of 10] by auto
  then show ?thesis by (simp add: show_int_def)
qed

text \<open>
  A number printed with \<open>%d\<close> is read back by \<open>atoi\<close>, as the configuration parser does: for
  every \<open>int\<close>, with anything that does not continue the number behind it.
\<close>

theorem atoi_show_int:
  assumes "rest = [] \<or> \<not> is_digit (hd rest)"
  shows "atoi (show_int (sint i) @ rest) = i"
  by (rule atoi_show [OF assms])

theorem atoi_show_int_witness: "atoi (show_int (sint (- 5432 :: i32)) @ bs '' ;'') = - 5432"
  by (rule atoi_show_int) (simp add: is_digit_def bs_def)

end
