(* ===== verification/Config.thy ===== *)
theory Config
  imports Format
begin

text \<open>
  The shared memory segment's configuration (\<open>src/src/include/pgprtdbg.h\<close>) and its initialisation,
  parser and validation (\<open>src/src/libpgprtdbg/configuration.c\<close>, \<open>shmem.c\<close>). The fields of the C
  structures carry the prefixes \<open>srv_\<close> and \<open>cfg_\<close>. A \<open>char x[MISC_LENGTH]\<close> field is a list of
  128 bytes, read as the C string at its start. A \<open>FILE*\<close> that has been opened is the text written
  to it so far, \<open>NULL\<close> is \<open>None\<close>.
\<close>

section \<open>Data\<close>

definition MISC_LENGTH :: nat where "MISC_LENGTH = 128"
definition MAX_BUFFER_SIZE :: i32 where "MAX_BUFFER_SIZE = 65535"
definition DEFAULT_BUFFER_SIZE :: i32 where "DEFAULT_BUFFER_SIZE = 65535"
definition MAX_NUMBER_OF_CONNECTIONS :: nat where "MAX_NUMBER_OF_CONNECTIONS = 1000"
definition STATE_FREE :: byte where "STATE_FREE = 0"
definition STATE_IN_USE :: byte where "STATE_IN_USE = 1"
definition LOGGING_TYPE_CONSOLE :: i32 where "LOGGING_TYPE_CONSOLE = 0"
definition LOGGING_TYPE_FILE :: i32 where "LOGGING_TYPE_FILE = 1"

record server =
  srv_name :: "byte list"
  srv_host :: "byte list"
  srv_port :: i32

record configuration =
  cfg_host :: "byte list"
  cfg_port :: i32
  cfg_output :: "byte list"
  cfg_file :: "ctext option"
  cfg_lock :: nat
  cfg_statistics_output :: "byte list"
  cfg_output_sockets :: bool
  cfg_save_traffic :: bool
  cfg_unix_socket_dir :: "byte list"
  cfg_log_type :: i32
  cfg_log_path :: "byte list"
  cfg_log_lock :: byte
  cfg_libev :: "byte list"
  cfg_buffer_size :: i32
  cfg_keep_alive :: bool
  cfg_nodelay :: bool
  cfg_backlog :: i32
  cfg_active_connections :: "16 word"
  cfg_pids :: "i32 list"
  cfg_server :: server

definition zero_text :: "byte list" where
  "zero_text = replicate MISC_LENGTH 0"

definition zero_server :: server where
  "zero_server = \<lparr>srv_name = zero_text, srv_host = zero_text, srv_port = 0\<rparr>"

text \<open>The segment as \<open>pgprtdbg_create_shared_memory\<close> leaves it: all bytes zero.\<close>

definition zero_configuration :: configuration where
  "zero_configuration = \<lparr>cfg_host = zero_text, cfg_port = 0, cfg_output = zero_text,
     cfg_file = None, cfg_lock = 0, cfg_statistics_output = zero_text, cfg_output_sockets = False,
     cfg_save_traffic = False, cfg_unix_socket_dir = zero_text, cfg_log_type = 0,
     cfg_log_path = zero_text, cfg_log_lock = 0, cfg_libev = zero_text, cfg_buffer_size = 0,
     cfg_keep_alive = False, cfg_nodelay = False, cfg_backlog = 0, cfg_active_connections = 0,
     cfg_pids = replicate MAX_NUMBER_OF_CONNECTIONS 0, cfg_server = zero_server\<rparr>"

text \<open>\<open>sem_ok\<close> is whether \<open>sem_init\<close> succeeds; the first component is the return value.\<close>

definition init_configuration :: "bool \<Rightarrow> configuration \<Rightarrow> int \<times> configuration" where
  "init_configuration sem_ok config =
     (let config = config\<lparr>cfg_output_sockets := False, cfg_save_traffic := False,
            cfg_buffer_size := DEFAULT_BUFFER_SIZE, cfg_keep_alive := True, cfg_nodelay := False,
            cfg_backlog := - 1, cfg_log_type := LOGGING_TYPE_CONSOLE, cfg_log_lock := STATE_FREE\<rparr>
      in if \<not> sem_ok then (1, config)
         else (0, config\<lparr>cfg_lock := 1, cfg_file := None,
                cfg_statistics_output := (cfg_statistics_output config)[0 := 0],
                cfg_active_connections := 0\<rparr>))"

section \<open>Values\<close>

definition as_int :: "ctext \<Rightarrow> i32" where
  "as_int str = atoi str"

definition as_bool :: "ctext \<Rightarrow> bool" where
  "as_bool str =
     (if strcasecmp_eq str (bs ''true'') then True
      else if strcasecmp_eq str (bs ''on'') then True
      else if strcasecmp_eq str (bs ''1'') then True
      else if strcasecmp_eq str (bs ''false'') then False
      else if strcasecmp_eq str (bs ''off'') then False
      else if strcasecmp_eq str (bs ''0'') then False
      else False)"

definition as_logging_type :: "ctext \<Rightarrow> i32" where
  "as_logging_type str =
     (if strcasecmp_eq str (bs ''console'') then LOGGING_TYPE_CONSOLE
      else if strcasecmp_eq str (bs ''file'') then LOGGING_TYPE_FILE
      else 0)"

text \<open>
  \<open>extract_key_value\<close> scans a line three times with one index \<open>c\<close>: to the end of the key, over the
  separators, to the end of the value. It stores the key when the first scan stopped before the end
  of the line and the value when the last one did. \<open>None\<close> is a pointer that was not stored.
\<close>

definition key_end :: "byte \<Rightarrow> bool" where
  "key_end b \<longleftrightarrow> b = of_char CHR '' '' \<or> b = of_char CHR ''=''"

definition separator :: "byte \<Rightarrow> bool" where
  "separator b \<longleftrightarrow> b = of_char CHR '' '' \<or> b = 9 \<or> b = of_char CHR ''=''"

definition value_end :: "byte \<Rightarrow> bool" where
  "value_end b \<longleftrightarrow> b = of_char CHR '' '' \<or> b = 13 \<or> b = newline"

definition extract_key_value :: "ctext \<Rightarrow> ctext option \<times> ctext option" where
  "extract_key_value str =
     (let k = takeWhile (\<lambda>b. \<not> key_end b) str; rest = dropWhile (\<lambda>b. \<not> key_end b) str
      in if rest = [] then (None, None)
         else let rest2 = dropWhile separator rest;
                  v = takeWhile (\<lambda>b. \<not> value_end b) rest2;
                  rest3 = dropWhile (\<lambda>b. \<not> value_end b) rest2
              in (Some k, if rest3 = [] then None else Some v))"

text \<open>
  \<open>memcpy (field, value, max)\<close> with \<open>max\<close> the length of the value, at most 127: the bytes behind the
  value stay as they were.
\<close>

definition store_text :: "byte list \<Rightarrow> ctext \<Rightarrow> byte list" where
  "store_text arr value =
     (let max = min (length value) (MISC_LENGTH - 1) in take max value @ drop max arr)"

section \<open>The parser\<close>

text \<open>The local variables of \<open>pgprtdbg_read_configuration\<close> and the lines it prints.\<close>

record reader =
  rd_section :: ctext
  rd_idx_server :: int
  rd_srv :: server
  rd_config :: configuration
  rd_printed :: "ctext list"

abbreviation in_main :: "reader \<Rightarrow> bool" where
  "in_main r \<equiv> rd_section r = bs ''pgprtdbg''"

text \<open>Each group of keys: the reader afterwards, and whether the key is unknown in this section.\<close>

definition set_host :: "ctext \<Rightarrow> reader \<Rightarrow> reader \<times> bool" where
  "set_host value r =
     (if in_main r then
        (r\<lparr>rd_config := (rd_config r)\<lparr>cfg_host := store_text (cfg_host (rd_config r)) value\<rparr>\<rparr>, False)
      else if rd_section r \<noteq> [] then
        (r\<lparr>rd_srv := (rd_srv r)\<lparr>srv_name := store_text (srv_name (rd_srv r)) (rd_section r),
                                srv_host := store_text (srv_host (rd_srv r)) value\<rparr>\<rparr>, False)
      else (r, True))"

definition set_port :: "ctext \<Rightarrow> reader \<Rightarrow> reader \<times> bool" where
  "set_port value r =
     (if in_main r then (r\<lparr>rd_config := (rd_config r)\<lparr>cfg_port := as_int value\<rparr>\<rparr>, False)
      else if rd_section r \<noteq> [] then
        (r\<lparr>rd_srv := (rd_srv r)\<lparr>srv_name := store_text (srv_name (rd_srv r)) (rd_section r),
                                srv_port := as_int value\<rparr>\<rparr>, False)
      else (r, True))"

definition in_main_only :: "(configuration \<Rightarrow> configuration) \<Rightarrow> reader \<Rightarrow> reader \<times> bool" where
  "in_main_only upd r =
     (if in_main r then (r\<lparr>rd_config := upd (rd_config r)\<rparr>, False) else (r, True))"

definition set_output_key :: "ctext \<Rightarrow> ctext \<Rightarrow> (configuration \<Rightarrow> configuration) option" where
  "set_output_key key value =
     (if key = bs ''output'' then
        Some (\<lambda>c. c\<lparr>cfg_output := store_text (cfg_output c) value\<rparr>)
      else if key = bs ''output_sockets'' then Some (\<lambda>c. c\<lparr>cfg_output_sockets := as_bool value\<rparr>)
      else if key = bs ''save_traffic'' then Some (\<lambda>c. c\<lparr>cfg_save_traffic := as_bool value\<rparr>)
      else if key = bs ''unix_socket_dir'' then
        Some (\<lambda>c. c\<lparr>cfg_unix_socket_dir := store_text (cfg_unix_socket_dir c) value\<rparr>)
      else None)"

definition set_log_key :: "ctext \<Rightarrow> ctext \<Rightarrow> (configuration \<Rightarrow> configuration) option" where
  "set_log_key key value =
     (if key = bs ''log_type'' then Some (\<lambda>c. c\<lparr>cfg_log_type := as_logging_type value\<rparr>)
      else if key = bs ''log_path'' then
        Some (\<lambda>c. c\<lparr>cfg_log_path := store_text (cfg_log_path c) value\<rparr>)
      else None)"

definition set_network_key :: "ctext \<Rightarrow> ctext \<Rightarrow> (configuration \<Rightarrow> configuration) option" where
  "set_network_key key value =
     (if key = bs ''libev'' then Some (\<lambda>c. c\<lparr>cfg_libev := store_text (cfg_libev c) value\<rparr>)
      else if key = bs ''buffer_size'' then
        Some (\<lambda>c. let n = as_int value
                  in c\<lparr>cfg_buffer_size := if MAX_BUFFER_SIZE <s n then MAX_BUFFER_SIZE else n\<rparr>)
      else if key = bs ''keep_alive'' then Some (\<lambda>c. c\<lparr>cfg_keep_alive := as_bool value\<rparr>)
      else if key = bs ''nodelay'' then Some (\<lambda>c. c\<lparr>cfg_nodelay := as_bool value\<rparr>)
      else if key = bs ''backlog'' then Some (\<lambda>c. c\<lparr>cfg_backlog := as_int value\<rparr>)
      else if key = bs ''statistics_output'' then
        Some (\<lambda>c. c\<lparr>cfg_statistics_output := store_text (cfg_statistics_output c) value\<rparr>)
      else None)"

text \<open>The chain of \<open>strcmp (key, ...)\<close>; a key that is in none of the groups is not reported.\<close>

definition set_key :: "ctext \<Rightarrow> ctext \<Rightarrow> reader \<Rightarrow> reader \<times> bool" where
  "set_key key value r =
     (if key = bs ''host'' then set_host value r
      else if key = bs ''port'' then set_port value r
      else case set_output_key key value of Some upd \<Rightarrow> in_main_only upd r
      | None \<Rightarrow> (case set_log_key key value of Some upd \<Rightarrow> in_main_only upd r
      | None \<Rightarrow> (case set_network_key key value of Some upd \<Rightarrow> in_main_only upd r
      | None \<Rightarrow> (r, False))))"

definition unknown_line :: "ctext \<Rightarrow> ctext \<Rightarrow> ctext \<Rightarrow> ctext" where
  "unknown_line section key value =
     bs ''Unknown: Section='' @ (if section \<noteq> [] then section else bs ''<unknown>'') @
     bs '', Key='' @ key @ bs '', Value='' @ value"

definition property_line :: "ctext \<Rightarrow> reader \<Rightarrow> reader" where
  "property_line line r =
     (case extract_key_value line of
        (Some key, Some value) \<Rightarrow>
          (case set_key key value r of (r', unknown) \<Rightarrow>
             if unknown
             then r'\<lparr>rd_printed := rd_printed r' @ [unknown_line (rd_section r') key value]\<rparr>
             else r')
      | _ \<Rightarrow> r)"

text \<open>A line that starts with \<open>[\<close>; \<open>Inl\<close> is the early \<open>return 1\<close>.\<close>

definition section_line :: "ctext \<Rightarrow> reader \<Rightarrow> reader + reader" where
  "section_line line r =
     (if of_char CHR '']'' \<in> set line then
        let section = take (MISC_LENGTH - 1) (tl (takeWhile (\<lambda>b. b \<noteq> of_char CHR '']'') line));
            r = r\<lparr>rd_section := section\<rparr>
        in if section \<noteq> bs ''pgprtdbg'' then
             let idx = rd_idx_server r + 1; r = r\<lparr>rd_idx_server := idx\<rparr>
             in if idx = 0 then
                  Inr (r\<lparr>rd_config := (rd_config r)\<lparr>cfg_server := rd_srv r\<rparr>,
                         rd_srv := zero_server\<lparr>srv_name := store_text zero_text section\<rparr>\<rparr>)
                else Inl (r\<lparr>rd_printed := rd_printed r @ [bs ''Maximum number of servers exceeded'']\<rparr>)
           else Inr r
      else Inr r)"

definition config_line :: "ctext \<Rightarrow> reader \<Rightarrow> reader + reader" where
  "config_line line r =
     (case line of
        [] \<Rightarrow> Inr r
      | b # _ \<Rightarrow>
          if b = of_char CHR ''['' then section_line line r
          else if b = of_char CHR ''#'' \<or> b = of_char CHR '';'' then Inr r
          else Inr (property_line line r))"

fun config_lines :: "ctext list \<Rightarrow> reader \<Rightarrow> reader + reader" where
  "config_lines [] r = Inr r"
| "config_lines (l # ls) r = (case config_line l r of Inl r' \<Rightarrow> Inl r' | Inr r' \<Rightarrow> config_lines ls r')"

text \<open>
  \<open>fgets (line, 256, file)\<close>: up to 255 bytes, through the first newline. The line as the string
  functions see it ends at a NUL byte of the file.
\<close>

definition LINE_LENGTH :: nat where "LINE_LENGTH = 256"

definition fgets_len :: "byte list \<Rightarrow> nat" where
  "fgets_len bytes = min (LINE_LENGTH - 1) (length (takeWhile (\<lambda>b. b \<noteq> newline) bytes) + 1)"

lemma fgets_len_pos: "0 < fgets_len bytes"
  by (simp add: fgets_len_def LINE_LENGTH_def)

function fgets_all :: "byte list \<Rightarrow> ctext list" where
  "fgets_all bytes =
     (if bytes = [] then []
      else cstr (take (fgets_len bytes) bytes) # fgets_all (drop (fgets_len bytes) bytes))"
  by pat_completeness auto
termination
  by (relation "measure length") (auto simp: fgets_len_pos)

declare fgets_all.simps [simp del]

text \<open>
  \<open>contents\<close> is the file, \<open>None\<close> when it cannot be opened. \<open>srv\<close> is what the uninitialised local
  variable of that name holds. The result is the return value, the configuration and what was
  printed.
\<close>

definition read_configuration ::
  "server \<Rightarrow> byte list option \<Rightarrow> configuration \<Rightarrow> int \<times> configuration \<times> ctext list" where
  "read_configuration srv contents config =
     (case contents of
        None \<Rightarrow> (1, config, [])
      | Some bytes \<Rightarrow>
          (case config_lines (fgets_all bytes) \<lparr>rd_section = [], rd_idx_server = - 1, rd_srv = srv,
                  rd_config = config, rd_printed = []\<rparr> of
             Inl r \<Rightarrow> (1, rd_config r, rd_printed r)
           | Inr r \<Rightarrow>
               (0, if rd_idx_server r \<noteq> - 1 \<and> cstr (srv_name (rd_srv r)) \<noteq> []
                   then (rd_config r)\<lparr>cfg_server := rd_srv r\<rparr> else rd_config r,
                rd_printed r)))"

section \<open>Validation\<close>

definition validate_configuration :: "configuration \<Rightarrow> int \<times> configuration \<times> ctext list" where
  "validate_configuration config =
     (if cstr (cfg_host config) = [] then (1, config, [bs ''pgprtdbg: No host defined''])
      else if cfg_port config = 0 then (1, config, [bs ''pgprtdbg: No port defined''])
      else if cstr (cfg_output config) = [] then (1, config, [bs ''pgprtdbg: No output defined''])
      else
        let config = (if cfg_backlog config \<le>s 0 then config\<lparr>cfg_backlog := 4\<rparr> else config);
            srv = cfg_server config
        in if cstr (srv_name srv) = [] then (1, config, [bs ''pgprtdbg: No server defined''])
           else if cstr (srv_host srv) = []
             then (1, config, [bs ''pgprtdbg: No host defined for '' @ cstr (srv_name srv)])
           else if srv_port srv = 0
             then (1, config, [bs ''pgprtdbg: No port defined for '' @ cstr (srv_name srv)])
           else (0, config, []))"

section \<open>What the parser keeps\<close>

text \<open>
  Every text field stays 128 bytes long with a NUL in its last byte, so that \<open>strlen\<close> on it stays
  inside it, and the buffer size never exceeds the maximum.
\<close>

definition text_ok :: "byte list \<Rightarrow> bool" where
  "text_ok arr \<longleftrightarrow> length arr = MISC_LENGTH \<and> arr ! (MISC_LENGTH - 1) = 0"

definition config_ok :: "configuration \<Rightarrow> bool" where
  "config_ok c \<longleftrightarrow> text_ok (cfg_host c) \<and> text_ok (cfg_output c) \<and>
     text_ok (cfg_statistics_output c) \<and> text_ok (cfg_unix_socket_dir c) \<and>
     text_ok (cfg_log_path c) \<and> text_ok (cfg_libev c) \<and>
     cfg_buffer_size c \<le>s MAX_BUFFER_SIZE \<and>
     (cfg_log_type c = LOGGING_TYPE_CONSOLE \<or> cfg_log_type c = LOGGING_TYPE_FILE) \<and>
     length (cfg_pids c) = MAX_NUMBER_OF_CONNECTIONS"

lemma store_text_ok [simp]: "text_ok arr \<Longrightarrow> text_ok (store_text arr value)"
  by (simp add: text_ok_def store_text_def Let_def MISC_LENGTH_def nth_append)

lemma zero_text_ok [simp]: "text_ok zero_text"
  by (simp add: text_ok_def zero_text_def MISC_LENGTH_def)

text \<open>\<open>store_text\<close> is a \<open>memcpy\<close> that stays inside the field.\<close>

lemma store_text_put:
  "text_ok arr \<Longrightarrow> put arr 0 (take (MISC_LENGTH - 1) value) = Some (store_text arr value)"
  by (cases "length value \<le> 127")
    (simp_all add: put_def text_ok_def store_text_def Let_def MISC_LENGTH_def)

lemma text_ok_has_nul: "text_ok arr \<Longrightarrow> 0 \<in> set arr"
  by (metis MISC_LENGTH_def nth_mem text_ok_def diff_less zero_less_numeral zero_less_one)

lemma as_logging_type_range:
  "as_logging_type v = LOGGING_TYPE_CONSOLE \<or> as_logging_type v = LOGGING_TYPE_FILE"
  by (simp add: as_logging_type_def LOGGING_TYPE_CONSOLE_def)

lemma buffer_size_capped:
  "(if MAX_BUFFER_SIZE <s n then MAX_BUFFER_SIZE else n) \<le>s MAX_BUFFER_SIZE"
  by (auto simp: word_sle_eq word_sless_alt)

lemma set_output_key_ok: "set_output_key key val = Some upd \<Longrightarrow> config_ok c \<Longrightarrow> config_ok (upd c)"
  by (auto simp: set_output_key_def config_ok_def split: if_split_asm)

lemma set_log_key_ok: "set_log_key key val = Some upd \<Longrightarrow> config_ok c \<Longrightarrow> config_ok (upd c)"
  using as_logging_type_range [of val]
  by (auto simp: set_log_key_def config_ok_def split: if_split_asm)

lemma config_ok_buffer_size:
  "config_ok c \<Longrightarrow> n \<le>s MAX_BUFFER_SIZE \<Longrightarrow> config_ok (c\<lparr>cfg_buffer_size := n\<rparr>)"
  by (simp add: config_ok_def)

lemma config_ok_network:
  assumes "config_ok c"
  shows "config_ok (c\<lparr>cfg_libev := store_text (cfg_libev c) val\<rparr>)"
    "config_ok (c\<lparr>cfg_keep_alive := b\<rparr>)" "config_ok (c\<lparr>cfg_nodelay := b\<rparr>)"
    "config_ok (c\<lparr>cfg_backlog := i\<rparr>)"
    "config_ok (c\<lparr>cfg_statistics_output := store_text (cfg_statistics_output c) val\<rparr>)"
  using assms by (simp_all add: config_ok_def)

lemma set_network_key_ok: "set_network_key key val = Some upd \<Longrightarrow> config_ok c \<Longrightarrow> config_ok (upd c)"
  by (auto simp: set_network_key_def Let_def buffer_size_capped
      intro!: config_ok_network config_ok_buffer_size simp del: if_split split: if_split_asm)

lemmas config_ok_updates = set_output_key_ok set_log_key_ok set_network_key_ok

lemma set_key_ok:
  "set_key key value r = (r', u) \<Longrightarrow> config_ok (rd_config r) \<Longrightarrow> config_ok (rd_config r')"
  by (auto simp: set_key_def set_host_def set_port_def in_main_only_def
      intro: config_ok_updates split: if_splits option.splits)
    (auto simp: config_ok_def)

lemma config_line_ok:
  assumes "config_ok (rd_config r)"
  shows "case config_line line r of Inl r' \<Rightarrow> config_ok (rd_config r') | Inr r' \<Rightarrow> config_ok (rd_config r')"
proof -
  have server: "config_ok ((rd_config r)\<lparr>cfg_server := sv\<rparr>)" for sv
    using assms by (simp add: config_ok_def)
  have "config_ok (rd_config (property_line line r))"
    using assms by (auto simp: property_line_def dest: set_key_ok split: prod.splits option.splits)
  with assms server show ?thesis
    by (auto simp: config_line_def section_line_def Let_def split: list.splits)
qed

lemma config_lines_ok:
  "config_ok (rd_config r) \<Longrightarrow>
    case config_lines ls r of Inl r' \<Rightarrow> config_ok (rd_config r') | Inr r' \<Rightarrow> config_ok (rd_config r')"
proof (induction ls r rule: config_lines.induct)
  case (2 l ls r)
  with config_line_ok [of r l] show ?case by (auto split: sum.splits)
qed simp

text \<open>
  Whatever the configuration file holds, reading it leaves every text field NUL-terminated
  inside its 128 bytes, the buffer size at most 65535 and the logging type one of the two known
  ones.
\<close>

theorem read_configuration_keeps_ok:
  assumes "config_ok config" "read_configuration srv contents config = (ret, config', out)"
  shows "config_ok config'"
proof (cases contents)
  case None
  with assms show ?thesis by (simp add: read_configuration_def)
next
  case (Some bytes)
  have server: "config_ok c \<Longrightarrow> config_ok (c\<lparr>cfg_server := sv\<rparr>)" for c sv
    by (simp add: config_ok_def)
  from config_lines_ok [of "\<lparr>rd_section = [], rd_idx_server = - 1, rd_srv = srv,
    rd_config = config, rd_printed = []\<rparr>" "fgets_all bytes"] assms Some server
  show ?thesis by (auto simp: read_configuration_def split: sum.splits if_splits)
qed

text \<open>The start of the program satisfies the invariant.\<close>

lemma init_configuration_ok: "config_ok (snd (init_configuration sem_ok zero_configuration))"
  by (simp add: init_configuration_def zero_configuration_def config_ok_def Let_def
      text_ok_def zero_text_def MISC_LENGTH_def DEFAULT_BUFFER_SIZE_def MAX_BUFFER_SIZE_def)

theorem read_configuration_keeps_ok_witness:
  "\<exists>ret config' out. read_configuration zero_server
     (Some (bs ''[pgprtdbg]'' @ [newline] @ bs ''buffer_size = 70000'' @ [newline]))
     (snd (init_configuration True zero_configuration)) = (ret, config', out) \<and> config_ok config'"
proof -
  obtain ret config' out where "read_configuration zero_server
     (Some (bs ''[pgprtdbg]'' @ [newline] @ bs ''buffer_size = 70000'' @ [newline]))
     (snd (init_configuration True zero_configuration)) = (ret, config', out)"
    by (rule prod_cases3)
  with read_configuration_keeps_ok [OF init_configuration_ok this] show ?thesis by blast
qed

section \<open>What the parser reads\<close>

text \<open>A field after a store: the value, and then what was behind it in the field before.\<close>

lemma cstr_store_text:
  assumes "nul_free v" "length v < MISC_LENGTH"
  shows "cstr (store_text arr v) = v @ cstr (drop (length v) arr)"
proof -
  have "store_text arr v = v @ drop (length v) arr"
    using assms(2) by (simp add: store_text_def MISC_LENGTH_def)
  moreover have "cstr (v @ xs) = v @ cstr xs" for xs
    using assms(1) unfolding cstr_def nul_free_def by (auto intro: takeWhile_append2)
  ultimately show ?thesis by simp
qed

lemma cstr_zeros [simp]: "cstr (replicate n 0) = []" "cstr (drop k zero_text) = []" "cstr zero_text = []"
  by (cases n; simp add: zero_text_def cstr_def takeWhile_eq_Nil_iff)
    (simp_all add: zero_text_def cstr_def takeWhile_eq_Nil_iff)

lemma extract_line:
  assumes "\<forall>b \<in> set key. \<not> key_end b" "\<forall>b \<in> set v. \<not> value_end b" "v \<noteq> [] \<Longrightarrow> \<not> separator (hd v)"
  shows "extract_key_value (key @ bs '' = '' @ v @ [newline]) = (Some key, Some v)"
proof -
  have k: "takeWhile (\<lambda>b. \<not> key_end b) (key @ bs '' = '' @ v @ [newline]) = key"
      "dropWhile (\<lambda>b. \<not> key_end b) (key @ bs '' = '' @ v @ [newline]) = bs '' = '' @ v @ [newline]"
    using assms(1) by (simp_all add: bs_def key_end_def takeWhile_append2 dropWhile_append2)
  have sep: "dropWhile separator (bs '' = '' @ v @ [newline]) = v @ [newline]"
    using assms(3) by (cases v) (simp_all add: bs_def separator_def)
  have v: "takeWhile (\<lambda>b. \<not> value_end b) (v @ [newline]) = v"
      "dropWhile (\<lambda>b. \<not> value_end b) (v @ [newline]) = [newline]"
    using assms(2) by (simp_all add: value_end_def takeWhile_append2 dropWhile_append2)
  show ?thesis by (simp only: extract_key_value_def Let_def k sep v) simp
qed

text \<open>Values that a line can carry: no white space, no NUL, no separator in front.\<close>

definition plain_value :: "ctext \<Rightarrow> bool" where
  "plain_value v \<longleftrightarrow> v \<noteq> [] \<and> length v < MISC_LENGTH \<and> nul_free v \<and>
     (\<forall>b \<in> set v. \<not> value_end b) \<and> \<not> separator (hd v)"

text \<open>Names that a section header can carry.\<close>

definition plain_section :: "ctext \<Rightarrow> bool" where
  "plain_section s \<longleftrightarrow> s \<noteq> [] \<and> length s < MISC_LENGTH \<and> nul_free s \<and> newline \<notin> set s \<and>
     of_char CHR '']'' \<notin> set s \<and> s \<noteq> bs ''pgprtdbg''"

definition setting :: "string \<Rightarrow> ctext \<Rightarrow> ctext" where
  "setting key v = bs key @ bs '' = '' @ v @ [newline]"

definition header :: "ctext \<Rightarrow> ctext" where
  "header s = bs ''['' @ s @ bs '']'' @ [newline]"

lemma fgets_all_lines:
  "\<forall>l \<in> set ls. newline \<notin> set l \<and> 0 \<notin> set l \<and> length l < LINE_LENGTH - 1 \<Longrightarrow>
    fgets_all (concat (map (\<lambda>l. l @ [newline]) ls)) = map (\<lambda>l. l @ [newline]) ls"
proof (induction ls)
  case (Cons l ls)
  let ?rest = "concat (map (\<lambda>l. l @ [newline]) ls)"
  have "takeWhile (\<lambda>b. b \<noteq> newline) (l @ newline # ?rest) = l"
    using Cons.prems by (subst takeWhile_append2) auto
  then have len: "fgets_len (l @ newline # ?rest) = length l + 1"
    using Cons.prems by (simp add: fgets_len_def)
  have "cstr (l @ [newline]) = l @ [newline]"
    using Cons.prems by (simp add: cstr_id)
  with Cons len show ?case by (simp add: fgets_all.simps [of "l @ newline # ?rest"])
qed (simp add: fgets_all.simps)

text \<open>
  Evaluation of the keys: the key strings are literals, so the simplifier runs the chain of
  comparisons.
\<close>

lemmas set_key_defs = set_key_def set_host_def set_port_def set_output_key_def set_log_key_def
  set_network_key_def in_main_only_def

lemma property_setting:
  assumes "plain_value v" "\<forall>c \<in> set key. c \<noteq> CHR '' '' \<and> c \<noteq> CHR ''=''"
  shows "property_line (setting key v) r =
    (case set_key (bs key) v r of (r', unknown) \<Rightarrow>
       if unknown then r'\<lparr>rd_printed := rd_printed r' @ [unknown_line (rd_section r') (bs key) v]\<rparr>
       else r')"
proof -
  have "extract_key_value (setting key v) = (Some (bs key), Some v)"
    unfolding setting_def
  proof (rule extract_line)
    show "\<forall>b \<in> set (bs key). \<not> key_end b"
      using assms(2) by (auto simp: key_end_def simp del: of_char_Char)
    show "\<forall>b \<in> set v. \<not> value_end b" "\<not> separator (hd v)"
      using assms(1) by (simp_all add: plain_value_def)
  qed
  then show ?thesis by (simp add: property_line_def)
qed

lemma config_setting:
  assumes "plain_value v" "\<forall>c \<in> set key. c \<noteq> CHR '' '' \<and> c \<noteq> CHR ''=''"
    "key \<noteq> []" "hd key \<noteq> CHR ''[''" "hd key \<noteq> CHR ''#''" "hd key \<noteq> CHR '';''"
  shows "config_line (setting key v) r = Inr (case set_key (bs key) v r of (r', unknown) \<Rightarrow>
       if unknown then r'\<lparr>rd_printed := rd_printed r' @ [unknown_line (rd_section r') (bs key) v]\<rparr>
       else r')"
proof -
  obtain c k where "key = c # k" using assms(3) by (cases key) auto
  with assms(4-) have "config_line (setting key v) r = Inr (property_line (setting key v) r)"
    by (simp add: config_line_def setting_def bs_def del: of_char_Char)
  then show ?thesis by (simp only: property_setting [OF assms(1,2)])
qed

lemma config_header_main: "config_line (header (bs ''pgprtdbg'')) r = Inr (r\<lparr>rd_section := bs ''pgprtdbg''\<rparr>)"
  by (simp add: config_line_def section_line_def header_def MISC_LENGTH_def bs_def)

lemma config_header_server:
  assumes "plain_section s"
  shows "config_line (header s) r =
    (let r1 = r\<lparr>rd_section := s, rd_idx_server := rd_idx_server r + 1\<rparr>
     in if rd_idx_server r + 1 = 0
        then Inr (r1\<lparr>rd_config := (rd_config r)\<lparr>cfg_server := rd_srv r\<rparr>,
                     rd_srv := zero_server\<lparr>srv_name := store_text zero_text s\<rparr>\<rparr>)
        else Inl (r1\<lparr>rd_printed := rd_printed r @ [bs ''Maximum number of servers exceeded'']\<rparr>))"
proof -
  have "takeWhile (\<lambda>b. b \<noteq> of_char CHR '']'') (header s) = bs ''['' @ s"
    using assms unfolding header_def plain_section_def
    by (subst append_assoc [symmetric], subst takeWhile_append2) (auto simp: bs_def)
  then have "take (MISC_LENGTH - 1) (tl (takeWhile (\<lambda>b. b \<noteq> of_char CHR '']'') (header s))) = s"
    using assms by (simp add: plain_section_def MISC_LENGTH_def bs_def)
  moreover have "of_char CHR '']'' \<in> set (header s)" by (simp add: header_def)
  moreover have "config_line (header s) r = section_line (header s) r"
    by (simp add: config_line_def header_def bs_def)
  ultimately show ?thesis using assms by (simp add: section_line_def plain_section_def Let_def)
qed

text \<open>A configuration file as the documentation describes it: the main section and one server.\<close>

definition render_config :: "ctext \<Rightarrow> i32 \<Rightarrow> ctext \<Rightarrow> ctext \<Rightarrow> ctext \<Rightarrow> i32 \<Rightarrow> byte list" where
  "render_config host_v port_v output_v name_v srv_host_v srv_port_v =
     header (bs ''pgprtdbg'') @ setting ''host'' host_v @ setting ''port'' (show_int (sint port_v)) @
     setting ''output'' output_v @ header name_v @ setting ''host'' srv_host_v @
     setting ''port'' (show_int (sint srv_port_v))"

lemma plain_value_show_int: "plain_value (show_int (sint (i :: i32)))"
proof -
  have chars: "is_digit b \<or> b = 45" if "b \<in> set (show_int (sint i))" for b
    using that by (rule show_int_chars)
  then have "\<forall>b \<in> set (show_int (sint i)). \<not> value_end b \<and> \<not> separator b \<and> b \<noteq> 0"
    by (fastforce simp: value_end_def separator_def is_digit_def)
  with length_show_int [of i] show_int_nonempty [of "sint i"] show ?thesis
    by (fastforce simp: plain_value_def nul_free_def MISC_LENGTH_def)
qed

lemma as_int_show: "as_int (show_int (sint i)) = i"
  using atoi_show [of "[]" i] by (simp add: as_int_def)

lemma render_config_lines:
  assumes "plain_value hv" "plain_value ov" "plain_section nv" "plain_value shv"
  shows "fgets_all (render_config hv pv ov nv shv spv) =
    [header (bs ''pgprtdbg''), setting ''host'' hv, setting ''port'' (show_int (sint pv)),
     setting ''output'' ov, header nv, setting ''host'' shv, setting ''port'' (show_int (sint spv))]"
proof -
  let ?ls = "[bs ''[pgprtdbg]'', bs ''host = '' @ hv, bs ''port = '' @ show_int (sint pv),
     bs ''output = '' @ ov, bs ''['' @ nv @ bs '']'', bs ''host = '' @ shv,
     bs ''port = '' @ show_int (sint spv)]"
  have plain: "newline \<notin> set v" "0 \<notin> set v" "length v < MISC_LENGTH" if "plain_value v" for v
    using that by (auto simp: plain_value_def nul_free_def value_end_def)
  have "\<forall>l \<in> set ?ls. newline \<notin> set l \<and> 0 \<notin> set l \<and> length l < LINE_LENGTH - 1"
    using plain assms plain_value_show_int [of pv] plain_value_show_int [of spv]
    by (fastforce simp: LINE_LENGTH_def MISC_LENGTH_def plain_section_def nul_free_def)
  then have "fgets_all (concat (map (\<lambda>l. l @ [newline]) ?ls)) = map (\<lambda>l. l @ [newline]) ?ls"
    by (rule fgets_all_lines)
  then show ?thesis by (simp add: render_config_def setting_def header_def bs_def)
qed

text \<open>What such a file makes of the configuration. The name of the server is stored with each of its settings.\<close>

definition rendered :: "ctext \<Rightarrow> i32 \<Rightarrow> ctext \<Rightarrow> ctext \<Rightarrow> ctext \<Rightarrow> i32 \<Rightarrow> configuration" where
  "rendered hv pv ov nv shv spv = (snd (init_configuration True zero_configuration))
     \<lparr>cfg_host := store_text zero_text hv, cfg_port := pv, cfg_output := store_text zero_text ov,
      cfg_server := \<lparr>srv_name = store_text (store_text (store_text zero_text nv) nv) nv,
        srv_host = store_text zero_text shv, srv_port = spv\<rparr>\<rparr>"

lemma read_rendered:
  assumes "plain_value hv" "plain_value ov" "plain_section nv" "plain_value shv"
  shows "read_configuration srv (Some (render_config hv pv ov nv shv spv))
    (snd (init_configuration True zero_configuration)) = (0, rendered hv pv ov nv shv spv, [])"
proof -
  have fits: "nul_free v" "length v < MISC_LENGTH" "v \<noteq> []" if "plain_value v" for v
    using that by (simp_all add: plain_value_def)
  have name: "nul_free nv" "length nv < MISC_LENGTH" "nv \<noteq> []" "nv \<noteq> bs ''pgprtdbg''"
    using assms(3) by (simp_all add: plain_section_def)
  show ?thesis
    using assms fits name
    by (simp add: rendered_def read_configuration_def render_config_lines config_header_main config_header_server
        config_setting plain_value_show_int set_key_defs as_int_show init_configuration_def
        zero_configuration_def Let_def zero_server_def cstr_store_text)
qed

lemma rendered_settings:
  assumes "plain_value hv" "plain_value ov" "plain_section nv" "plain_value shv"
  shows "cstr (cfg_host (rendered hv pv ov nv shv spv)) = hv" "cfg_port (rendered hv pv ov nv shv spv) = pv"
    "cstr (cfg_output (rendered hv pv ov nv shv spv)) = ov"
    "cstr (srv_name (cfg_server (rendered hv pv ov nv shv spv))) = nv"
    "cstr (srv_host (cfg_server (rendered hv pv ov nv shv spv))) = shv"
    "srv_port (cfg_server (rendered hv pv ov nv shv spv)) = spv"
    "cfg_backlog (rendered hv pv ov nv shv spv) = - 1"
proof -
  have fits: "nul_free v" "length v < MISC_LENGTH" if "plain_value v" for v
    using that by (simp_all add: plain_value_def)
  have name: "nul_free nv" "length nv < MISC_LENGTH"
    using assms(3) by (simp_all add: plain_section_def)
  have renamed: "cstr (store_text (store_text (store_text zero_text nv) nv) nv) = nv"
    using name by (simp add: cstr_store_text) (simp add: store_text_def MISC_LENGTH_def zero_text_def)
  show "cstr (cfg_host (rendered hv pv ov nv shv spv)) = hv" "cfg_port (rendered hv pv ov nv shv spv) = pv"
    "cstr (cfg_output (rendered hv pv ov nv shv spv)) = ov"
    "cstr (srv_name (cfg_server (rendered hv pv ov nv shv spv))) = nv"
    "cstr (srv_host (cfg_server (rendered hv pv ov nv shv spv))) = shv"
    "srv_port (cfg_server (rendered hv pv ov nv shv spv)) = spv"
    "cfg_backlog (rendered hv pv ov nv shv spv) = - 1"
    using assms fits renamed by (simp_all add: rendered_def cstr_store_text init_configuration_def
        zero_configuration_def Let_def)
qed

lemma rendered_valid:
  assumes "plain_value hv" "plain_value ov" "plain_section nv" "plain_value shv" "pv \<noteq> 0" "spv \<noteq> 0"
  shows "validate_configuration (rendered hv pv ov nv shv spv) =
    (0, (rendered hv pv ov nv shv spv)\<lparr>cfg_backlog := 4\<rparr>, [])"
  using assms rendered_settings [OF assms(1-4)]
  by (simp add: validate_configuration_def plain_value_def plain_section_def word_sle_eq)

text \<open>
  C28. A configuration file with the required settings is read as it was written, for every host,
  port, output path and section name that fits a line, and validation accepts it.
\<close>

theorem configuration_roundtrip:
  assumes "plain_value hv" "plain_value ov" "plain_section nv" "plain_value shv"
    and "pv \<noteq> 0" "spv \<noteq> 0"
  shows "\<exists>c. read_configuration srv (Some (render_config hv pv ov nv shv spv))
      (snd (init_configuration True zero_configuration)) = (0, c, []) \<and>
    cstr (cfg_host c) = hv \<and> cfg_port c = pv \<and> cstr (cfg_output c) = ov \<and>
    cstr (srv_name (cfg_server c)) = nv \<and> cstr (srv_host (cfg_server c)) = shv \<and>
    srv_port (cfg_server c) = spv \<and> validate_configuration c = (0, c\<lparr>cfg_backlog := 4\<rparr>, [])"
  using read_rendered [OF assms(1-4)] rendered_settings [OF assms(1-4)] rendered_valid [OF assms] by blast

theorem configuration_roundtrip_witness:
  "\<exists>c. read_configuration zero_server
      (Some (render_config (bs ''localhost'') 2346 (bs ''pgprtdbg.out'') (bs ''primary'')
        (bs ''db.example.org'') 5432)) (snd (init_configuration True zero_configuration)) = (0, c, []) \<and>
    cstr (cfg_host c) = bs ''localhost'' \<and> cfg_port c = 2346 \<and>
    cstr (cfg_output c) = bs ''pgprtdbg.out'' \<and> cstr (srv_name (cfg_server c)) = bs ''primary'' \<and>
    cstr (srv_host (cfg_server c)) = bs ''db.example.org'' \<and> srv_port (cfg_server c) = 5432 \<and>
    validate_configuration c = (0, c\<lparr>cfg_backlog := 4\<rparr>, [])"
  by (rule configuration_roundtrip) (simp_all add: plain_value_def plain_section_def nul_free_def
      value_end_def separator_def MISC_LENGTH_def bs_def)

text \<open>The settings the documentation marks as required.\<close>

definition required_settings :: "configuration \<Rightarrow> bool" where
  "required_settings c \<longleftrightarrow>
     cstr (cfg_host c) \<noteq> [] \<and> cfg_port c \<noteq> 0 \<and> cstr (cfg_output c) \<noteq> [] \<and>
     cstr (srv_name (cfg_server c)) \<noteq> [] \<and> cstr (srv_host (cfg_server c)) \<noteq> [] \<and>
     srv_port (cfg_server c) \<noteq> 0"

text \<open>
  Validation accepts exactly the configurations with all required settings; it gives an
  accepted one a positive backlog, changes nothing else and prints nothing.
\<close>

theorem validate_configuration_spec:
  "(fst (validate_configuration c) = 0) = required_settings c \<and>
   (validate_configuration c =
      (0, c\<lparr>cfg_backlog := if cfg_backlog c \<le>s 0 then 4 else cfg_backlog c\<rparr>, [])) =
      required_settings c"
  by (cases "cfg_backlog c \<le>s 0")
    (simp_all add: validate_configuration_def required_settings_def Let_def)

text \<open>
  The boolean settings: the code takes exactly \<open>true\<close>, \<open>on\<close> and \<open>1\<close>, in any case, for true
  and everything else for false.
\<close>

theorem as_bool_spec:
  "as_bool v \<longleftrightarrow> map to_lower v \<in> {bs ''true'', bs ''on'', bs ''1''}"
proof -
  have "map to_lower (bs ''true'') = bs ''true''" "map to_lower (bs ''on'') = bs ''on''"
    "map to_lower (bs ''1'') = bs ''1''"
    by (simp_all add: to_lower_def bs_def)
  then show ?thesis by (simp add: as_bool_def strcasecmp_eq_def)
qed

text \<open>The manual lists \<open>yes\<close> among the values for true; the code reads it as false.\<close>

lemma as_bool_yes: "\<not> as_bool (bs ''yes'')"
  by (simp add: as_bool_def strcasecmp_eq_def to_lower_def bs_def)

text \<open>
  A key that is given twice with a shorter second value keeps the end of the first one, since
  \<open>memcpy\<close> does not write the terminating NUL.
\<close>

lemma host_given_twice:
  "cstr (store_text (store_text zero_text (bs ''localhost'')) (bs ''db'')) = bs ''dbcalhost''"
  by (simp add: store_text_def zero_text_def MISC_LENGTH_def bs_def cstr_def)

text \<open>
  A setting on a last line that does not end with a newline is lost: the value is only stored
  when the scan stopped before the end of the line.
\<close>

theorem last_line_without_newline_lost:
  assumes "plain_value v"
  shows "property_line (bs ''port = '' @ v) r = r"
proof -
  have "\<forall>b \<in> set v. \<not> value_end b" "v \<noteq> []" "\<not> separator (hd v)"
    using assms by (simp_all add: plain_value_def)
  then have "dropWhile separator (bs '' = '' @ v) = v" "dropWhile (\<lambda>b. \<not> value_end b) v = []"
    by (cases v; simp add: separator_def bs_def)+
  moreover have "takeWhile (\<lambda>b. \<not> key_end b) (bs ''port = '' @ v) = bs ''port''"
    "dropWhile (\<lambda>b. \<not> key_end b) (bs ''port = '' @ v) = bs '' = '' @ v"
    by (simp_all add: key_end_def bs_def)
  ultimately have "extract_key_value (bs ''port = '' @ v) = (Some (bs ''port''), None)"
    by (simp only: extract_key_value_def Let_def) simp
  then show ?thesis by (simp add: property_line_def)
qed

theorem last_line_without_newline_lost_witness:
  "property_line (bs ''port = '' @ bs ''5432'')
     \<lparr>rd_section = bs ''primary'', rd_idx_server = 0, rd_srv = zero_server,
      rd_config = zero_configuration, rd_printed = []\<rparr> =
     \<lparr>rd_section = bs ''primary'', rd_idx_server = 0, rd_srv = zero_server,
      rd_config = zero_configuration, rd_printed = []\<rparr>"
  by (rule last_line_without_newline_lost)
    (simp add: plain_value_def nul_free_def value_end_def separator_def MISC_LENGTH_def bs_def)

text \<open>
  A second server section is refused: reading stops with return value 1 at the header,
  whatever follows it.
\<close>

theorem second_server_refused:
  assumes "plain_section nv" "plain_section nv2" "rd_idx_server r = - 1"
  shows "\<exists>r'. config_lines (header nv # header nv2 # rest) r = Inl r'"
  using assms by (simp add: config_header_server Let_def)

theorem second_server_refused_witness:
  "\<exists>r'. config_lines (header (bs ''a'') # header (bs ''b'') # [])
     \<lparr>rd_section = [], rd_idx_server = - 1, rd_srv = zero_server, rd_config = zero_configuration,
      rd_printed = []\<rparr> = Inl r'"
  by (rule second_server_refused) (simp_all add: plain_section_def nul_free_def MISC_LENGTH_def bs_def)

end
