(* ===== verification/Logging.thy ===== *)
theory Logging
  imports Config
begin

text \<open>
  \<open>src/src/libpgprtdbg/logging.c\<close>: starting and stopping, log lines, the dump of a piece of memory,
  and the log lock, as what one process does to the shared lock and as a protocol between
  processes.
\<close>

section \<open>Where the log goes\<close>

text \<open>
  The standard output and the log file, each as the text written to it; \<open>log_file\<close> is \<open>None\<close> while
  the \<open>FILE*\<close> of that name is \<open>NULL\<close>.
\<close>

record logs =
  log_stdout :: ctext
  log_file :: "ctext option"

text \<open>
  \<open>opens\<close> is whether \<open>fopen\<close> succeeds on the log file. The results are the return value and the
  logs; the message about a file that cannot be opened goes to the standard output.
\<close>

definition log_path :: "configuration \<Rightarrow> ctext" where
  "log_path config =
     (if cstr (cfg_log_path config) \<noteq> [] then cstr (cfg_log_path config) else bs ''pgprtdbg.log'')"

definition start_logging :: "configuration \<Rightarrow> (ctext \<Rightarrow> bool) \<Rightarrow> ctext \<Rightarrow> logs \<Rightarrow> int \<times> logs" where
  "start_logging config opens strerror lg =
     (if cfg_log_type config = LOGGING_TYPE_FILE then
        if opens (log_path config) then (0, lg\<lparr>log_file := Some []\<rparr>)
        else (1, lg\<lparr>log_file := None,
                log_stdout := log_stdout lg @ bs ''Failed to open log file '' @ log_path config @
                  bs '' due to '' @ strerror @ [newline]\<rparr>)
      else (0, lg))"

text \<open>\<open>fclose\<close> of a file that is not open is undefined.\<close>

definition stop_logging :: "configuration \<Rightarrow> logs \<Rightarrow> logs option" where
  "stop_logging config lg =
     (if cfg_log_type config = LOGGING_TYPE_FILE then
        (case log_file lg of None \<Rightarrow> None | Some t \<Rightarrow> Some (lg\<lparr>log_file := None\<rparr>))
      else Some lg)"

text \<open>
  Writing a text where the logging type says; a log file that is \<open>NULL\<close> is undefined behaviour
  of \<open>vfprintf\<close>.
\<close>

definition log_text :: "i32 \<Rightarrow> ctext \<Rightarrow> logs \<Rightarrow> logs option" where
  "log_text log_type t lg =
     (if log_type = LOGGING_TYPE_CONSOLE then Some (lg\<lparr>log_stdout := log_stdout lg @ t\<rparr>)
      else if log_type = LOGGING_TYPE_FILE then
        (case log_file lg of None \<Rightarrow> None | Some f \<Rightarrow> Some (lg\<lparr>log_file := Some (f @ t)\<rparr>))
      else Some lg)"

definition log_line :: "i32 \<Rightarrow> ctext \<Rightarrow> logs \<Rightarrow> logs option" where
  "log_line log_type line lg = log_text log_type (line @ [newline]) lg"

section \<open>The dump of memory\<close>

text \<open>
  \<open>pgprtdbg_log_mem\<close> and \<open>write_traffic\<close> build the dump in a zeroed array of \<open>256 * 1024\<close> bytes: \<open>j\<close>
  is the next position, \<open>k\<close> the column. A write behind the end is undefined. \<open>sprintf\<close> writes its
  text and a NUL, but \<open>j\<close> only moves by two.
\<close>

record dump =
  dm_buf :: "nat \<Rightarrow> byte"
  dm_j :: nat
  dm_k :: nat

definition DUMP_SIZE :: nat where "DUMP_SIZE = 256 * 1024"
definition DUMP_LINE_LENGTH :: nat where "DUMP_LINE_LENGTH = 32"

definition poke :: "(nat \<Rightarrow> byte) \<Rightarrow> nat \<Rightarrow> ctext \<Rightarrow> nat \<Rightarrow> byte" where
  "poke buf j s = (\<lambda>i. if j \<le> i \<and> i < j + length s then s ! (i - j) else buf i)"

definition dump_newline :: "dump \<Rightarrow> dump option" where
  "dump_newline d =
     (if dm_j d < DUMP_SIZE
      then Some (d\<lparr>dm_buf := poke (dm_buf d) (dm_j d) [newline], dm_j := dm_j d + 1, dm_k := 0\<rparr>)
      else None)"

definition dump_wrap :: "dump \<Rightarrow> dump option" where
  "dump_wrap d = (if dm_k d = DUMP_LINE_LENGTH then dump_newline d else Some d)"

definition dump_hex :: "byte \<Rightarrow> dump \<Rightarrow> dump option" where
  "dump_hex b d = do {
     d \<leftarrow> dump_wrap d;
     if dm_j d + length (hex02 b) + 1 \<le> DUMP_SIZE
     then Some (d\<lparr>dm_buf := poke (dm_buf d) (dm_j d) (hex02 b @ [0]), dm_j := dm_j d + 2,
                  dm_k := dm_k d + 1\<rparr>)
     else None }"

text \<open>\<open>c >= 32 && c <= 127\<close> on a \<open>signed char\<close>.\<close>

definition printable :: "byte \<Rightarrow> byte" where
  "printable c = (if 32 \<le> sint c \<and> sint c \<le> 127 then c else of_char CHR ''?'')"

definition dump_char :: "byte \<Rightarrow> dump \<Rightarrow> dump option" where
  "dump_char b d = do {
     d \<leftarrow> dump_wrap d;
     if dm_j d < DUMP_SIZE
     then Some (d\<lparr>dm_buf := poke (dm_buf d) (dm_j d) [printable b], dm_j := dm_j d + 1,
                  dm_k := dm_k d + 1\<rparr>)
     else None }"

fun dump_all :: "(byte \<Rightarrow> dump \<Rightarrow> dump option) \<Rightarrow> byte list \<Rightarrow> dump \<Rightarrow> dump option" where
  "dump_all f [] d = Some d"
| "dump_all f (b # bytes) d = Option.bind (f b d) (dump_all f bytes)"

definition dump_array :: "byte list \<Rightarrow> dump option" where
  "dump_array bytes = do {
     d \<leftarrow> dump_all dump_hex bytes \<lparr>dm_buf = (\<lambda>_. 0), dm_j = 0, dm_k = 0\<rparr>;
     d \<leftarrow> dump_newline d;
     dump_all dump_char bytes d }"

text \<open>\<open>fprintf (f, "%s", buf)\<close>: the array up to its first NUL, which has to be inside it.\<close>

definition array_text :: "(nat \<Rightarrow> byte) \<Rightarrow> ctext option" where
  "array_text buf =
     (let t = takeWhile (\<lambda>b. b \<noteq> 0) (map buf [0..<DUMP_SIZE])
      in if length t < DUMP_SIZE then Some t else None)"

definition dump_text :: "byte list \<Rightarrow> ctext option" where
  "dump_text bytes = Option.bind (dump_array bytes) (\<lambda>d. array_text (dm_buf d))"

definition log_mem :: "i32 \<Rightarrow> byte list \<Rightarrow> logs \<Rightarrow> logs option" where
  "log_mem log_type bytes lg = do {
     t \<leftarrow> dump_text bytes;
     log_text log_type (t @ [newline]) lg }"

section \<open>What the dump shows\<close>

text \<open>
  The specification of the dump: the bytes as two hex digits, then a newline, then the bytes as
  characters, both with a line break before every 33rd item. A byte of 128 or more shows as \<open>FF\<close>
  whatever its value, because the next write starts two positions on and overwrites the rest of the
  eight digits that \<open>%02X\<close> prints for a negative \<open>int\<close>.
\<close>

definition shown_hex :: "byte \<Rightarrow> ctext" where
  "shown_hex b = (if unat b < 128 then [nibble (unat b div 16), nibble (unat b mod 16)] else bs ''FF'')"

text \<open>What goes before an item in column \<open>k\<close>, and the column after the item.\<close>

definition brk :: "nat \<Rightarrow> ctext" where
  "brk k = (if k = DUMP_LINE_LENGTH then [newline] else [])"

definition col :: "nat \<Rightarrow> nat" where
  "col k = (if k = DUMP_LINE_LENGTH then 1 else k + 1)"

fun wrap :: "nat \<Rightarrow> ctext list \<Rightarrow> ctext" where
  "wrap k [] = []"
| "wrap k (x # xs) = brk k @ x @ wrap (col k) xs"

lemma col_bound: "k \<le> 32 \<Longrightarrow> col k \<le> 32" "0 < col k" and length_brk: "length (brk k) \<le> 1"
  by (auto simp: col_def brk_def DUMP_LINE_LENGTH_def)

lemma brk_div: "k \<le> 32 \<Longrightarrow> length (brk k) + (n + col k) div 32 = (n + 1 + k) div 32"
proof -
  have "(n + 33) div 32 = Suc ((n + 1) div 32)" by presburger
  then show ?thesis by (simp add: brk_def col_def DUMP_LINE_LENGTH_def add.commute)
qed

definition dump_spec :: "byte list \<Rightarrow> ctext" where
  "dump_spec bytes =
     wrap 0 (map shown_hex bytes) @ [newline] @ wrap 0 (map (\<lambda>b. [printable b]) bytes)"

text \<open>
  The array holds the text \<open>t\<close> before \<open>j\<close> and nothing from \<open>z\<close> on; between them may be digits that
  were written but not counted.
\<close>

definition dumped :: "ctext \<Rightarrow> nat \<Rightarrow> nat \<Rightarrow> dump \<Rightarrow> bool" where
  "dumped t z k d \<longleftrightarrow> dm_j d = length t \<and> dm_k d = k \<and>
     (\<forall>i < length t. dm_buf d i = t ! i) \<and> (\<forall>i \<ge> z. dm_buf d i = 0)"

lemma dumped_poke:
  assumes "dumped t z k d" "length s \<le> length s'" "take (length s) s' = s" "z \<le> z'"
    "\<And>i. length t + i \<ge> z' \<Longrightarrow> i < length s' \<Longrightarrow> s' ! i = 0"
  shows "dumped (t @ s) z' k' (d\<lparr>dm_buf := poke (dm_buf d) (dm_j d) s', dm_j := dm_j d + length s,
    dm_k := k'\<rparr>)"
proof -
  have s: "s' ! i = s ! i" if "i < length s" for i
    using assms(3) that by (metis nth_take)
  have "poke (dm_buf d) (length t) s' i = (t @ s) ! i" if "i < length t + length s" for i
    using that assms(1,2) s [of "i - length t"] by (auto simp: poke_def dumped_def nth_append)
  moreover have "poke (dm_buf d) (length t) s' i = 0" if "z' \<le> i" for i
    using that assms(1,4) assms(5) [of "i - length t"] by (auto simp: poke_def dumped_def)
  ultimately show ?thesis using assms(1) by (simp add: dumped_def)
qed

lemma dump_newline_spec:
  assumes "dumped t z k d" "length t < DUMP_SIZE"
  shows "\<exists>d'. dump_newline d = Some d' \<and> dumped (t @ [newline]) (max z (length t + 1)) 0 d'"
proof -
  have "dumped (t @ [newline]) (max z (length t + 1)) 0 (d\<lparr>dm_buf := poke (dm_buf d) (dm_j d) [newline],
    dm_j := dm_j d + length [newline], dm_k := 0\<rparr>)"
    by (rule dumped_poke [OF assms(1)]) auto
  with assms show ?thesis by (simp add: dump_newline_def dumped_def)
qed

lemma dumped_mono: "dumped t z k d \<Longrightarrow> z \<le> z' \<Longrightarrow> dumped t z' k d"
  by (auto simp: dumped_def)

lemma dump_wrap_spec:
  assumes "dumped t z k d" "length t < DUMP_SIZE"
  shows "\<exists>d'. dump_wrap d = Some d' \<and>
    dumped (t @ brk k) (max z (length (t @ brk k))) (col k - 1) d'"
proof (cases "k = DUMP_LINE_LENGTH")
  case True
  with dump_newline_spec [OF assms] assms(1) show ?thesis
    by (auto simp: dump_wrap_def dumped_def brk_def col_def)
next
  case False
  with assms(1) show ?thesis by (auto simp: dump_wrap_def dumped_def brk_def col_def)
qed

lemma length_hex02: "length (hex02 b) = (if unat b < 128 then 2 else 8)"
  by (simp add: hex02_low hex02_high)

lemma shown_hex_take: "take 2 (hex02 b) = shown_hex b" "length (shown_hex b) = 2"
  by (simp_all add: shown_hex_def hex02_low hex02_high bs_def)

lemma dump_hex_spec:
  assumes "dumped t (length t + r) k d" "r = 6 \<or> r = 0 \<and> unat b < 128" "length t + 10 \<le> DUMP_SIZE"
  shows "\<exists>d'. dump_hex b d = Some d' \<and>
    dumped (t @ brk k @ shown_hex b) (length (t @ brk k @ shown_hex b) + r) (col k) d'"
proof -
  let ?t = "t @ brk k"
  from dump_wrap_spec [OF assms(1)] assms(3) obtain d1 where
    d1: "dump_wrap d = Some d1" "dumped ?t (max (length t + r) (length ?t)) (col k - 1) d1"
    by auto
  then have d1': "dumped ?t (length ?t + r) (col k - 1) d1" by (auto intro: dumped_mono)
  have "dumped (?t @ shown_hex b) (length ?t + 2 + r) (col k)
    (d1\<lparr>dm_buf := poke (dm_buf d1) (dm_j d1) (hex02 b @ [0]), dm_j := dm_j d1 + length (shown_hex b),
        dm_k := col k\<rparr>)"
    by (rule dumped_poke [OF d1'])
      (use assms(2) in \<open>auto simp: shown_hex_take length_hex02 nth_append split: if_splits\<close>)
  moreover have "dm_j d1 + length (hex02 b) + 1 \<le> DUMP_SIZE" "dm_k d1 + 1 = col k"
    using d1' assms(3) col_bound(2) [of k] length_brk [of k]
    by (auto simp: dumped_def length_hex02)
  ultimately show ?thesis using d1(1) by (simp add: dump_hex_def shown_hex_take)
qed

lemma dump_char_spec:
  assumes "dumped t z k d" "length t + 2 \<le> DUMP_SIZE"
  shows "\<exists>d'. dump_char b d = Some d' \<and>
    dumped (t @ brk k @ [printable b]) (max z (length (t @ brk k @ [printable b]))) (col k) d'"
proof -
  let ?t = "t @ brk k"
  from dump_wrap_spec [OF assms(1)] assms(2) obtain d1 where
    d1: "dump_wrap d = Some d1" "dumped ?t (max z (length ?t)) (col k - 1) d1"
    by auto
  have "dumped (?t @ [printable b]) (max z (length ?t + 1)) (col k)
    (d1\<lparr>dm_buf := poke (dm_buf d1) (dm_j d1) [printable b], dm_j := dm_j d1 + length [printable b],
        dm_k := col k\<rparr>)"
    by (rule dumped_poke [OF d1(2)]) auto
  moreover have "dm_j d1 < DUMP_SIZE" "dm_k d1 + 1 = col k"
    using d1(2) assms(2) col_bound(2) [of k] length_brk [of k] by (auto simp: dumped_def)
  ultimately show ?thesis using d1(1) by (simp add: dump_char_def)
qed

lemma dump_all_hex:
  assumes "dumped t (length t + r) k d" "k \<le> 32" "r = 6 \<or> r = 0 \<and> (\<forall>b \<in> set bytes. unat b < 128)"
    "length t + 2 * length bytes + (length bytes + k) div 32 + 10 \<le> DUMP_SIZE"
  shows "\<exists>d' k'. dump_all dump_hex bytes d = Some d' \<and>
    dumped (t @ wrap k (map shown_hex bytes)) (length (t @ wrap k (map shown_hex bytes)) + r) k' d'"
  using assms
proof (induction bytes arbitrary: t k d)
  case Nil
  then show ?case by auto
next
  case (Cons b bytes)
  let ?t = "t @ brk k @ shown_hex b"
  have "r = 6 \<or> r = 0 \<and> unat b < 128" "length t + 10 \<le> DUMP_SIZE"
    using Cons.prems(3,4) by auto
  from dump_hex_spec [OF Cons.prems(1) this] obtain d1 where
    d1: "dump_hex b d = Some d1" "dumped ?t (length ?t + r) (col k) d1" by blast
  have "length ?t + 2 * length bytes + (length bytes + col k) div 32 + 10 \<le> DUMP_SIZE"
    using Cons.prems(4) brk_div [OF Cons.prems(2), of "length bytes"] by (simp add: shown_hex_take)
  moreover have "r = 6 \<or> r = 0 \<and> (\<forall>b \<in> set bytes. unat b < 128)" using Cons.prems(3) by auto
  ultimately have "\<exists>d' k'. dump_all dump_hex bytes d1 = Some d' \<and>
    dumped (?t @ wrap (col k) (map shown_hex bytes))
      (length (?t @ wrap (col k) (map shown_hex bytes)) + r) k' d'"
    using Cons.IH [OF d1(2)] col_bound(1) [OF Cons.prems(2)] by blast
  with d1(1) show ?case by simp
qed

lemma dump_all_char:
  assumes "dumped t z k d" "k \<le> 32" "length t + length bytes + (length bytes + k) div 32 + 2 \<le> DUMP_SIZE"
  shows "\<exists>d' k'. dump_all dump_char bytes d = Some d' \<and>
    dumped (t @ wrap k (map (\<lambda>b. [printable b]) bytes))
      (max z (length (t @ wrap k (map (\<lambda>b. [printable b]) bytes)))) k' d'"
  using assms
proof (induction bytes arbitrary: t z k d)
  case Nil
  then show ?case by (auto simp: dumped_def)
next
  case (Cons b bytes)
  let ?t = "t @ brk k @ [printable b]"
  have "length t + 2 \<le> DUMP_SIZE" using Cons.prems(3) by simp
  from dump_char_spec [OF Cons.prems(1) this, of b] obtain d1 where
    d1: "dump_char b d = Some d1" "dumped ?t (max z (length ?t)) (col k) d1" by blast
  have "length ?t + length bytes + (length bytes + col k) div 32 + 2 \<le> DUMP_SIZE"
    using Cons.prems(3) brk_div [OF Cons.prems(2), of "length bytes"] by simp
  then have "\<exists>d' k'. dump_all dump_char bytes d1 = Some d' \<and>
    dumped (?t @ wrap (col k) (map (\<lambda>b. [printable b]) bytes))
      (max (max z (length ?t)) (length (?t @ wrap (col k) (map (\<lambda>b. [printable b]) bytes)))) k' d'"
    using Cons.IH [OF d1(2)] col_bound(1) [OF Cons.prems(2)] by blast
  then have "\<exists>d' k'. dump_all dump_char bytes d1 = Some d' \<and>
    dumped (?t @ wrap (col k) (map (\<lambda>b. [printable b]) bytes))
      (max z (length (?t @ wrap (col k) (map (\<lambda>b. [printable b]) bytes)))) k' d'"
    by (simp add: max.assoc)
  with d1(1) show ?case by simp
qed

lemma length_wrap:
  assumes "\<forall>x \<in> set xs. length x = c" "k \<le> 32"
  shows "length (wrap k xs) = c * length xs + (length (wrap k xs) - c * length xs) \<and>
    length (wrap k xs) \<le> c * length xs + (length xs + k) div 32"
  using assms
proof (induction xs arbitrary: k)
  case (Cons x xs)
  from Cons.prems Cons.IH [of "col k"] brk_div [OF Cons.prems(2), of "length xs"] col_bound(1)
  show ?case by simp
qed simp

lemma length_wrap_hex: "length (wrap 0 (map shown_hex bytes)) \<le> 2 * length bytes + length bytes div 32"
  using length_wrap [of "map shown_hex bytes" 2 0] by (simp add: shown_hex_take)

lemma length_wrap_char:
  "length bytes \<le> length (wrap 0 (map (\<lambda>b. [printable b]) bytes))"
  "length (wrap 0 (map (\<lambda>b. [printable b]) bytes)) \<le> length bytes + length bytes div 32"
  using length_wrap [of "map (\<lambda>b. [printable b]) bytes" 1 0] by simp_all

lemma wrap_no_nul: "\<forall>x \<in> set xs. 0 \<notin> set x \<Longrightarrow> 0 \<notin> set (wrap k xs)"
  by (induction xs arbitrary: k) (auto simp: brk_def)

lemma nibble_nonzero: "n < 16 \<Longrightarrow> nibble n \<noteq> 0"
proof -
  assume "n < 16"
  then have "unat (nibble n) \<noteq> 0" by (simp add: nibble_def unat_word_ariths unat_of_nat)
  then show ?thesis by auto
qed

lemma dump_spec_no_nul: "0 \<notin> set (dump_spec bytes)"
proof -
  have "0 \<notin> set (shown_hex b)" for b
    using nibble_nonzero [of "unat b div 16"] nibble_nonzero [of "unat b mod 16"] unat_byte_less [of b]
    by (auto simp: shown_hex_def bs_def)
  then have "0 \<notin> set (wrap 0 (map shown_hex bytes))" by (intro wrap_no_nul) simp
  moreover have "printable b \<noteq> 0" for b by (auto simp: printable_def)
  then have "0 \<notin> set (wrap 0 (map (\<lambda>b. [printable b]) bytes))" by (intro wrap_no_nul) auto
  ultimately show ?thesis by (simp add: dump_spec_def)
qed

lemma array_text_dumped:
  assumes "dumped t (length t) k d" "0 \<notin> set t" "length t < DUMP_SIZE"
  shows "array_text (dm_buf d) = Some t"
proof -
  have "[0..<DUMP_SIZE] = [0..<length t] @ length t # [Suc (length t)..<DUMP_SIZE]"
    using assms(3) by (metis le_add_diff_inverse less_imp_le_nat upt_add_eq_append upt_conv_Cons zero_le)
  then have "map (dm_buf d) [0..<DUMP_SIZE] =
      map (dm_buf d) [0..<length t] @ dm_buf d (length t) # map (dm_buf d) [Suc (length t)..<DUMP_SIZE]"
    by simp
  also have "map (dm_buf d) [0..<length t] = t"
    using assms(1) by (intro nth_equalityI) (auto simp: dumped_def)
  also have "dm_buf d (length t) = 0" using assms(1) by (simp add: dumped_def)
  finally have "takeWhile (\<lambda>b. b \<noteq> 0) (map (dm_buf d) [0..<DUMP_SIZE]) = t"
    using assms(2) by (metis cstr_append_nul cstr_def)
  with assms(3) show ?thesis by (simp add: array_text_def Let_def)
qed

text \<open>How far the last byte of the hex part reaches behind the position.\<close>

definition residue :: "byte list \<Rightarrow> nat" where
  "residue bytes = (if \<forall>b \<in> set bytes. unat b < 128 then 0 else 6)"

lemma dump_text_spec:
  assumes "length bytes \<le> 65535" "5 \<le> length bytes \<or> (\<forall>b \<in> set bytes. unat b < 128)"
  shows "dump_text bytes = Some (dump_spec bytes)"
proof -
  let ?r = "residue bytes"
  let ?hex = "wrap 0 (map shown_hex bytes)"
  let ?chars = "wrap 0 (map (\<lambda>b. [printable b]) bytes)"
  let ?zero = "\<lparr>dm_buf = (\<lambda>_. 0), dm_j = 0, dm_k = 0\<rparr>"
  have lines: "length bytes div 32 \<le> 2047"
    using div_le_mono [OF assms(1), of 32] by simp
  have "dumped [] (length [] + ?r) 0 ?zero" by (simp add: dumped_def)
  moreover have "?r = 6 \<or> ?r = 0 \<and> (\<forall>b \<in> set bytes. unat b < 128)" by (simp add: residue_def)
  ultimately obtain d1 k1 where
    d1: "dump_all dump_hex bytes ?zero = Some d1" "dumped ?hex (length ?hex + ?r) k1 d1"
    using dump_all_hex [of "[]" ?r 0 ?zero bytes] assms(1) lines by (auto simp: DUMP_SIZE_def)
  have hex: "length ?hex \<le> 2 * length bytes + length bytes div 32" by (rule length_wrap_hex)
  with assms(1) lines dump_newline_spec [OF d1(2)] obtain d2 where
    d2: "dump_newline d1 = Some d2" "dumped (?hex @ [newline]) (max (length ?hex + ?r) (length ?hex + 1)) 0 d2"
    by (auto simp: DUMP_SIZE_def)
  from dump_all_char [OF d2(2), of bytes] assms(1) lines hex obtain d3 k3 where
    d3: "dump_all dump_char bytes d2 = Some d3"
      "dumped ((?hex @ [newline]) @ ?chars) (max (max (length ?hex + ?r) (length ?hex + 1))
        (length ((?hex @ [newline]) @ ?chars))) k3 d3"
    by (auto simp: DUMP_SIZE_def)
  have "?r \<le> 1 + length ?chars"
    using assms(2) length_wrap_char(1) [of bytes] by (auto simp: residue_def)
  then have "max (max (length ?hex + ?r) (length ?hex + 1)) (length ((?hex @ [newline]) @ ?chars))
      = length (dump_spec bytes)" by (simp add: dump_spec_def)
  then have "dumped (dump_spec bytes) (length (dump_spec bytes)) k3 d3"
    using d3(2) by (simp add: dump_spec_def)
  moreover have "length (dump_spec bytes) < DUMP_SIZE"
    using hex lines length_wrap_char(2) [of bytes] assms(1) by (simp add: dump_spec_def DUMP_SIZE_def)
  ultimately have "array_text (dm_buf d3) = Some (dump_spec bytes)"
    using array_text_dumped dump_spec_no_nul by blast
  with d1(1) d2(1) d3(1) show ?thesis by (simp add: dump_text_def dump_array_def)
qed

text \<open>
  C35. The dump of a message of at most 65535 bytes is the specified one, when it has at least five
  bytes or only bytes below 128: two hex digits and one character per byte, 32 to a line.
\<close>

theorem log_mem_shows_dump:
  assumes "length bytes \<le> 65535" "5 \<le> length bytes \<or> (\<forall>b \<in> set bytes. unat b < 128)"
  shows "log_mem log_type bytes lg = log_text log_type (dump_spec bytes @ [newline]) lg"
  by (simp add: log_mem_def dump_text_spec [OF assms])

theorem log_mem_shows_dump_witness:
  "log_mem 0 (bs ''Q'') \<lparr>log_stdout = [], log_file = None\<rparr> =
   log_text 0 (dump_spec (bs ''Q'') @ [newline]) \<lparr>log_stdout = [], log_file = None\<rparr> \<and>
   dump_spec (bs ''Q'') = bs ''51'' @ [newline] @ bs ''Q''"
proof
  show "log_mem 0 (bs ''Q'') \<lparr>log_stdout = [], log_file = None\<rparr> =
      log_text 0 (dump_spec (bs ''Q'') @ [newline]) \<lparr>log_stdout = [], log_file = None\<rparr>"
    by (rule log_mem_shows_dump) (simp_all add: bs_def)
  show "dump_spec (bs ''Q'') = bs ''51'' @ [newline] @ bs ''Q''"
    by (simp add: dump_spec_def shown_hex_def nibble_def printable_def brk_def DUMP_LINE_LENGTH_def bs_def)
qed

section \<open>The bounds of the dump array\<close>

lemma array_text_defined:
  assumes "dumped t z k d" "z < DUMP_SIZE"
  shows "\<exists>s. array_text (dm_buf d) = Some s"
proof -
  have "0 \<in> set (map (dm_buf d) [0..<DUMP_SIZE])"
    using assms by (auto simp: dumped_def image_iff intro!: bexI [of _ z])
  then have "length (cstr (map (dm_buf d) [0..<DUMP_SIZE])) < DUMP_SIZE"
    using cstr_shorter by fastforce
  then show ?thesis by (simp add: array_text_def cstr_def Let_def)
qed

lemma dump_text_defined:
  assumes "length bytes \<le> 65535"
  shows "\<exists>t. dump_text bytes = Some t"
proof -
  let ?hex = "wrap 0 (map shown_hex bytes)"
  let ?zero = "\<lparr>dm_buf = (\<lambda>_. 0), dm_j = 0, dm_k = 0\<rparr>"
  have lines: "length bytes div 32 \<le> 2047"
    using div_le_mono [OF assms, of 32] by simp
  have "dumped [] (length [] + 6) 0 ?zero" by (simp add: dumped_def)
  then obtain d1 k1 where
    d1: "dump_all dump_hex bytes ?zero = Some d1" "dumped ?hex (length ?hex + 6) k1 d1"
    using dump_all_hex [of "[]" 6 0 ?zero bytes] assms lines by (auto simp: DUMP_SIZE_def)
  have hex: "length ?hex \<le> 2 * length bytes + length bytes div 32" by (rule length_wrap_hex)
  with assms lines dump_newline_spec [OF d1(2)] obtain d2 where
    d2: "dump_newline d1 = Some d2" "dumped (?hex @ [newline]) (max (length ?hex + 6) (length ?hex + 1)) 0 d2"
    by (auto simp: DUMP_SIZE_def)
  from dump_all_char [OF d2(2), of bytes] assms lines hex obtain d3 k3 where
    d3: "dump_all dump_char bytes d2 = Some d3"
      "dumped ((?hex @ [newline]) @ wrap 0 (map (\<lambda>b. [printable b]) bytes))
        (max (max (length ?hex + 6) (length ?hex + 1))
          (length ((?hex @ [newline]) @ wrap 0 (map (\<lambda>b. [printable b]) bytes)))) k3 d3"
    by (auto simp: DUMP_SIZE_def)
  have "\<exists>s. array_text (dm_buf d3) = Some s"
    by (rule array_text_defined [OF d3(2)])
      (use hex lines length_wrap_char(2) [of bytes] assms in \<open>simp add: DUMP_SIZE_def\<close>)
  with d1(1) d2(1) d3(1) show ?thesis by (auto simp: dump_text_def dump_array_def)
qed

lemma dump_step_progress:
  "dump_hex b d = Some d' \<Longrightarrow> dm_j d + 2 \<le> dm_j d' \<and> dm_j d' \<le> DUMP_SIZE"
  "dump_char b d = Some d' \<Longrightarrow> dm_j d + 1 \<le> dm_j d' \<and> dm_j d' \<le> DUMP_SIZE"
  "dump_newline d = Some d' \<Longrightarrow> dm_j d' = dm_j d + 1 \<and> dm_j d' \<le> DUMP_SIZE"
proof -
  have wrap: "dm_j d \<le> dm_j d1" if "dump_wrap d = Some d1" for d1
    using that by (auto simp: dump_wrap_def dump_newline_def split: if_splits)
  have "2 \<le> length (hex02 b)" by (simp add: length_hex02)
  with wrap show "dump_hex b d = Some d' \<Longrightarrow> dm_j d + 2 \<le> dm_j d' \<and> dm_j d' \<le> DUMP_SIZE"
    by (fastforce simp: dump_hex_def split: Option.bind_splits if_splits)
  from wrap show "dump_char b d = Some d' \<Longrightarrow> dm_j d + 1 \<le> dm_j d' \<and> dm_j d' \<le> DUMP_SIZE"
    by (fastforce simp: dump_char_def split: Option.bind_splits if_splits)
  show "dump_newline d = Some d' \<Longrightarrow> dm_j d' = dm_j d + 1 \<and> dm_j d' \<le> DUMP_SIZE"
    by (auto simp: dump_newline_def split: if_splits)
qed

lemma dump_all_progress:
  assumes "\<And>b d d'. f b d = Some d' \<Longrightarrow> dm_j d + c \<le> dm_j d' \<and> dm_j d' \<le> DUMP_SIZE"
    and "dump_all f bytes d = Some d'"
  shows "dm_j d + c * length bytes \<le> dm_j d' \<and> (bytes \<noteq> [] \<longrightarrow> dm_j d' \<le> DUMP_SIZE)"
  using assms(2)
proof (induction bytes arbitrary: d)
  case (Cons b bytes)
  then obtain d1 where "f b d = Some d1" "dump_all f bytes d1 = Some d'"
    by (auto split: Option.bind_splits)
  with Cons.IH [of d1] assms(1) [of b d d1] show ?case by (cases bytes) auto
qed simp

text \<open>
  The dump array is large enough for everything one read can deliver: \<open>pgprtdbg_log_mem\<close> is
  defined for every piece of at most 65535 bytes, the maximal buffer size, and overruns its array
  for every piece of more than 87381 bytes.
\<close>

theorem dump_bounds:
  "(length bytes \<le> 65535 \<longrightarrow> dump_text bytes \<noteq> None) \<and> (87381 < length bytes \<longrightarrow> dump_text bytes = None)"
proof -
  have "dump_array bytes = None" if big: "87381 < length bytes"
  proof (rule ccontr)
    assume "dump_array bytes \<noteq> None"
    then obtain d1 d2 d3 where
      d1: "dump_all dump_hex bytes \<lparr>dm_buf = (\<lambda>_. 0), dm_j = 0, dm_k = 0\<rparr> = Some d1" and
      d2: "dump_newline d1 = Some d2" and d3: "dump_all dump_char bytes d2 = Some d3"
      by (auto simp: dump_array_def split: Option.bind_splits)
    have "2 * length bytes \<le> dm_j d1"
      using dump_all_progress [OF dump_step_progress(1) d1] by simp
    moreover have "dm_j d2 = dm_j d1 + 1"
      using dump_step_progress(3) [OF d2] by simp
    moreover have "dm_j d2 + 1 * length bytes \<le> dm_j d3 \<and> (bytes \<noteq> [] \<longrightarrow> dm_j d3 \<le> DUMP_SIZE)"
      by (rule dump_all_progress [OF dump_step_progress(2) d3])
    ultimately show False using big by (auto simp: DUMP_SIZE_def)
  qed
  with dump_text_defined [of bytes] show ?thesis by (auto simp: dump_text_def)
qed

theorem dump_bounds_witness:
  "dump_text (replicate 65535 0) \<noteq> None \<and> dump_text (replicate 90000 0) = None"
  using dump_bounds [of "replicate 65535 0"] dump_bounds [of "replicate 90000 0"] by simp

text \<open>
  The hex digits do not tell bytes of 128 and more apart: these two messages have the same dump.
\<close>

lemma dump_loses_bytes:
  "dump_text [128, 128, 128, 128, 128] = dump_text [255, 255, 255, 255, 255]"
  by (subst (1 2) dump_text_spec) (simp_all add: dump_spec_def shown_hex_def printable_def)

end
