(* ===== verification/LogLock.thy ===== *)
theory LogLock
  imports Logging
begin

text \<open>
  The log lock of \<open>src/src/libpgprtdbg/logging.c\<close>, a byte of the shared memory that the worker
  processes take and give back: one process's calls, and any number of processes (numbered by
  \<open>nat\<close>) that interleave at the atomic operations.
\<close>

section \<open>One process\<close>

text \<open>
  A call of \<open>pgprtdbg_log_lock\<close> alone: with the lock free the first compare-and-exchange takes it;
  with the lock in use every attempt fails until the call gives up after a second. Either way the
  lock is in use afterwards. \<open>pgprtdbg_log_unlock\<close> stores \<open>STATE_FREE\<close> without a check.
\<close>

definition log_lock :: "configuration \<Rightarrow> configuration" where
  "log_lock config = config\<lparr>cfg_log_lock := STATE_IN_USE\<rparr>"

definition log_unlock :: "configuration \<Rightarrow> configuration" where
  "log_unlock config = config\<lparr>cfg_log_lock := STATE_FREE\<rparr>"

section \<open>Processes that share the lock\<close>

text \<open>
  Where a process is in \<open>pgprtdbg_log_lock\<close>: at \<open>retry\<close> or asleep after a failed attempt, each with
  the time the call started, or past the call, where it writes its log lines.
\<close>

datatype lock_phase = Outside | Trying nat | Asleep nat | Inside

record lock_world =
  lw_lock :: byte
  lw_time :: nat
  lw_phase :: "nat \<Rightarrow> lock_phase"

datatype lock_event =
    Call nat | CasOk nat | CasFail nat | Retry nat | Timeout nat | Unlock nat | Die nat | Tick

abbreviation at_phase :: "nat \<Rightarrow> lock_phase \<Rightarrow> lock_world \<Rightarrow> lock_world" where
  "at_phase p ph w \<equiv> w\<lparr>lw_phase := (lw_phase w)(p := ph)\<rparr>"

text \<open>
  \<open>time\<close> counts whole seconds, so \<open>difftime >= 1\<close> is a comparison of naturals. \<open>Die\<close> is a process
  that ends without unlocking, as \<open>exit (1)\<close> in \<open>fe_zero\<close> does.
\<close>

inductive lock_step :: "lock_world \<Rightarrow> lock_event \<Rightarrow> lock_world \<Rightarrow> bool" where
  call: "lw_phase w p = Outside \<Longrightarrow> lock_step w (Call p) (at_phase p (Trying (lw_time w)) w)"
| cas_ok: "lw_phase w p = Trying s \<Longrightarrow> lw_lock w = STATE_FREE \<Longrightarrow>
    lock_step w (CasOk p) (at_phase p Inside (w\<lparr>lw_lock := STATE_IN_USE\<rparr>))"
| cas_fail: "lw_phase w p = Trying s \<Longrightarrow> lw_lock w \<noteq> STATE_FREE \<Longrightarrow>
    lock_step w (CasFail p) (at_phase p (Asleep s) w)"
| retry: "lw_phase w p = Asleep s \<Longrightarrow> lw_time w < s + 1 \<Longrightarrow>
    lock_step w (Retry p) (at_phase p (Trying s) w)"
| timeout: "lw_phase w p = Asleep s \<Longrightarrow> s + 1 \<le> lw_time w \<Longrightarrow>
    lock_step w (Timeout p) (at_phase p Inside w)"
| unlock: "lw_phase w p = Inside \<Longrightarrow>
    lock_step w (Unlock p) (at_phase p Outside (w\<lparr>lw_lock := STATE_FREE\<rparr>))"
| die: "lw_phase w p = Inside \<Longrightarrow> lock_step w (Die p) (at_phase p Outside w)"
| tick: "lock_step w Tick (w\<lparr>lw_time := lw_time w + 1\<rparr>)"

inductive_simps lock_step_simps: "lock_step w e w'"

definition lock_start :: "lock_world \<Rightarrow> bool" where
  "lock_start w \<longleftrightarrow> lw_lock w = STATE_FREE \<and> (\<forall>p. lw_phase w p = Outside)"

definition no_timeout :: "lock_event \<Rightarrow> bool" where
  "no_timeout e \<longleftrightarrow> (\<forall>p. e \<noteq> Timeout p)"

definition lock_inv :: "lock_world \<Rightarrow> bool" where
  "lock_inv w \<longleftrightarrow> (\<forall>p. lw_phase w p = Inside \<longrightarrow> lw_lock w = STATE_IN_USE) \<and>
     (\<forall>p q. lw_phase w p = Inside \<longrightarrow> lw_phase w q = Inside \<longrightarrow> p = q)"

lemma states_differ [simp]: "STATE_FREE \<noteq> STATE_IN_USE" "STATE_IN_USE \<noteq> STATE_FREE"
  by (simp_all add: STATE_FREE_def STATE_IN_USE_def)

lemma lock_step_inv: "lock_inv w \<Longrightarrow> lock_step w e w' \<Longrightarrow> no_timeout e \<Longrightarrow> lock_inv w'"
  by (erule lock_step.cases) (auto simp: lock_inv_def no_timeout_def split: if_splits)

interpretation log_lock_machine: machine lock_start lock_step no_timeout lock_inv
proof unfold_locales
  show "lock_start w \<Longrightarrow> lock_inv w" for w by (simp add: lock_start_def lock_inv_def)
  show "lock_inv w \<Longrightarrow> lock_step w e w' \<Longrightarrow> no_timeout e \<Longrightarrow> lock_inv w'" for w e w'
    by (rule lock_step_inv)
qed

text \<open>
  While no call of \<open>pgprtdbg_log_lock\<close> gives up, at most one process is between its lock and
  its unlock, in every interleaving of any number of processes.
\<close>

theorem log_lock_mutual_exclusion:
  assumes "lock_start w" "runs lock_step w es w'" "\<forall>e \<in> set es. no_timeout e"
    and "lw_phase w' p = Inside" "lw_phase w' q = Inside"
  shows "p = q"
  using log_lock_machine.runs_from_initial [OF assms(2,1,3)] assms(4,5) by (auto simp: lock_inv_def)

definition lock_world_0 :: lock_world where
  "lock_world_0 = \<lparr>lw_lock = STATE_FREE, lw_time = 0, lw_phase = (\<lambda>_. Outside)\<rparr>"

lemma run_one_inside:
  "runs lock_step lock_world_0 [Call 0, CasOk 0] (at_phase 0 Inside (lock_world_0\<lparr>lw_lock := STATE_IN_USE\<rparr>))"
proof (rule runs_Cons)
  show "lock_step lock_world_0 (Call 0) (at_phase 0 (Trying 0) lock_world_0)"
    using lock_step.call [of lock_world_0 0] by (simp add: lock_world_0_def)
  show "runs lock_step (at_phase 0 (Trying 0) lock_world_0) [CasOk 0]
      (at_phase 0 Inside (lock_world_0\<lparr>lw_lock := STATE_IN_USE\<rparr>))"
    using lock_step.cas_ok [of "at_phase 0 (Trying 0) lock_world_0" 0 0]
    by (auto simp: lock_world_0_def intro!: runs_Cons [OF _ runs_Nil])
qed

theorem log_lock_mutual_exclusion_witness:
  "\<exists>w'. runs lock_step lock_world_0 [Call 0, CasOk 0] w' \<and> lw_phase w' 0 = Inside \<and>
    (\<forall>q. lw_phase w' q = Inside \<longrightarrow> 0 = q)"
proof -
  let ?w = "at_phase 0 Inside (lock_world_0\<lparr>lw_lock := STATE_IN_USE\<rparr>)"
  have "lock_start lock_world_0" "\<forall>e \<in> set [Call 0, CasOk 0]. no_timeout e" "lw_phase ?w 0 = Inside"
    by (simp_all add: lock_start_def lock_world_0_def no_timeout_def)
  with run_one_inside log_lock_mutual_exclusion [of lock_world_0 "[Call 0, CasOk 0]" ?w 0] show ?thesis
    by blast
qed

text \<open>
  With a call that gives up, mutual exclusion is lost: the call returns as if it held the lock,
  and its unlock then frees the lock that another process still holds.
\<close>

theorem log_lock_timeout_breaks_exclusion:
  "\<exists>w1 w2. runs lock_step lock_world_0
      [Call 0, CasOk 0, Call 1, CasFail 1, Tick, Timeout 1] w1 \<and>
    lw_phase w1 0 = Inside \<and> lw_phase w1 1 = Inside \<and>
    lock_step w1 (Unlock 1) w2 \<and> lw_phase w2 0 = Inside \<and> lw_lock w2 = STATE_FREE"
proof -
  let ?a = "at_phase 0 Inside (lock_world_0\<lparr>lw_lock := STATE_IN_USE\<rparr>)"
  let ?b = "at_phase 1 (Trying 0) ?a" and ?c = "at_phase 1 (Asleep 0) ?a"
  let ?d = "at_phase 1 (Asleep 0) (?a\<lparr>lw_time := 1\<rparr>)" and ?e = "at_phase 1 Inside (?a\<lparr>lw_time := 1\<rparr>)"
  have steps: "lock_step ?a (Call 1) ?b" "lock_step ?b (CasFail 1) ?c" "lock_step ?c Tick ?d"
      "lock_step ?d (Timeout 1) ?e"
    using lock_step.call [of ?a 1] lock_step.cas_fail [of ?b 1 0] lock_step.tick [of ?c]
      lock_step.timeout [of ?d 1 0]
    by (simp_all add: lock_world_0_def)
  have "runs lock_step ?a [Call 1, CasFail 1, Tick, Timeout 1] ?e"
    by (rule runs_Cons, rule steps(1), rule runs_Cons, rule steps(2), rule runs_Cons, rule steps(3),
        rule runs_Cons, rule steps(4), rule runs_Nil)
  then have run: "runs lock_step lock_world_0 [Call 0, CasOk 0, Call 1, CasFail 1, Tick, Timeout 1] ?e"
    using runs_append [OF run_one_inside] by simp
  have "lock_step ?e (Unlock 1) (at_phase 1 Outside (?e\<lparr>lw_lock := STATE_FREE\<rparr>))"
    by (rule lock_step.unlock) simp
  with run show ?thesis by (intro exI conjI) (assumption | simp)+
qed

end
