(* ===== verification/FeDecode.thy ===== *)
theory FeDecode
  imports Format
begin

text \<open>
  The decoders of the client's messages, the functions \<open>fe_*\<close> of
  \<open>src/src/libpgprtdbg/protocol.c\<close>. A decoder reads the block \<open>data\<close> from the message's first byte
  on, with \<open>len\<close> the message's length field (the static variable \<open>length\<close>), and yields what
  it logs; \<open>None\<close> is a read outside the block. The argument \<open>char** text\<close> is not used by any of
  them. Offsets and loop counters stay below the size of the block, so they do not overflow.
\<close>

section \<open>What a decoder logs\<close>

text \<open>A call of \<open>pgprtdbg_log_line\<close> with its formatted text, or of \<open>pgprtdbg_log_mem\<close>.\<close>

datatype log_item = Line ctext | Mem "byte list"

definition line :: "string \<Rightarrow> log_item" where
  "line s = Line (bs s)"

definition line_s :: "string \<Rightarrow> ctext \<Rightarrow> log_item" where
  "line_s s t = Line (bs s @ t)"

definition line_d16 :: "string \<Rightarrow> i16 \<Rightarrow> log_item" where
  "line_d16 s i = Line (bs s @ show_int (sint i))"

definition line_d32 :: "string \<Rightarrow> i32 \<Rightarrow> log_item" where
  "line_d32 s i = Line (bs s @ show_int (sint i))"

text \<open>The number of times \<open>for (T i = 0; i < n; i++)\<close> runs its body, for a signed \<open>n\<close>.\<close>

definition times :: "int \<Rightarrow> nat" where
  "times n = nat n"

section \<open>The startup message\<close>

text \<open>
  \<open>fe_zero\<close> handles the messages without a kind byte. The first loop counts the NUL bytes from
  offset 8 to \<open>length - 2\<close>; the second cuts the same bytes at them, \<open>start\<close> to \<open>end\<close> being the
  accumulated piece; a piece without a NUL at the end is dropped. What follows the decoding is its
  result: nothing, the refusal of a version 2 client, or \<open>exit (1)\<close>.
\<close>

datatype zero_result = Continue | Refuse | Exit_1

fun split_params :: "ctext \<Rightarrow> byte list \<Rightarrow> ctext list" where
  "split_params cur [] = []"
| "split_params cur (c # cs) = (if c = 0 then cur # split_params [] cs else split_params (cur @ [c]) cs)"

definition startup_params :: "byte list \<Rightarrow> i32 \<Rightarrow> ctext list option" where
  "startup_params data len = do {
     n \<leftarrow> c_int (sint len - 1);
     (bytes, off) \<leftarrow> rep (times (n - 8)) (take_byte data) 8;
     Some (split_params [] bytes) }"

definition fe_zero :: "byte list \<Rightarrow> i32 \<Rightarrow> (log_item list \<times> zero_result) option" where
  "fe_zero data len = do {
     request \<leftarrow> read_int32 data 4;
     let head = [line ''FE: 0'', line_d32 ''    Request: '' request];
     if request = 196608 then do {
       params \<leftarrow> startup_params data len;
       Some (head @ map (line_s ''    Data: '') params, Continue) }
     else if request = 80877102 then do {
       pid \<leftarrow> read_int32 data 8;
       secret \<leftarrow> read_int32 data 12;
       Some (head @ [line_d32 ''    PID: '' pid, line_d32 ''    Secret: '' secret], Continue) }
     else if request = 80877103 then Some (head, Continue)
     else if request = 80877104 then Some (head, Continue)
     else if request = 131072 then Some (head, Refuse)
     else Some (head, Exit_1) }"

section \<open>The messages with a kind byte\<close>

text \<open>One value of a \<open>Bind\<close> message: a size, and that many bytes unless the size is -1.\<close>

definition take_value :: "byte list \<Rightarrow> nat \<Rightarrow> (byte list option \<times> nat) option" where
  "take_value data off = do {
     (size, off) \<leftarrow> take_int32 data off;
     if size \<noteq> - 1 then do {
       (bytes, off) \<leftarrow> rep (times (sint size)) (take_byte data) off;
       Some (Some bytes, off) }
     else Some (None, off) }"

definition fe_B :: "byte list \<Rightarrow> log_item list option" where
  "fe_B data = do {
     (destination, off) \<leftarrow> take_string data 5;
     (source, off) \<leftarrow> take_string data off;
     (codes, off) \<leftarrow> take_int16 data off;
     (_, off) \<leftarrow> rep (times (sint codes)) (take_int16 data) off;
     (values, off) \<leftarrow> take_int16 data off;
     (_, off) \<leftarrow> rep (times (sint values)) (take_value data) off;
     (results, off) \<leftarrow> take_int16 data off;
     (_, off) \<leftarrow> rep (times (sint results)) (take_int16 data) off;
     Some [line ''FE: B'', line_s ''    Destination: '' destination, line_s ''    Source: '' source,
       line_d16 ''    Codes: '' codes, line_d16 ''    Values: '' values,
       line_d16 ''    Results: '' results] }"

definition fe_C :: "byte list \<Rightarrow> log_item list option" where
  "fe_C data = do {
     (type, off) \<leftarrow> take_byte data 5;
     (portal, off) \<leftarrow> take_string data off;
     Some [line ''FE: C'', line_s ''    Type: '' [type], line_s ''    Portal: '' portal] }"

definition fe_D :: "byte list \<Rightarrow> log_item list option" where
  "fe_D data = do {
     (type, off) \<leftarrow> take_byte data 5;
     (name, off) \<leftarrow> take_string data off;
     Some [line ''FE: D'', line_s ''    Type: '' [type], line_s ''    Name: '' name] }"

definition fe_E :: "byte list \<Rightarrow> log_item list option" where
  "fe_E data = do {
     (portal, off) \<leftarrow> take_string data 5;
     (rows, off) \<leftarrow> take_int32 data off;
     Some [line ''FE: E'', line_s ''    Portal: '' portal, line_d32 ''    MaxRows: '' rows] }"

definition fe_F :: "byte list \<Rightarrow> log_item list option" where
  "fe_F data = Some []"

definition fe_H :: "byte list \<Rightarrow> log_item list option" where
  "fe_H data = Some [line ''FE: H'']"

definition fe_P :: "byte list \<Rightarrow> log_item list option" where
  "fe_P data = do {
     (destination, off) \<leftarrow> take_string data 5;
     (query, off) \<leftarrow> take_string data off;
     (parameters, off) \<leftarrow> take_int16 data off;
     (oids, off) \<leftarrow> rep (times (sint parameters)) (take_int32 data) off;
     Some ([line ''FE: P'', line_s ''    Destination: '' destination, line_s ''    Query: '' query,
       line_d16 ''    Parameters: '' parameters] @ map (line_d32 ''    OID: '') oids) }"

definition fe_Q :: "byte list \<Rightarrow> log_item list option" where
  "fe_Q data = do {
     (query, off) \<leftarrow> take_string data 5;
     Some [line ''FE: Q'', line_s ''    Query: '' query] }"

definition fe_S :: "byte list \<Rightarrow> log_item list option" where
  "fe_S data = Some [line ''FE: S'']"

definition fe_X :: "byte list \<Rightarrow> log_item list option" where
  "fe_X data = Some [line ''FE: X'']"

definition fe_c :: "byte list \<Rightarrow> log_item list option" where
  "fe_c data = Some [line ''FE: c'']"

definition fe_d :: "byte list \<Rightarrow> i32 \<Rightarrow> log_item list option" where
  "fe_d data len = do {
     n \<leftarrow> c_int (sint len - 4);
     (_, off) \<leftarrow> rep (times n) (take_byte data) 5;
     Some [line ''FE: d'', line_s ''    Size: '' (show_int n)] }"

definition fe_f :: "byte list \<Rightarrow> log_item list option" where
  "fe_f data = do {
     (failure, off) \<leftarrow> take_string data 5;
     Some [line ''FE: f'', line_s ''    Failure: '' failure] }"

text \<open>
  \<open>pgprtdbg_log_mem (data + o, length - 4)\<close>: the size becomes a \<open>size_t\<close>, so a negative one stands
  for a run of memory that no block holds.
\<close>

definition fe_p :: "byte list \<Rightarrow> i32 \<Rightarrow> log_item list option" where
  "fe_p data len = do {
     n \<leftarrow> c_int (sint len - 4);
     bytes \<leftarrow> mem_range data 5 n;
     Some [line ''FE: p'', Mem bytes] }"

text \<open>The \<open>switch (kind)\<close> of \<open>pgprtdbg_client\<close>.\<close>

abbreviation ch :: "char \<Rightarrow> byte" where
  "ch c \<equiv> of_char c"

definition fe_dispatch :: "byte \<Rightarrow> byte list \<Rightarrow> i32 \<Rightarrow> log_item list option" where
  "fe_dispatch kind data len =
     (if kind = ch CHR ''B'' then fe_B data
      else if kind = ch CHR ''C'' then fe_C data
      else if kind = ch CHR ''D'' then fe_D data
      else if kind = ch CHR ''E'' then fe_E data
      else if kind = ch CHR ''F'' then fe_F data
      else if kind = ch CHR ''H'' then fe_H data
      else if kind = ch CHR ''P'' then fe_P data
      else if kind = ch CHR ''Q'' then fe_Q data
      else if kind = ch CHR ''S'' then fe_S data
      else if kind = ch CHR ''X'' then fe_X data
      else if kind = ch CHR ''c'' then fe_c data
      else if kind = ch CHR ''d'' then fe_d data len
      else if kind = ch CHR ''f'' then fe_f data
      else if kind = ch CHR ''p'' then fe_p data len
      else Some [line_s ''Unsupported client message: '' (show_int (sint kind))])"

section \<open>The messages of the protocol\<close>

text \<open>
  The specification: the messages a version 3 client sends, with their fields, and their wire form
  as the PostgreSQL protocol has it (a kind byte, the length of what follows including itself, the
  fields). \<open>Other\<close> is any message of a kind that the program does not decode.
\<close>

datatype fe_msg =
    Bind ctext ctext "i16 list" "byte list option list" "i16 list"
  | Close byte ctext
  | Describe byte ctext
  | Execute ctext i32
  | FunctionCall "byte list"
  | Flush
  | Parse ctext ctext "i32 list"
  | Query ctext
  | Sync
  | Terminate
  | CopyDone
  | CopyData "byte list"
  | CopyFail ctext
  | Password "byte list"
  | OtherFe byte "byte list"

definition enc_value :: "byte list option \<Rightarrow> byte list" where
  "enc_value v = (case v of None \<Rightarrow> be32 (- 1) | Some b \<Rightarrow> be32 (word_of_nat (length b)) @ b)"

definition counted :: "('a \<Rightarrow> byte list) \<Rightarrow> 'a list \<Rightarrow> byte list" where
  "counted enc xs = be16 (word_of_nat (length xs)) @ concat (map enc xs)"

fun fe_kind :: "fe_msg \<Rightarrow> byte" where
  "fe_kind (Bind _ _ _ _ _) = ch CHR ''B''"
| "fe_kind (Close _ _) = ch CHR ''C''"
| "fe_kind (Describe _ _) = ch CHR ''D''"
| "fe_kind (Execute _ _) = ch CHR ''E''"
| "fe_kind (FunctionCall _) = ch CHR ''F''"
| "fe_kind Flush = ch CHR ''H''"
| "fe_kind (Parse _ _ _) = ch CHR ''P''"
| "fe_kind (Query _) = ch CHR ''Q''"
| "fe_kind Sync = ch CHR ''S''"
| "fe_kind Terminate = ch CHR ''X''"
| "fe_kind CopyDone = ch CHR ''c''"
| "fe_kind (CopyData _) = ch CHR ''d''"
| "fe_kind (CopyFail _) = ch CHR ''f''"
| "fe_kind (Password _) = ch CHR ''p''"
| "fe_kind (OtherFe k _) = k"

fun fe_payload :: "fe_msg \<Rightarrow> byte list" where
  "fe_payload (Bind d s cs vs rs) =
     zstr d @ zstr s @ counted be16 cs @ counted enc_value vs @ counted be16 rs"
| "fe_payload (Close t p) = t # zstr p"
| "fe_payload (Describe t n) = t # zstr n"
| "fe_payload (Execute p n) = zstr p @ be32 n"
| "fe_payload (FunctionCall b) = b"
| "fe_payload Flush = []"
| "fe_payload (Parse d q oids) = zstr d @ zstr q @ counted be32 oids"
| "fe_payload (Query q) = zstr q"
| "fe_payload Sync = []"
| "fe_payload Terminate = []"
| "fe_payload CopyDone = []"
| "fe_payload (CopyData b) = b"
| "fe_payload (CopyFail s) = zstr s"
| "fe_payload (Password b) = b"
| "fe_payload (OtherFe _ b) = b"

definition frame :: "byte \<Rightarrow> byte list \<Rightarrow> byte list" where
  "frame kind payload = kind # be32 (word_of_nat (4 + length payload)) @ payload"

definition enc_fe :: "fe_msg \<Rightarrow> byte list" where
  "enc_fe m = frame (fe_kind m) (fe_payload m)"

text \<open>The kinds that \<open>fe_dispatch\<close> knows, and the limits of the wire form.\<close>

definition fe_kinds :: "byte set" where
  "fe_kinds = ch ` set ''BCDEFHPQSXcdfp''"

definition short :: "'a list \<Rightarrow> bool" where
  "short xs \<longleftrightarrow> length xs < 2 ^ 15"

definition fits :: "byte list \<Rightarrow> bool" where
  "fits b \<longleftrightarrow> length b < 2 ^ 31 - 5"

definition value_ok :: "byte list option \<Rightarrow> bool" where
  "value_ok v \<longleftrightarrow> (case v of None \<Rightarrow> True | Some b \<Rightarrow> fits b)"

fun fe_fields_ok :: "fe_msg \<Rightarrow> bool" where
  "fe_fields_ok (Bind d s cs vs rs) = (nul_free d \<and> nul_free s \<and> short cs \<and> short vs \<and> short rs \<and>
     list_all value_ok vs)"
| "fe_fields_ok (Close t p) = nul_free p"
| "fe_fields_ok (Describe t n) = nul_free n"
| "fe_fields_ok (Execute p n) = nul_free p"
| "fe_fields_ok (Parse d q oids) = (nul_free d \<and> nul_free q \<and> short oids)"
| "fe_fields_ok (Query q) = nul_free q"
| "fe_fields_ok (CopyFail s) = nul_free s"
| "fe_fields_ok (OtherFe k b) = (k \<noteq> 0 \<and> k \<notin> fe_kinds)"
| "fe_fields_ok _ = True"

definition fe_ok :: "fe_msg \<Rightarrow> bool" where
  "fe_ok m \<longleftrightarrow> fe_fields_ok m \<and> fits (fe_payload m)"

text \<open>What the program is to log about a message.\<close>

fun fe_log :: "fe_msg \<Rightarrow> log_item list" where
  "fe_log (Bind d s cs vs rs) =
     [line ''FE: B'', line_s ''    Destination: '' d, line_s ''    Source: '' s,
      line_s ''    Codes: '' (show_nat (length cs)), line_s ''    Values: '' (show_nat (length vs)),
      line_s ''    Results: '' (show_nat (length rs))]"
| "fe_log (Close t p) = [line ''FE: C'', line_s ''    Type: '' [t], line_s ''    Portal: '' p]"
| "fe_log (Describe t n) = [line ''FE: D'', line_s ''    Type: '' [t], line_s ''    Name: '' n]"
| "fe_log (Execute p n) =
     [line ''FE: E'', line_s ''    Portal: '' p, line_s ''    MaxRows: '' (show_int (sint n))]"
| "fe_log (FunctionCall b) = []"
| "fe_log Flush = [line ''FE: H'']"
| "fe_log (Parse d q oids) =
     [line ''FE: P'', line_s ''    Destination: '' d, line_s ''    Query: '' q,
      line_s ''    Parameters: '' (show_nat (length oids))] @
     map (\<lambda>i. line_s ''    OID: '' (show_int (sint i))) oids"
| "fe_log (Query q) = [line ''FE: Q'', line_s ''    Query: '' q]"
| "fe_log Sync = [line ''FE: S'']"
| "fe_log Terminate = [line ''FE: X'']"
| "fe_log CopyDone = [line ''FE: c'']"
| "fe_log (CopyData b) = [line ''FE: d'', line_s ''    Size: '' (show_nat (length b))]"
| "fe_log (CopyFail s) = [line ''FE: f'', line_s ''    Failure: '' s]"
| "fe_log (Password b) = [line ''FE: p'', Mem b]"
| "fe_log (OtherFe k b) = [line_s ''Unsupported client message: '' (show_int (sint k))]"


section \<open>The decoders read what the protocol writes\<close>

lemma frame_at: "at (frame kind payload @ rest) 5 (payload @ rest)"
  using at_append [of 5 "kind # be32 (word_of_nat (4 + length payload))" "payload @ rest"]
  by (simp add: frame_def)

lemma sint_short: "n < 2 ^ 15 \<Longrightarrow> sint (word_of_nat n :: i16) = int n"
  by (simp add: signed_of_nat signed_take_bit_int_eq_self)

lemma sint_length: "n < 2 ^ 31 \<Longrightarrow> sint (word_of_nat n :: i32) = int n"
  by (simp add: signed_of_nat signed_take_bit_int_eq_self)

lemma times_int [simp]: "times (int n) = n"
  by (simp add: times_def)

lemma bytes_at: "at data off (b @ post) \<Longrightarrow>
  \<exists>off'. rep (length b) (take_byte data) off = Some (b, off') \<and> at data off' post"
  using byte_field.rep_at [where xs = b and data = data and off = off and post = post] by (simp add: list.pred_True)

text \<open>A count and that many fields, where the fields obey the law of \<open>wire_field\<close>.\<close>

context wire_field begin

lemma counted_at: "list_all wf xs \<Longrightarrow> short xs \<Longrightarrow> at data off (counted enc xs @ post) \<Longrightarrow>
  \<exists>w off1 off2. take_int16 data off = Some (w, off1) \<and> sint w = int (length xs) \<and>
    rep (length xs) (rd data) off1 = Some (xs, off2) \<and> at data off2 post"
  using int16_field.rd_at [where x = "word_of_nat (length xs)" and data = data and off = off
      and post = "concat (map enc xs) @ post"]
    rep_at [where xs = xs and data = data and post = post]
  by (fastforce simp: counted_def short_def sint_short)

end

lemma take_value_at:
  assumes "value_ok v" "at data off (enc_value v @ post)"
  shows "\<exists>off'. take_value data off = Some (v, off') \<and> at data off' post"
proof (cases v)
  case None
  with int32_field.rd_at [where x = "- 1" and data = data and off = off and post = post] assms(2) show ?thesis
    by (auto simp: take_value_def enc_value_def)
next
  case (Some b)
  let ?n = "word_of_nat (length b) :: i32"
  have n: "sint ?n = int (length b)" using assms(1) Some by (simp add: value_ok_def fits_def sint_length)
  then have ne: "?n \<noteq> - 1" by auto
  from int32_field.rd_at [where x = ?n and data = data and off = off and post = "b @ post"] assms(2) Some obtain off1 where
    1: "take_int32 data off = Some (?n, off1)" "at data off1 (b @ post)" by (auto simp: enc_value_def)
  from bytes_at [OF 1(2)] obtain off2 where
    "rep (length b) (take_byte data) off1 = Some (b, off2)" "at data off2 post" by blast
  with 1 ne n Some show ?thesis by (simp add: take_value_def)
qed

interpretation value_field: wire_field enc_value take_value value_ok
  by unfold_locales (rule take_value_at)


lemma string_at: "nul_free s \<Longrightarrow> at data off (zstr s @ post) \<Longrightarrow>
  \<exists>off'. take_string data off = Some (s, off') \<and> at data off' post"
  by (rule string_field.rd_at)

lemma byte_at: "at data off (b # post) \<Longrightarrow>
  \<exists>off'. take_byte data off = Some (b, off') \<and> at data off' post"
  using take_at(1) by blast

lemma int32_at: "at data off (be32 v @ post) \<Longrightarrow>
  \<exists>off'. take_int32 data off = Some (v, off') \<and> at data off' post"
  using take_at(3) by blast

lemma int32s_at: "at data off (concat (map be32 xs) @ post) \<Longrightarrow>
  \<exists>off'. rep (length xs) (take_int32 data) off = Some (xs, off') \<and> at data off' post"
  using int32_field.rep_at [where xs = xs and data = data and off = off and post = post]
  by (simp add: list.pred_True)

lemmas counted_int16_at = int16_field.counted_at [simplified list.pred_True, simplified]
lemmas counted_int32_at = int32_field.counted_at [simplified list.pred_True, simplified]

lemma fe_B_at:
  assumes "fe_fields_ok (Bind d s cs vs rs)" "at data 5 (fe_payload (Bind d s cs vs rs) @ rest)"
  shows "fe_B data = Some (fe_log (Bind d s cs vs rs))"
proof -
  from string_at [of d data 5] assms obtain o1 where
    1: "take_string data 5 = Some (d, o1)"
    "at data o1 (zstr s @ counted be16 cs @ counted enc_value vs @ counted be16 rs @ rest)" by force
  from string_at [OF _ 1(2)] assms obtain o2 where
    2: "take_string data o1 = Some (s, o2)"
    "at data o2 (counted be16 cs @ counted enc_value vs @ counted be16 rs @ rest)" by force
  from counted_int16_at [OF _ 2(2)] assms(1) obtain w3 o3 p3 where
    3: "take_int16 data o2 = Some (w3, o3)" "sint w3 = int (length cs)"
    "rep (length cs) (take_int16 data) o3 = Some (cs, p3)"
    "at data p3 (counted enc_value vs @ counted be16 rs @ rest)" by force
  from value_field.counted_at [OF _ _ 3(4)] assms(1) obtain w4 o4 p4 where
    4: "take_int16 data p3 = Some (w4, o4)" "sint w4 = int (length vs)"
    "rep (length vs) (take_value data) o4 = Some (vs, p4)" "at data p4 (counted be16 rs @ rest)"
    by force
  from counted_int16_at [OF _ 4(4)] assms(1) obtain w5 o5 p5 where
    5: "take_int16 data p4 = Some (w5, o5)" "sint w5 = int (length rs)"
    "rep (length rs) (take_int16 data) o5 = Some (rs, p5)" by force
  from 1 2 3 4 5 show ?thesis
    by (simp add: fe_B_def line_d16_def line_s_def show_int_def)
qed

lemma fe_P_at:
  assumes "fe_fields_ok (Parse d q oids)" "at data 5 (fe_payload (Parse d q oids) @ rest)"
  shows "fe_P data = Some (fe_log (Parse d q oids))"
proof -
  from string_at [of d data 5] assms obtain o1 where
    1: "take_string data 5 = Some (d, o1)" "at data o1 (zstr q @ counted be32 oids @ rest)" by force
  from string_at [OF _ 1(2)] assms obtain o2 where
    2: "take_string data o1 = Some (q, o2)" "at data o2 (counted be32 oids @ rest)" by force
  from counted_int32_at [OF _ 2(2)] assms(1) obtain w3 o3 p3 where
    3: "take_int16 data o2 = Some (w3, o3)" "sint w3 = int (length oids)"
    "rep (length oids) (take_int32 data) o3 = Some (oids, p3)" by force
  from 1 2 3 show ?thesis
    by (simp add: fe_P_def line_d16_def line_d32_def line_s_def show_int_def)
qed

lemma fe_E_at:
  assumes "nul_free p" "at data 5 (zstr p @ be32 n @ rest)"
  shows "fe_E data = Some (fe_log (Execute p n))"
proof -
  from string_at [OF assms] obtain o1 where
    1: "take_string data 5 = Some (p, o1)" "at data o1 (be32 n @ rest)" by blast
  from int32_at [OF 1(2)] 1 show ?thesis
    by (auto simp: fe_E_def line_d32_def line_s_def)
qed

lemma fe_typed_at:
  assumes "nul_free p" "at data 5 (t # zstr p @ rest)"
  shows "fe_C data = Some (fe_log (Close t p))" "fe_D data = Some (fe_log (Describe t p))"
proof -
  from byte_at [OF assms(2)] obtain o1 where
    1: "take_byte data 5 = Some (t, o1)" "at data o1 (zstr p @ rest)" by blast
  from string_at [OF assms(1) 1(2)] 1 show "fe_C data = Some (fe_log (Close t p))"
    and "fe_D data = Some (fe_log (Describe t p))" by (auto simp: fe_C_def fe_D_def)
qed

lemma fe_string_at:
  assumes "nul_free s" "at data 5 (zstr s @ rest)"
  shows "fe_Q data = Some (fe_log (Query s))" "fe_f data = Some (fe_log (CopyFail s))"
  using string_at [OF assms] by (auto simp: fe_Q_def fe_f_def)

definition wire_len :: "byte list \<Rightarrow> i32" where
  "wire_len payload = word_of_nat (4 + length payload)"

lemma sint_wire_len: "fits p \<Longrightarrow> sint (wire_len p) = 4 + int (length p)"
  unfolding wire_len_def fits_def by (subst sint_length) simp_all

lemma c_int_payload: "fits p \<Longrightarrow> c_int (sint (wire_len p) - 4) = Some (int (length p))"
  by (simp add: sint_wire_len fits_def c_int_in)

lemma fe_d_at:
  assumes "fits b" "at data 5 (b @ rest)"
  shows "fe_d data (wire_len b) = Some (fe_log (CopyData b))"
  using bytes_at [OF assms(2)] by (auto simp: fe_d_def c_int_payload [OF assms(1)] show_int_def)

lemma fe_p_at:
  assumes "fits b" "at data 5 (b @ rest)"
  shows "fe_p data (wire_len b) = Some (fe_log (Password b))"
  using assms(2) by (auto simp: fe_p_def c_int_payload [OF assms(1)] mem_range_def at_split)

lemmas fe_at = fe_B_at fe_P_at fe_E_at fe_typed_at fe_string_at fe_d_at fe_p_at

lemma ch_nonzero: "of_char c \<noteq> (0 :: byte)" if "c \<noteq> CHR 0x00"
proof -
  have "(0 :: byte) = of_char CHR 0x00" by simp
  with that show ?thesis by (metis of_char_byte_eq)
qed

lemma ch_not_nul: "nul_free (bs s) \<longleftrightarrow> CHR 0x00 \<notin> set s"
proof -
  have z: "(0 :: byte) = of_char CHR 0x00" by simp
  show ?thesis
    unfolding nul_free_def bs_facts z image_iff of_char_byte_eq by auto
qed

lemma fe_dispatch_at:
  assumes "fe_ok m" "at data 5 (fe_payload m @ rest)"
  shows "fe_dispatch (fe_kind m) data (wire_len (fe_payload m)) = Some (fe_log m)"
proof (cases m)
  case (OtherFe k b)
  with assms(1) show ?thesis
    by (simp add: fe_ok_def fe_dispatch_def fe_kinds_def del: of_char_Char)
qed (use assms in \<open>auto simp: fe_ok_def fe_dispatch_def fe_F_def fe_H_def fe_S_def
    fe_X_def fe_c_def simp del: of_char_Char intro!: fe_at [simplified]\<close>)

text \<open>
  C25. The client's decoders are right about every well-formed message: whatever follows it in the
  block, decoding the wire form of a message logs that message's fields and nothing else, without
  reading outside the block.
\<close>

theorem client_decoding:
  assumes "fe_ok m"
  shows "fe_dispatch (fe_kind m) (enc_fe m @ rest) (word_of_nat (4 + length (fe_payload m))) =
    Some (fe_log m)"
  using fe_dispatch_at [OF assms, of "enc_fe m @ rest" rest] frame_at
  by (simp add: enc_fe_def wire_len_def)

theorem client_decoding_witness:
  "fe_dispatch (ch CHR ''P'') (enc_fe (Parse (bs ''s1'') (bs ''SELECT $1'') [23, 25]) @ [0x53])
     (word_of_nat (4 + length (fe_payload (Parse (bs ''s1'') (bs ''SELECT $1'') [23, 25])))) =
   Some [line ''FE: P'', line_s ''    Destination: '' (bs ''s1''), line_s ''    Query: '' (bs ''SELECT $1''),
     line_s ''    Parameters: '' (show_nat 2), line_s ''    OID: '' (show_int 23),
     line_s ''    OID: '' (show_int 25)]"
proof -
  have "fe_ok (Parse (bs ''s1'') (bs ''SELECT $1'') [23, 25])"
    by (simp add: fe_ok_def ch_not_nul short_def fits_def counted_def del: of_char_Char)
  from client_decoding [OF this, of "[0x53]"] show ?thesis
    by (simp add: numeral_2_eq_2 del: of_char_Char)
qed


section \<open>The startup message, as the protocol has it\<close>

text \<open>
  The messages without a kind, version 2 and unknown requests apart: the length, a request code and
  what belongs to it. The parameters of a \<open>Startup\<close> are strings, ended by one more NUL.
\<close>

datatype start_msg = Startup "ctext list" | Cancel i32 i32 | SslRequest | GssRequest

fun start_body :: "start_msg \<Rightarrow> byte list" where
  "start_body (Startup ps) = be32 196608 @ concat (map zstr ps) @ [0]"
| "start_body (Cancel pid secret) = be32 80877102 @ be32 pid @ be32 secret"
| "start_body SslRequest = be32 80877103"
| "start_body GssRequest = be32 80877104"

definition enc_start :: "start_msg \<Rightarrow> byte list" where
  "enc_start s = be32 (wire_len (start_body s)) @ start_body s"

definition start_ok :: "start_msg \<Rightarrow> bool" where
  "start_ok s \<longleftrightarrow> length (start_body s) < 2 ^ 24 - 4 \<and>
     (case s of Startup ps \<Rightarrow> list_all nul_free ps | _ \<Rightarrow> True)"

fun start_request :: "start_msg \<Rightarrow> i32" where
  "start_request (Startup ps) = 196608"
| "start_request (Cancel pid secret) = 80877102"
| "start_request SslRequest = 80877103"
| "start_request GssRequest = 80877104"

definition start_log :: "start_msg \<Rightarrow> log_item list" where
  "start_log s = [line ''FE: 0'', line_s ''    Request: '' (show_int (sint (start_request s)))] @
     (case s of
        Startup ps \<Rightarrow> map (line_s ''    Data: '') ps
      | Cancel pid secret \<Rightarrow> [line_s ''    PID: '' (show_int (sint pid)),
          line_s ''    Secret: '' (show_int (sint secret))]
      | _ \<Rightarrow> [])"

lemma read_int32_there: "at data off (be32 v @ post) \<Longrightarrow> read_int32 data off = Some v"
  using take_at(3) [of data off v post] by (auto simp: take_int32_def)

lemma split_params_zstr: "nul_free s \<Longrightarrow> split_params cur (zstr s @ cs) = (cur @ s) # split_params [] cs"
  by (induction s arbitrary: cur) (auto simp: zstr_def nul_free_def)

lemma split_params_all: "list_all nul_free ps \<Longrightarrow> split_params [] (concat (map zstr ps)) = ps"
  by (induction ps) (simp_all add: split_params_zstr)

lemma sint_start_len:
  "length (start_body s) < 2 ^ 24 - 4 \<Longrightarrow> sint (wire_len (start_body s)) = 4 + int (length (start_body s))"
  by (rule sint_wire_len) (simp add: fits_def)

lemma startup_params_at:
  assumes "list_all nul_free ps" "length (start_body (Startup ps)) < 2 ^ 24 - 4"
    "at data 8 (concat (map zstr ps) @ post)"
  shows "startup_params data (wire_len (start_body (Startup ps))) = Some ps"
proof -
  let ?bytes = "concat (map zstr ps)"
  have "c_int (sint (wire_len (start_body (Startup ps))) - 1) = Some (8 + int (length ?bytes))"
    using assms(2) by (subst sint_start_len [OF assms(2)]) (simp add: c_int_in)
  moreover from bytes_at [OF assms(3)] obtain off where
    "rep (length ?bytes) (take_byte data) 8 = Some (?bytes, off)" by blast
  ultimately show ?thesis
    using split_params_all [OF assms(1)] by (simp add: startup_params_def)
qed

lemma at_skip: "at data off (xs @ post) \<Longrightarrow> at data (off + length xs) post"
  by (auto simp: at_split intro: exI [of _ "_ @ xs"])

lemma fe_zero_at:
  assumes "start_ok s" "at data 0 (enc_start s @ rest)"
  shows "fe_zero data (wire_len (start_body s)) = Some (start_log s, Continue)"
proof -
  have body: "at data 4 (start_body s @ rest)"
    using at_skip [of data 0 "be32 (wire_len (start_body s))"] assms(2) by (simp add: enc_start_def)
  show ?thesis
  proof (cases s)
    case (Startup ps)
    then have request: "read_int32 data 4 = Some 196608"
      and params: "at data 8 (concat (map zstr ps) @ 0 # rest)"
      using body read_int32_there [of data 4 196608] at_skip [of data 4 "be32 196608"] by simp_all
    from startup_params_at [OF _ _ params] assms(1) Startup have
      "startup_params data (wire_len (start_body (Startup ps))) = Some ps"
      by (simp add: start_ok_def del: start_body.simps)
    with request Startup show ?thesis
      by (simp add: fe_zero_def start_log_def line_d32_def line_s_def del: start_body.simps)
  next
    case (Cancel pid secret)
    then have request: "read_int32 data 4 = Some 80877102"
      and 8: "at data 8 (be32 pid @ be32 secret @ rest)"
      using body read_int32_there [of data 4 80877102] at_skip [of data 4 "be32 80877102"] by simp_all
    from 8 have 12: "at data 12 (be32 secret @ rest)" using at_skip [of data 8 "be32 pid"] by simp
    from request read_int32_there [OF 8] read_int32_there [OF 12] Cancel show ?thesis
      by (simp add: fe_zero_def start_log_def line_d32_def line_s_def Let_def)
  qed (use body read_int32_there [of data 4] in \<open>simp_all add: fe_zero_def start_log_def line_d32_def
      line_s_def Let_def\<close>)
qed

end
