(* ===== verification/BeDecode.thy ===== *)
theory BeDecode
  imports FeDecode
begin

text \<open>
  The decoders of the server's messages, the functions \<open>be_*\<close> of
  \<open>src/src/libpgprtdbg/protocol.c\<close>, in the same form as those of the client's in \<open>FeDecode\<close>.
\<close>

section \<open>The messages\<close>

definition be_one :: "byte list \<Rightarrow> log_item list option" where
  "be_one data = Some [line ''BE: 1'']"

definition be_two :: "byte list \<Rightarrow> log_item list option" where
  "be_two data = Some [line ''BE: 2'']"

definition be_three :: "byte list \<Rightarrow> log_item list option" where
  "be_three data = Some [line ''BE: 3'']"

definition be_A :: "byte list \<Rightarrow> log_item list option" where
  "be_A data = Some [line ''BE: A'']"

definition be_C :: "byte list \<Rightarrow> log_item list option" where
  "be_C data = do {
     (str, off) \<leftarrow> take_string data 5;
     Some [line ''BE: C'', line_s ''    Tag: '' str] }"

text \<open>
  A column of a \<open>DataRow\<close>: the local array of \<open>column_length\<close> bytes must not have a negative size
  (a size of zero is the empty array of GNU C; the stack is taken to be large enough). The counter
  \<open>i\<close> is an \<open>int16_t\<close> that wraps around.
\<close>

definition be_column :: "byte list \<Rightarrow> i16 \<Rightarrow> nat \<Rightarrow> (log_item list \<times> nat) option" where
  "be_column data i off = do {
     (column_length, off) \<leftarrow> take_int32 data off;
     let head = [line_d16 ''    Column: '' i, line_d32 ''    Length: '' column_length];
     if column_length \<noteq> - 1 then
       if sint column_length < 0 then None
       else do {
         (buf, off) \<leftarrow> rep (times (sint column_length)) (take_byte data) off;
         Some (head @ [line ''    Data: XXXX''], off) }
     else Some (head @ [line ''    Data: NULL''], off) }"

lemma rep_bound:
  assumes "\<And>off x off'. rd off = Some (x, off') \<Longrightarrow> off < off' \<and> off' \<le> bound"
  shows "rep n rd off = Some (xs, off') \<Longrightarrow> off \<le> bound \<Longrightarrow> off \<le> off' \<and> off' \<le> bound"
proof (induction n arbitrary: off xs)
  case (Suc n)
  then obtain x off1 ys where "rd off = Some (x, off1)" "rep n rd off1 = Some (ys, off')"
    by (auto split: Option.bind_splits)
  with assms [of off x off1] Suc.IH [of off1 ys] show ?case by simp
qed simp

lemma be_column_bound:
  assumes "be_column data i off = Some (lg, off')"
  shows "off < off' \<and> off' \<le> length data"
proof -
  from assms obtain n off1 where 1: "take_int32 data off = Some (n, off1)"
    by (auto simp: be_column_def split: Option.bind_splits)
  then have b: "off < off1 \<and> off1 \<le> length data" by (rule take_bound)
  have "off1 \<le> off' \<and> off' \<le> length data"
    if "rep k (take_byte data) off1 = Some (xs, off')" for k xs
    using rep_bound [OF take_bound(1) that] b by simp
  with assms 1 b show ?thesis
    by (force simp: be_column_def Let_def split: Option.bind_splits if_splits)
qed

function be_columns :: "byte list \<Rightarrow> i16 \<Rightarrow> i16 \<Rightarrow> nat \<Rightarrow> log_item list option" where
  "be_columns data number_of_columns i off =
     (if sint i \<le> sint number_of_columns then
        (case be_column data i off of
           None \<Rightarrow> None
         | Some (lg, off') \<Rightarrow>
             map_option (\<lambda>lgs. lg @ lgs) (be_columns data number_of_columns (i + 1) off'))
      else Some [])"
  by pat_completeness auto
termination
  by (relation "measure (\<lambda>(data, n, i, off). length data - off)") (auto dest!: be_column_bound)

declare be_columns.simps [simp del]

definition be_D :: "byte list \<Rightarrow> log_item list option" where
  "be_D data = do {
     (number_of_columns, off) \<leftarrow> take_int16 data 5;
     columns \<leftarrow> be_columns data number_of_columns 1 off;
     Some ([line ''BE: D'', line_d16 ''    Columns: '' number_of_columns] @ columns) }"

text \<open>\<open>while (o < length - 4)\<close>; a round reads at least two bytes.\<close>

function be_fields :: "byte list \<Rightarrow> int \<Rightarrow> nat \<Rightarrow> log_item list option" where
  "be_fields data bound off =
     (if int off < bound then
        (case (read_byte data off, read_string data (off + 1)) of
           (Some type, Some str) \<Rightarrow>
             map_option (\<lambda>lgs. [line_s ''    Code: '' [type], line_s ''    Value: '' str] @ lgs)
               (be_fields data bound (off + (length str + 2)))
         | _ \<Rightarrow> None)
      else Some [])"
  by pat_completeness auto
termination
  by (relation "measure (\<lambda>(data, bound, off). nat (bound - int off))") auto

declare be_fields.simps [simp del]

definition be_E :: "byte list \<Rightarrow> i32 \<Rightarrow> log_item list option" where
  "be_E data len = do {
     bound \<leftarrow> c_int (sint len - 4);
     fields \<leftarrow> be_fields data bound 5;
     Some ([line ''BE: E''] @ fields) }"

definition be_G :: "byte list \<Rightarrow> log_item list option" where
  "be_G data = Some [line ''BE: G'']"

definition be_H :: "byte list \<Rightarrow> log_item list option" where
  "be_H data = Some [line ''BE: H'']"

definition be_I :: "byte list \<Rightarrow> log_item list option" where
  "be_I data = Some [line ''BE: I'']"

definition be_K :: "byte list \<Rightarrow> log_item list option" where
  "be_K data = do {
     (process, off) \<leftarrow> take_int32 data 5;
     (secret, off) \<leftarrow> take_int32 data off;
     Some [line ''BE: K'', line_d32 ''    Process: '' process, line_d32 ''    Secret: '' secret] }"

definition be_N :: "byte list \<Rightarrow> log_item list option" where
  "be_N data = Some [line ''BE: N'']"

text \<open>\<open>while (o < length - 8)\<close> over the SASL mechanisms.\<close>

function be_mechanisms :: "byte list \<Rightarrow> int \<Rightarrow> nat \<Rightarrow> log_item list option" where
  "be_mechanisms data bound off =
     (if int off < bound then
        (case read_string data off of
           Some mechanism \<Rightarrow>
             map_option (\<lambda>lgs. line_s ''    '' mechanism # lgs)
               (be_mechanisms data bound (off + (length mechanism + 1)))
         | None \<Rightarrow> None)
      else Some [])"
  by pat_completeness auto
termination
  by (relation "measure (\<lambda>(data, bound, off). nat (bound - int off))") auto

declare be_mechanisms.simps [simp del]

definition be_R :: "byte list \<Rightarrow> i32 \<Rightarrow> log_item list option" where
  "be_R data len = do {
     (type, off) \<leftarrow> take_int32 data 5;
     let head = [line ''BE: R''];
     if type = 0 then Some (head @ [line ''    Success''])
     else if type = 2 then Some (head @ [line ''    KerberosV5''])
     else if type = 3 then Some (head @ [line ''    CleartextPassword''])
     else if type = 5 then Some head
     else if type = 6 then Some (head @ [line ''    SCMCredential''])
     else if type = 7 then Some (head @ [line ''    GSS''])
     else if type = 8 then Some (head @ [line ''    GSSContinue''])
     else if type = 9 then Some (head @ [line ''    SSPI''])
     else if type = 10 then do {
       bound \<leftarrow> c_int (sint len - 8);
       mechanisms \<leftarrow> be_mechanisms data bound off;
       Some (head @ [line ''    SASL''] @ mechanisms) }
     else if type = 11 then do {
       n \<leftarrow> c_int (sint len - 8);
       _ \<leftarrow> c_int (int off + n);
       Some (head @ [line ''    SASLContinue'']) }
     else if type = 12 then do {
       n \<leftarrow> c_int (sint len - 8);
       _ \<leftarrow> c_int (int off + n);
       Some (head @ [line ''    SASLFinal'']) }
     else Some head }"

definition be_S :: "byte list \<Rightarrow> log_item list option" where
  "be_S data = do {
     (name, off) \<leftarrow> take_string data 5;
     (val, off) \<leftarrow> take_string data off;
     Some [line ''BE: S'', line_s ''    Name: '' name, line_s ''    Value: '' val] }"

text \<open>One field of a \<open>RowDescription\<close>: what is read and what is logged.\<close>

record row_field =
  rf_name :: ctext
  rf_oid :: i32
  rf_attr :: i16
  rf_type_oid :: i32
  rf_type_length :: i16
  rf_type_modifier :: i32
  rf_format :: i16

definition take_row_field :: "byte list \<Rightarrow> nat \<Rightarrow> (row_field \<times> nat) option" where
  "take_row_field data off = do {
     (field_name, off) \<leftarrow> take_string data off;
     (oid, off) \<leftarrow> take_int32 data off;
     (attr, off) \<leftarrow> take_int16 data off;
     (type_oid, off) \<leftarrow> take_int32 data off;
     (type_length, off) \<leftarrow> take_int16 data off;
     (type_modifier, off) \<leftarrow> take_int32 data off;
     (format, off) \<leftarrow> take_int16 data off;
     Some (\<lparr>rf_name = field_name, rf_oid = oid, rf_attr = attr, rf_type_oid = type_oid,
             rf_type_length = type_length, rf_type_modifier = type_modifier, rf_format = format\<rparr>,
           off) }"

definition log_row_field :: "row_field \<Rightarrow> log_item list" where
  "log_row_field f =
     [line_s ''    Name: '' (rf_name f), line_d32 ''    OID: '' (rf_oid f),
      line_d16 ''    Attribute: '' (rf_attr f), line_d32 ''    Type OID: '' (rf_type_oid f),
      line_d16 ''    Type length: '' (rf_type_length f),
      line_d32 ''    Type modifier: '' (rf_type_modifier f), line_d16 ''    Format: '' (rf_format f)]"

definition be_T :: "byte list \<Rightarrow> log_item list option" where
  "be_T data = do {
     (number_of_fields, off) \<leftarrow> take_int16 data 5;
     (fields, off) \<leftarrow> rep (times (sint number_of_fields)) (take_row_field data) off;
     Some ([line ''BE: T'', line_d16 ''    Number: '' number_of_fields] @
       concat (map log_row_field fields)) }"

definition be_V :: "byte list \<Rightarrow> log_item list option" where
  "be_V data = Some [line ''BE: V'']"

definition be_W :: "byte list \<Rightarrow> log_item list option" where
  "be_W data = Some [line ''BE: W'']"

text \<open>The state is printed as the string in a zeroed array of two bytes.\<close>

definition be_Z :: "byte list \<Rightarrow> log_item list option" where
  "be_Z data = do {
     (state, off) \<leftarrow> take_byte data 5;
     Some [line ''BE: Z'', line_s ''    State: '' (cstr [state, 0])] }"

definition be_c :: "byte list \<Rightarrow> log_item list option" where
  "be_c data = Some [line ''BE: c'']"

definition be_d :: "byte list \<Rightarrow> i32 \<Rightarrow> log_item list option" where
  "be_d data len = do {
     n \<leftarrow> c_int (sint len - 4);
     (_, off) \<leftarrow> rep (times n) (take_byte data) 5;
     Some [line ''BE: d'', line_s ''    Size: '' (show_int n)] }"

definition be_n :: "byte list \<Rightarrow> log_item list option" where
  "be_n data = Some [line ''BE: n'']"

definition be_s :: "byte list \<Rightarrow> log_item list option" where
  "be_s data = Some [line ''BE: s'']"

definition be_t :: "byte list \<Rightarrow> log_item list option" where
  "be_t data = Some [line ''BE: t'']"

definition be_v :: "byte list \<Rightarrow> log_item list option" where
  "be_v data = Some [line ''BE: v'']"

text \<open>The \<open>switch (kind)\<close> of \<open>pgprtdbg_server\<close>.\<close>

definition be_dispatch :: "byte \<Rightarrow> byte list \<Rightarrow> i32 \<Rightarrow> log_item list option" where
  "be_dispatch kind data len =
     (if kind = ch CHR ''1'' then be_one data
      else if kind = ch CHR ''2'' then be_two data
      else if kind = ch CHR ''3'' then be_three data
      else if kind = ch CHR ''A'' then be_A data
      else if kind = ch CHR ''C'' then be_C data
      else if kind = ch CHR ''D'' then be_D data
      else if kind = ch CHR ''E'' then be_E data len
      else if kind = ch CHR ''G'' then be_G data
      else if kind = ch CHR ''H'' then be_H data
      else if kind = ch CHR ''I'' then be_I data
      else if kind = ch CHR ''K'' then be_K data
      else if kind = ch CHR ''N'' then be_N data
      else if kind = ch CHR ''R'' then be_R data len
      else if kind = ch CHR ''S'' then be_S data
      else if kind = ch CHR ''T'' then be_T data
      else if kind = ch CHR ''V'' then be_V data
      else if kind = ch CHR ''W'' then be_W data
      else if kind = ch CHR ''Z'' then be_Z data
      else if kind = ch CHR ''c'' then be_c data
      else if kind = ch CHR ''d'' then be_d data len
      else if kind = ch CHR ''n'' then be_n data
      else if kind = ch CHR ''s'' then be_s data
      else if kind = ch CHR ''t'' then be_t data
      else if kind = ch CHR ''v'' then be_v data
      else Some [line_s ''Unsupported server message: '' (show_int (sint kind))])"


section \<open>The messages of the protocol\<close>

text \<open>
  The specification of the server's messages, as \<open>fe_msg\<close> is for the client's. Messages of which
  the program only logs the kind keep their payload as bytes.
\<close>

datatype be_msg =
    Bare char "byte list"
  | CommandComplete ctext
  | DataRow "byte list option list"
  | ErrorResponse "(byte \<times> ctext) list"
  | BackendKeyData i32 i32
  | Authentication i32 "byte list"
  | AuthenticationSASL "ctext list"
  | ParameterStatus ctext ctext
  | RowDescription "row_field list"
  | ReadyForQuery byte
  | CopyDataBe "byte list"
  | OtherBe byte "byte list"

definition bare_kinds :: string where
  "bare_kinds = ''123AGHINVWcnstv''"

definition be_kinds :: "byte set" where
  "be_kinds = ch ` set (bare_kinds @ ''CDEKRSTZd'')"

definition enc_error_field :: "byte \<times> ctext \<Rightarrow> byte list" where
  "enc_error_field f = fst f # zstr (snd f)"

definition enc_row_field :: "row_field \<Rightarrow> byte list" where
  "enc_row_field f = zstr (rf_name f) @ be32 (rf_oid f) @ be16 (rf_attr f) @ be32 (rf_type_oid f) @
     be16 (rf_type_length f) @ be32 (rf_type_modifier f) @ be16 (rf_format f)"

fun be_kind :: "be_msg \<Rightarrow> byte" where
  "be_kind (Bare c _) = ch c"
| "be_kind (CommandComplete _) = ch CHR ''C''"
| "be_kind (DataRow _) = ch CHR ''D''"
| "be_kind (ErrorResponse _) = ch CHR ''E''"
| "be_kind (BackendKeyData _ _) = ch CHR ''K''"
| "be_kind (Authentication _ _) = ch CHR ''R''"
| "be_kind (AuthenticationSASL _) = ch CHR ''R''"
| "be_kind (ParameterStatus _ _) = ch CHR ''S''"
| "be_kind (RowDescription _) = ch CHR ''T''"
| "be_kind (ReadyForQuery _) = ch CHR ''Z''"
| "be_kind (CopyDataBe _) = ch CHR ''d''"
| "be_kind (OtherBe k _) = k"

fun be_payload :: "be_msg \<Rightarrow> byte list" where
  "be_payload (Bare _ b) = b"
| "be_payload (CommandComplete s) = zstr s"
| "be_payload (DataRow vs) = counted enc_value vs"
| "be_payload (ErrorResponse fs) = concat (map enc_error_field fs) @ [0]"
| "be_payload (BackendKeyData p s) = be32 p @ be32 s"
| "be_payload (Authentication t b) = be32 t @ b"
| "be_payload (AuthenticationSASL ms) = be32 10 @ concat (map zstr ms) @ [0]"
| "be_payload (ParameterStatus n v) = zstr n @ zstr v"
| "be_payload (RowDescription fs) = counted enc_row_field fs"
| "be_payload (ReadyForQuery s) = [s]"
| "be_payload (CopyDataBe b) = b"
| "be_payload (OtherBe _ b) = b"

definition enc_be :: "be_msg \<Rightarrow> byte list" where
  "enc_be m = frame (be_kind m) (be_payload m)"

text \<open>A row has at most 32766 columns: one more and the counter of \<open>be_D\<close> wraps around.\<close>

fun be_fields_ok :: "be_msg \<Rightarrow> bool" where
  "be_fields_ok (Bare c b) = (c \<in> set bare_kinds)"
| "be_fields_ok (CommandComplete s) = nul_free s"
| "be_fields_ok (DataRow vs) = (length vs < 2 ^ 15 - 1 \<and> list_all value_ok vs)"
| "be_fields_ok (ErrorResponse fs) = list_all (\<lambda>f. nul_free (snd f)) fs"
| "be_fields_ok (Authentication t b) = (t \<noteq> 10)"
| "be_fields_ok (AuthenticationSASL ms) = list_all nul_free ms"
| "be_fields_ok (ParameterStatus n v) = (nul_free n \<and> nul_free v)"
| "be_fields_ok (RowDescription fs) = (short fs \<and> list_all (\<lambda>f. nul_free (rf_name f)) fs)"
| "be_fields_ok (OtherBe k b) = (k \<noteq> 0 \<and> k \<notin> be_kinds)"
| "be_fields_ok _ = True"

definition be_ok :: "be_msg \<Rightarrow> bool" where
  "be_ok m \<longleftrightarrow> be_fields_ok m \<and> fits (be_payload m)"

text \<open>
  What the program logs. The loops of \<open>be_E\<close> and of the SASL case of \<open>be_R\<close> stop early: items that
  are within the last 4 (8) bytes before the final NUL are not shown.
\<close>

fun shown_items :: "nat \<Rightarrow> ('a \<Rightarrow> byte list) \<Rightarrow> 'a list \<Rightarrow> 'a list" where
  "shown_items k enc [] = []"
| "shown_items k enc (x # xs) =
     (if k < length (concat (map enc (x # xs))) then x # shown_items k enc xs else [])"

definition log_column :: "nat \<times> byte list option \<Rightarrow> log_item list" where
  "log_column c = line_s ''    Column: '' (show_nat (fst c)) #
     (case snd c of
        None \<Rightarrow> [line ''    Length: -1'', line ''    Data: NULL'']
      | Some b \<Rightarrow> [line_s ''    Length: '' (show_nat (length b)), line ''    Data: XXXX''])"

definition log_error_field :: "byte \<times> ctext \<Rightarrow> log_item list" where
  "log_error_field f = [line_s ''    Code: '' [fst f], line_s ''    Value: '' (snd f)]"

definition auth_names :: "(i32 \<times> string) list" where
  "auth_names = [(0, ''    Success''), (2, ''    KerberosV5''), (3, ''    CleartextPassword''),
     (6, ''    SCMCredential''), (7, ''    GSS''), (8, ''    GSSContinue''), (9, ''    SSPI''),
     (11, ''    SASLContinue''), (12, ''    SASLFinal'')]"

fun be_log :: "be_msg \<Rightarrow> log_item list" where
  "be_log (Bare c b) = [line (''BE: '' @ [c])]"
| "be_log (CommandComplete s) = [line ''BE: C'', line_s ''    Tag: '' s]"
| "be_log (DataRow vs) = [line ''BE: D'', line_s ''    Columns: '' (show_nat (length vs))] @
     concat (map log_column (enumerate 1 vs))"
| "be_log (ErrorResponse fs) =
     [line ''BE: E''] @ concat (map log_error_field (shown_items 4 enc_error_field fs))"
| "be_log (BackendKeyData p s) = [line ''BE: K'', line_s ''    Process: '' (show_int (sint p)),
     line_s ''    Secret: '' (show_int (sint s))]"
| "be_log (Authentication t b) = [line ''BE: R''] @
     (case map_of auth_names t of None \<Rightarrow> [] | Some s \<Rightarrow> [line s])"
| "be_log (AuthenticationSASL ms) =
     [line ''BE: R'', line ''    SASL''] @ map (line_s ''    '') (shown_items 8 zstr ms)"
| "be_log (ParameterStatus n v) =
     [line ''BE: S'', line_s ''    Name: '' n, line_s ''    Value: '' v]"
| "be_log (RowDescription fs) = [line ''BE: T'', line_s ''    Number: '' (show_nat (length fs))] @
     concat (map log_row_field fs)"
| "be_log (ReadyForQuery s) = [line ''BE: Z'', line_s ''    State: '' (if s = 0 then [] else [s])]"
| "be_log (CopyDataBe b) = [line ''BE: d'', line_s ''    Size: '' (show_nat (length b))]"
| "be_log (OtherBe k b) = [line_s ''Unsupported server message: '' (show_int (sint k))]"


section \<open>The decoders read what the protocol writes\<close>

lemma int16_at: "at data off (be16 v @ post) \<Longrightarrow>
  \<exists>off'. take_int16 data off = Some (v, off') \<and> at data off' post"
  using take_at(2) by blast

lemma take_row_field_at:
  assumes "nul_free (rf_name f)" "at data off (enc_row_field f @ post)"
  shows "\<exists>off'. take_row_field data off = Some (f, off') \<and> at data off' post"
proof -
  from string_at [OF assms(1)] assms(2) obtain o1 where
    1: "take_string data off = Some (rf_name f, o1)"
    "at data o1 (be32 (rf_oid f) @ be16 (rf_attr f) @ be32 (rf_type_oid f) @
       be16 (rf_type_length f) @ be32 (rf_type_modifier f) @ be16 (rf_format f) @ post)"
    by (force simp: enc_row_field_def)
  from int32_at [OF 1(2)] obtain o2 where 2: "take_int32 data o1 = Some (rf_oid f, o2)"
    "at data o2 (be16 (rf_attr f) @ be32 (rf_type_oid f) @
       be16 (rf_type_length f) @ be32 (rf_type_modifier f) @ be16 (rf_format f) @ post)" by blast
  from int16_at [OF 2(2)] obtain o3 where 3: "take_int16 data o2 = Some (rf_attr f, o3)"
    "at data o3 (be32 (rf_type_oid f) @
       be16 (rf_type_length f) @ be32 (rf_type_modifier f) @ be16 (rf_format f) @ post)" by blast
  from int32_at [OF 3(2)] obtain o4 where 4: "take_int32 data o3 = Some (rf_type_oid f, o4)"
    "at data o4 (be16 (rf_type_length f) @ be32 (rf_type_modifier f) @ be16 (rf_format f) @ post)"
    by blast
  from int16_at [OF 4(2)] obtain o5 where 5: "take_int16 data o4 = Some (rf_type_length f, o5)"
    "at data o5 (be32 (rf_type_modifier f) @ be16 (rf_format f) @ post)" by blast
  from int32_at [OF 5(2)] obtain o6 where 6: "take_int32 data o5 = Some (rf_type_modifier f, o6)"
    "at data o6 (be16 (rf_format f) @ post)" by blast
  from int16_at [OF 6(2)] obtain o7 where 7: "take_int16 data o6 = Some (rf_format f, o7)"
    "at data o7 post" by blast
  from 1 2 3 4 5 6 7 show ?thesis by (simp add: take_row_field_def)
qed

interpretation row_field: wire_field enc_row_field take_row_field "\<lambda>f. nul_free (rf_name f)"
  by unfold_locales (rule take_row_field_at)

lemma be_T_at:
  assumes "be_fields_ok (RowDescription fs)" "at data 5 (counted enc_row_field fs @ rest)"
  shows "be_T data = Some (be_log (RowDescription fs))"
proof -
  from row_field.counted_at [OF _ _ assms(2)] assms(1) obtain w o1 o2 where
    "take_int16 data 5 = Some (w, o1)" "sint w = int (length fs)"
    "rep (length fs) (take_row_field data) o1 = Some (fs, o2)" by force
  then show ?thesis by (simp add: be_T_def line_d16_def line_s_def show_int_def)
qed

lemma be_column_at:
  assumes "value_ok v" "at data off (enc_value v @ post)" "k < 2 ^ 15"
  shows "\<exists>off'. be_column data (word_of_nat k) off = Some (log_column (k, v), off') \<and> at data off' post"
proof (cases v)
  case None
  with int32_at [of data off "- 1" post] assms(2,3) show ?thesis
    by (auto simp: be_column_def enc_value_def log_column_def line_d16_def line_d32_def line_s_def
        line_def sint_short show_int_def show_nat.simps [of "Suc 0"] digit_def bs_def)
next
  case (Some b)
  let ?n = "word_of_nat (length b) :: i32"
  have n: "sint ?n = int (length b)" using assms(1) Some by (simp add: value_ok_def fits_def sint_length)
  then have ne: "?n \<noteq> - 1" by auto
  from int32_at [of data off ?n "b @ post"] assms(2) Some obtain o1 where
    1: "take_int32 data off = Some (?n, o1)" "at data o1 (b @ post)" by (auto simp: enc_value_def)
  from bytes_at [OF 1(2)] obtain o2 where
    "rep (length b) (take_byte data) o1 = Some (b, o2)" "at data o2 post" by blast
  with 1 ne n Some assms(3) show ?thesis
    by (simp add: be_column_def log_column_def line_d16_def line_d32_def line_s_def sint_short
        show_int_def)
qed

lemma be_columns_at:
  "list_all value_ok vs \<Longrightarrow> at data off (concat (map enc_value vs) @ post) \<Longrightarrow>
    k + length vs = n + 1 \<Longrightarrow> n < 2 ^ 15 - 1 \<Longrightarrow>
    be_columns data (word_of_nat n) (word_of_nat k) off = Some (concat (map log_column (enumerate k vs)))"
proof (induction vs arbitrary: off k)
  case Nil
  then have "n < k" and small: "k < 2 ^ 15" "n < 2 ^ 15" by simp_all
  with small [THEN sint_short] show ?case by (simp add: be_columns.simps [of data])
next
  case (Cons v vs)
  from be_column_at [of v data off "concat (map enc_value vs) @ post" k] Cons.prems obtain o1 where
    1: "be_column data (word_of_nat k) off = Some (log_column (k, v), o1)"
    "at data o1 (concat (map enc_value vs) @ post)" by force
  from Cons.IH [OF _ 1(2), of "Suc k"] Cons.prems have
    "be_columns data (word_of_nat n) (word_of_nat k + 1) o1 =
      Some (concat (map log_column (enumerate (Suc k) vs)))" by (simp add: add.commute)
  with 1 Cons.prems show ?case by (subst be_columns.simps) (simp add: sint_short)
qed

lemma be_D_at:
  assumes "be_fields_ok (DataRow vs)" "at data 5 (counted enc_value vs @ rest)"
  shows "be_D data = Some (be_log (DataRow vs))"
proof -
  let ?n = "word_of_nat (length vs) :: i16"
  from int16_at [of data 5 ?n] assms(2) obtain o1 where
    1: "take_int16 data 5 = Some (?n, o1)" "at data o1 (concat (map enc_value vs) @ rest)"
    by (force simp: counted_def)
  from be_columns_at [OF _ 1(2), of 1 "length vs"] assms(1) have
    "be_columns data ?n 1 o1 = Some (concat (map log_column (enumerate 1 vs)))" by simp
  with 1(1) assms(1) show ?thesis
    by (simp add: be_D_def line_d16_def line_s_def sint_short show_int_def)
qed

lemma read_at:
  "at data off (b # post) \<Longrightarrow> read_byte data off = Some b"
  "at data off (b # post) \<Longrightarrow> at data (off + 1) post"
  "nul_free s \<Longrightarrow> at data off (zstr s @ post) \<Longrightarrow> read_string data off = Some s"
  "nul_free s \<Longrightarrow> at data off (zstr s @ post) \<Longrightarrow> at data (off + (length s + 1)) post"
  using take_at(1) [of data off b post] take_at(4) [of s data off post]
  by (auto simp: take_byte_def take_string_def add.assoc)

lemma length_enc_error_field [simp]: "length (enc_error_field f) = length (snd f) + 2"
  by (simp add: enc_error_field_def)

lemma be_fields_at:
  "list_all (\<lambda>f. nul_free (snd f)) fs \<Longrightarrow> at data off (concat (map enc_error_field fs) @ post) \<Longrightarrow>
    bound = int (off + length (concat (map enc_error_field fs))) - 4 \<Longrightarrow>
    be_fields data bound off = Some (concat (map log_error_field (shown_items 4 enc_error_field fs)))"
proof (induction fs arbitrary: off)
  case Nil
  then show ?case by (simp add: be_fields.simps [of data])
next
  case (Cons f fs)
  let ?rest = "concat (map enc_error_field fs)"
  have at1: "at data off (fst f # zstr (snd f) @ ?rest @ post)"
    using Cons.prems(2) by (simp add: enc_error_field_def [of f])
  note r = read_at(1) [OF at1] read_at(3) [OF _ read_at(2) [OF at1]]
  have at2: "at data (off + (length (snd f) + 2)) (?rest @ post)"
    using read_at(4) [OF _ read_at(2) [OF at1]] Cons.prems(1) by (simp add: add.assoc)
  have "be_fields data bound (off + (length (snd f) + 2)) =
      Some (concat (map log_error_field (shown_items 4 enc_error_field fs)))"
    using Cons.IH [OF _ at2] Cons.prems(1,3) by simp
  with r Cons.prems(1,3) show ?case
    by (subst be_fields.simps) (auto simp: log_error_field_def)
qed

lemma be_mechanisms_at:
  "list_all nul_free ms \<Longrightarrow> at data off (concat (map zstr ms) @ post) \<Longrightarrow>
    bound = int (off + length (concat (map zstr ms))) - 8 \<Longrightarrow>
    be_mechanisms data bound off = Some (map (line_s ''    '') (shown_items 8 zstr ms))"
proof (induction ms arbitrary: off)
  case Nil
  then show ?case by (simp add: be_mechanisms.simps [of data])
next
  case (Cons m ms)
  have at1: "at data off (zstr m @ concat (map zstr ms) @ post)" using Cons.prems(2) by simp
  have "be_mechanisms data bound (off + (length m + 1)) =
      Some (map (line_s ''    '') (shown_items 8 zstr ms))"
    using Cons.IH [OF _ read_at(4) [OF _ at1]] Cons.prems(1,3) by simp
  with read_at(3) [OF _ at1] Cons.prems(1,3) show ?case
    by (subst be_mechanisms.simps) auto
qed


lemma be_E_at:
  assumes "be_fields_ok (ErrorResponse fs)" "fits (be_payload (ErrorResponse fs))"
    "at data 5 (be_payload (ErrorResponse fs) @ rest)"
  shows "be_E data (wire_len (be_payload (ErrorResponse fs))) = Some (be_log (ErrorResponse fs))"
proof -
  have "at data 5 (concat (map enc_error_field fs) @ 0 # rest)" using assms(3) by simp
  from be_fields_at [OF _ this refl] assms(1) show ?thesis
    using c_int_payload [OF assms(2)] by (simp add: be_E_def)
qed

lemma be_SASL_at:
  assumes "be_fields_ok (AuthenticationSASL ms)" "fits (be_payload (AuthenticationSASL ms))"
    "at data 5 (be_payload (AuthenticationSASL ms) @ rest)"
  shows "be_R data (wire_len (be_payload (AuthenticationSASL ms))) = Some (be_log (AuthenticationSASL ms))"
proof -
  let ?l = "int (length (concat (map zstr ms)))"
  have "at data 5 (be32 10 @ concat (map zstr ms) @ 0 # rest)" using assms(3) by simp
  from take_at(3) [OF this] have 1: "take_int32 data 5 = Some (10, 9)"
    "at data 9 (concat (map zstr ms) @ 0 # rest)" by simp_all
  have "c_int (sint (wire_len (be_payload (AuthenticationSASL ms))) - 8) = Some (1 + ?l)"
    using assms(2) by (simp only: sint_wire_len) (simp add: fits_def c_int_in)
  with be_mechanisms_at [OF _ 1(2), of "1 + ?l"] assms(1) 1(1) show ?thesis
    by (simp add: be_R_def)
qed

lemma be_R_plain:
  assumes "take_int32 data 5 = Some (t, 9)" "t \<noteq> 10" "c_int (sint len - 8) = Some n"
    "c_int (9 + n) = Some m"
  shows "be_R data len = Some (be_log (Authentication t b))"
  using assms by (simp add: be_R_def auth_names_def Let_def)

lemma be_R_at:
  assumes "t \<noteq> 10" "fits (be32 t @ b)" "at data 5 (be32 t @ b @ rest)"
  shows "be_R data (wire_len (be32 t @ b)) = Some (be_log (Authentication t b))"
proof -
  have 1: "take_int32 data 5 = Some (t, 9)" using take_at(3) [OF assms(3)] by simp
  have 2: "c_int (sint (wire_len (be32 t @ b)) - 8) = Some (int (length b))"
    "c_int (9 + int (length b)) = Some (9 + int (length b))"
    using assms(2) by (simp_all only: sint_wire_len) (simp_all add: fits_def c_int_in)
  from be_R_plain [OF 1 assms(1) 2] show ?thesis .
qed

lemma be_C_at:
  assumes "nul_free s" "at data 5 (zstr s @ rest)"
  shows "be_C data = Some (be_log (CommandComplete s))"
  using string_at [OF assms] by (auto simp: be_C_def)

lemma be_S_at:
  assumes "nul_free n" "nul_free v" "at data 5 (zstr n @ zstr v @ rest)"
  shows "be_S data = Some (be_log (ParameterStatus n v))"
proof -
  from string_at [OF assms(1,3)] obtain o1 where
    1: "take_string data 5 = Some (n, o1)" "at data o1 (zstr v @ rest)" by blast
  from string_at [OF assms(2) 1(2)] 1(1) show ?thesis by (auto simp: be_S_def)
qed

lemma be_K_at:
  assumes "at data 5 (be32 p @ be32 s @ rest)"
  shows "be_K data = Some (be_log (BackendKeyData p s))"
proof -
  from int32_at [OF assms] obtain o1 where
    1: "take_int32 data 5 = Some (p, o1)" "at data o1 (be32 s @ rest)" by blast
  from int32_at [OF 1(2)] 1(1) show ?thesis by (auto simp: be_K_def line_d32_def line_s_def)
qed

lemma be_Z_at:
  assumes "at data 5 (s # rest)"
  shows "be_Z data = Some (be_log (ReadyForQuery s))"
  using byte_at [OF assms] by (auto simp: be_Z_def cstr_def)

lemma be_d_at:
  assumes "fits b" "at data 5 (b @ rest)"
  shows "be_d data (wire_len b) = Some (be_log (CopyDataBe b))"
  using bytes_at [OF assms(2)] by (auto simp: be_d_def c_int_payload [OF assms(1)] show_int_def)

lemmas be_bare_defs = be_one_def be_two_def be_three_def be_A_def be_G_def be_H_def be_I_def
  be_N_def be_V_def be_W_def be_c_def be_n_def be_s_def be_t_def be_v_def

lemmas be_at = be_D_at be_T_at be_R_at be_C_at be_S_at be_K_at be_Z_at be_d_at

lemma be_dispatch_bare_all:
  "list_all (\<lambda>c. be_dispatch (ch c) data len = Some [line (''BE: '' @ [c])]) bare_kinds"
  unfolding bare_kinds_def list.pred_inject be_dispatch_def of_char_byte_eq be_bare_defs
  by (simp del: of_char_Char)

lemma be_dispatch_bare:
  "c \<in> set bare_kinds \<Longrightarrow> be_dispatch (ch c) data len = Some (be_log (Bare c b))"
  using be_dispatch_bare_all [of data len] by (simp add: list_all_iff)

lemma be_dispatch_at:
  assumes "be_ok m" "at data 5 (be_payload m @ rest)"
  shows "be_dispatch (be_kind m) data (wire_len (be_payload m)) = Some (be_log m)"
proof (cases m)
  case (Bare c b)
  with assms(1) be_dispatch_bare [of c data _ b] show ?thesis by (simp add: be_ok_def)
next
  case (ReadyForQuery b)
  with assms be_Z_at [of data b rest] show ?thesis
    by (simp add: be_dispatch_def del: of_char_Char)
next
  case (OtherBe k b)
  with assms(1) show ?thesis
    by (simp add: be_ok_def be_dispatch_def be_kinds_def bare_kinds_def del: of_char_Char)
next
  case (ErrorResponse fs)
  with assms be_E_at show ?thesis
    by (simp add: be_ok_def be_dispatch_def del: of_char_Char be_payload.simps be_log.simps
        be_fields_ok.simps)
next
  case (AuthenticationSASL ms)
  with assms be_SASL_at show ?thesis
    by (simp add: be_ok_def be_dispatch_def del: of_char_Char be_payload.simps be_log.simps
        be_fields_ok.simps)
qed (use assms in \<open>auto simp: be_ok_def be_dispatch_def simp del: of_char_Char
    intro!: be_at [simplified]\<close>)

text \<open>
  C24. The server's decoders are right about every well-formed message: decoding its wire form logs
  that message's fields, without reading outside the block, whatever follows in it. The
  exceptions are those of the code, whose loops end too early: the fields of an
  \<open>ErrorResponse\<close> are logged only up to the place where at most 4 bytes of fields are left, and the SASL
  mechanisms up to the place where at most 8 bytes of names are left (\<open>shown_items\<close>).
\<close>

theorem server_decoding:
  assumes "be_ok m"
  shows "be_dispatch (be_kind m) (enc_be m @ rest) (word_of_nat (4 + length (be_payload m))) =
    Some (be_log m)"
  using be_dispatch_at [OF assms, of "enc_be m @ rest" rest] frame_at
  by (simp add: enc_be_def wire_len_def)

theorem server_decoding_witness:
  "be_dispatch (ch CHR ''D'') (enc_be (DataRow [Some [49, 50], None]) @ [0x43])
     (word_of_nat (4 + length (be_payload (DataRow [Some [49, 50], None])))) =
   Some ([line ''BE: D'', line_s ''    Columns: '' (show_nat 2)] @
     [line_s ''    Column: '' (show_nat 1), line_s ''    Length: '' (show_nat 2),
      line ''    Data: XXXX''] @
     [line_s ''    Column: '' (show_nat 2), line ''    Length: -1'', line ''    Data: NULL''])"
proof -
  have "be_ok (DataRow [Some [49, 50], None])"
    by (simp add: be_ok_def value_ok_def fits_def counted_def enc_value_def del: of_char_Char)
  from server_decoding [OF this, of "[0x43]"] show ?thesis
    by (simp add: numeral_2_eq_2 log_column_def del: of_char_Char)
qed

end
