(* ===== verification/Message.thy ===== *)
theory Message
  imports Bytes Config
begin

text \<open>
  \<open>src/src/libpgprtdbg/memory.c\<close> and \<open>message.c\<close>: the one message and buffer that a worker process
  has, and reading and writing messages on sockets. The system calls are a parameter: \<open>os_read\<close> and
  \<open>os_write\<close> act on a world of an arbitrary type \<open>'w\<close>.
\<close>

section \<open>System calls\<close>

definition EAGAIN :: int where "EAGAIN = 11"

text \<open>
  \<open>read\<close> gives bytes (none at the end of the stream) or fails with an error number; \<open>write\<close> says
  how many of the bytes it took. Only a failing call sets \<open>errno\<close>. On Linux \<open>EWOULDBLOCK\<close> is
  \<open>EAGAIN\<close>. \<open>os_fopen\<close> is whether a file can be opened for appending, \<open>os_clock\<close> the real time in
  seconds and nanoseconds, \<open>os_strerror\<close> the text of an error number.
\<close>

datatype read_result = Got "byte list" | Read_failed int
datatype write_result = Wrote nat | Write_failed int

record 'w os =
  os_read :: "i32 \<Rightarrow> nat \<Rightarrow> 'w \<Rightarrow> read_result \<times> 'w"
  os_write :: "i32 \<Rightarrow> byte list \<Rightarrow> 'w \<Rightarrow> write_result \<times> 'w"
  os_fopen :: "ctext \<Rightarrow> 'w \<Rightarrow> bool"
  os_clock :: "'w \<Rightarrow> nat \<times> nat"
  os_strerror :: "int \<Rightarrow> ctext"

section \<open>Messages and the memory of a process\<close>

text \<open>
  \<open>struct message\<close>; \<open>data\<close> is the block it points to, which is longer than \<open>length\<close> where the block
  is the process's buffer. The statics \<open>message\<close> and \<open>data\<close> of \<open>memory.c\<close> are \<open>None\<close> while they
  are \<open>NULL\<close>.
\<close>

record message =
  msg_kind :: byte
  msg_length :: i64
  msg_max_length :: size_t
  msg_data :: "byte list option"

record memory =
  mem_message :: "message option"
  mem_data :: "byte list option"

definition zero_message :: message where
  "zero_message = \<lparr>msg_kind = 0, msg_length = 0, msg_max_length = 0, msg_data = None\<rparr>"

text \<open>
  A negative buffer size is a huge \<open>size_t\<close>: the allocation fails and the block is \<open>NULL\<close>. A block
  of an earlier call that is too short is overrun.
\<close>

definition memory_init :: "configuration \<Rightarrow> memory \<Rightarrow> memory option" where
  "memory_init config m =
     (let size = sint (cfg_buffer_size config); zeros = replicate (nat size) 0
      in if size < 0 then None
         else do {
           data \<leftarrow> (case mem_data m of None \<Rightarrow> Some zeros | Some blk \<Rightarrow> put blk 0 zeros);
           Some \<lparr>mem_message = Some (zero_message\<lparr>msg_max_length := word_of_int size\<rparr>),
                  mem_data = Some data\<rparr> })"

definition memory_free :: "memory \<Rightarrow> memory option" where
  "memory_free m = do {
     message \<leftarrow> mem_message m;
     data \<leftarrow> mem_data m;
     data \<leftarrow> put data 0 (replicate (unat (msg_max_length message)) 0);
     Some \<lparr>mem_message = Some (zero_message\<lparr>msg_max_length := msg_max_length message\<rparr>),
            mem_data = Some data\<rparr> }"

text \<open>The freed blocks must not be used any more, as null pointers must not.\<close>

definition memory_destroy :: "memory \<Rightarrow> memory" where
  "memory_destroy m = \<lparr>mem_message = None, mem_data = None\<rparr>"

definition free_message :: "memory \<Rightarrow> memory option" where
  "free_message m = memory_free m"

text \<open>The two statics, as the functions that return them.\<close>

abbreviation memory_message :: "memory \<Rightarrow> message option" where
  "memory_message m \<equiv> mem_message m"

abbreviation memory_data :: "memory \<Rightarrow> byte list option" where
  "memory_data m \<equiv> mem_data m"

section \<open>Creating and copying\<close>

definition MESSAGE_STATUS_ZERO :: int where "MESSAGE_STATUS_ZERO = 0"
definition MESSAGE_STATUS_OK :: int where "MESSAGE_STATUS_OK = 1"
definition MESSAGE_STATUS_ERROR :: int where "MESSAGE_STATUS_ERROR = 2"

lemmas message_status = MESSAGE_STATUS_ZERO_def MESSAGE_STATUS_OK_def MESSAGE_STATUS_ERROR_def

text \<open>
  The first \<open>length\<close> bytes of a block (\<open>memcpy\<close> with a \<open>ssize_t\<close>), undefined when the block is
  shorter. The new structure's \<open>max_length\<close> is not set: \<open>junk\<close>.
\<close>

definition block_prefix :: "byte list \<Rightarrow> i64 \<Rightarrow> byte list option" where
  "block_prefix blk n =
     (if 0 \<le> sint n \<and> nat (sint n) \<le> length blk then Some (take (nat (sint n)) blk) else None)"

definition create_message :: "size_t \<Rightarrow> byte list \<Rightarrow> i64 \<Rightarrow> (int \<times> message) option" where
  "create_message junk data len = do {
     kind \<leftarrow> read_byte data 0;
     bytes \<leftarrow> block_prefix data len;
     Some (MESSAGE_STATUS_OK,
           \<lparr>msg_kind = kind, msg_length = len, msg_max_length = junk, msg_data = Some bytes\<rparr>) }"

definition copy_message :: "size_t \<Rightarrow> message \<Rightarrow> message option" where
  "copy_message junk msg = do {
     data \<leftarrow> msg_data msg;
     bytes \<leftarrow> block_prefix data (msg_length msg);
     Some \<lparr>msg_kind = msg_kind msg, msg_length = msg_length msg, msg_max_length = junk,
            msg_data = Some bytes\<rparr> }"

definition get_request :: "message \<Rightarrow> i32 option" where
  "get_request msg = Option.bind (msg_data msg) (\<lambda>data. read_int32 data 4)"

text \<open>The bytes a message stands for.\<close>

definition msg_bytes :: "message \<Rightarrow> byte list option" where
  "msg_bytes msg = Option.bind (msg_data msg) (\<lambda>data. block_prefix data (msg_length msg))"


section \<open>Reading and writing\<close>

text \<open>
  The part of a process's state that these functions use; the state of the whole process extends
  it.
\<close>

record 'w io =
  io_errno :: int
  io_memory :: memory
  io_world :: 'w

text \<open>A loop whose fuel runs out has not returned.\<close>

definition run_loop :: "('x \<Rightarrow> ('x, ('s, 'r) outcome) iter) \<Rightarrow> nat \<Rightarrow> 'x \<Rightarrow> ('s, 'r) outcome" where
  "run_loop body fuel x = (case loop body fuel x of None \<Rightarrow> Diverged | Some r \<Rightarrow> r)"

lemma ends_run_loop:
  assumes "\<And>x. J x \<Longrightarrow> case body x of Again y \<Rightarrow> J y | Stop r \<Rightarrow> ends P E r" "J x"
  shows "ends P E (run_loop body fuel x)"
proof (cases "loop body fuel x")
  case (Some r)
  with loop_result [where J = J and post = "ends P E", OF assms(1) _ assms(2)] show ?thesis
    by (simp add: run_loop_def)
qed (simp add: run_loop_def)

text \<open>
  \<open>read_message\<close>: after a read of nothing or a failed one the memory is cleared; with \<open>block\<close> and
  \<open>EAGAIN\<close> in \<open>errno\<close> the loop goes on. The results are the status and the message.
\<close>

type_synonym ('w, 'm) read_outcome =
  "(('w, 'm) io_scheme, int \<times> message option \<times> ('w, 'm) io_scheme) outcome"

definition read_retry ::
  "int \<Rightarrow> bool \<Rightarrow> ('w, 'm) io_scheme \<Rightarrow> (('w, 'm) io_scheme, ('w, 'm) read_outcome) iter" where
  "read_retry status block st =
     (case memory_free (io_memory st) of
        None \<Rightarrow> Stop Undefined
      | Some mem \<Rightarrow>
          let st = st\<lparr>io_memory := mem\<rparr>
          in if io_errno st = EAGAIN \<and> block then Again (st\<lparr>io_errno := 0\<rparr>)
             else Stop (Returned (status, None, st)))"

definition read_step ::
  "'w os \<Rightarrow> i32 \<Rightarrow> bool \<Rightarrow> ('w, 'm) io_scheme \<Rightarrow> (('w, 'm) io_scheme, ('w, 'm) read_outcome) iter" where
  "read_step os socket block st =
     (case (memory_message (io_memory st), memory_data (io_memory st)) of
        (Some m, Some blk) \<Rightarrow>
          let m = m\<lparr>msg_data := Some blk\<rparr>;
              (res, w) = os_read os socket (unat (msg_max_length m)) (io_world st);
              st = st\<lparr>io_world := w, io_memory := (io_memory st)\<lparr>mem_message := Some m\<rparr>\<rparr>
          in (case res of
                Got [] \<Rightarrow> read_retry MESSAGE_STATUS_ZERO block st
              | Got (b # bytes) \<Rightarrow>
                  (case put blk 0 (b # bytes) of
                     None \<Rightarrow> Stop Undefined
                   | Some blk \<Rightarrow>
                       let m = m\<lparr>msg_kind := b, msg_length := word_of_nat (length (b # bytes)),
                                 msg_data := Some blk\<rparr>
                       in Stop (Returned (MESSAGE_STATUS_OK, Some m,
                            st\<lparr>io_memory := \<lparr>mem_message = Some m, mem_data = Some blk\<rparr>\<rparr>)))
              | Read_failed e \<Rightarrow> read_retry MESSAGE_STATUS_ERROR block (st\<lparr>io_errno := e\<rparr>))
      | _ \<Rightarrow> Stop Undefined)"

definition read_message ::
  "'w os \<Rightarrow> nat \<Rightarrow> i32 \<Rightarrow> bool \<Rightarrow> ('w, 'm) io_scheme \<Rightarrow> ('w, 'm) read_outcome" where
  "read_message os fuel socket block st = run_loop (read_step os socket block) fuel st"

text \<open>
  \<open>write_message\<close> with its locals \<open>offset\<close>, \<open>totalbytes\<close> and \<open>remaining\<close>; the last two are
  \<open>ssize_t\<close>, which no message is long enough to overflow.
\<close>

type_synonym ('w, 'm) write_outcome = "(('w, 'm) io_scheme, int \<times> ('w, 'm) io_scheme) outcome"
type_synonym ('w, 'm) write_locals = "int \<times> int \<times> int \<times> ('w, 'm) io_scheme"

definition write_step :: "'w os \<Rightarrow> i32 \<Rightarrow> message \<Rightarrow> ('w, 'm) write_locals \<Rightarrow>
    (('w, 'm) write_locals, ('w, 'm) write_outcome) iter" where
  "write_step os socket msg = (\<lambda>(offset, totalbytes, remaining, st).
     (case Option.bind (msg_data msg) (\<lambda>data. mem_range data (nat offset) remaining) of
        None \<Rightarrow> Stop Undefined
      | Some bytes \<Rightarrow>
          let (res, w) = os_write os socket bytes (io_world st); st = st\<lparr>io_world := w\<rparr>
          in (case res of
                Wrote numbytes \<Rightarrow>
                  if int numbytes = sint (msg_length msg) then Stop (Returned (MESSAGE_STATUS_OK, st))
                  else (case c_int (offset + int numbytes) of
                     None \<Rightarrow> Stop Undefined
                   | Some offset \<Rightarrow>
                       let totalbytes = totalbytes + int numbytes;
                           remaining = remaining - int numbytes
                       in if totalbytes = sint (msg_length msg)
                          then Stop (Returned (MESSAGE_STATUS_OK, st))
                          else Again (offset, totalbytes, remaining, st\<lparr>io_errno := 0\<rparr>))
              | Write_failed e \<Rightarrow>
                  if e = EAGAIN then Again (offset, totalbytes, remaining, st\<lparr>io_errno := 0\<rparr>)
                  else Stop (Returned (MESSAGE_STATUS_ERROR, st\<lparr>io_errno := e\<rparr>)))))"

definition write_message ::
  "'w os \<Rightarrow> nat \<Rightarrow> i32 \<Rightarrow> message \<Rightarrow> ('w, 'm) io_scheme \<Rightarrow> ('w, 'm) write_outcome" where
  "write_message os fuel socket msg st =
     run_loop (write_step os socket msg) fuel (0, 0, sint (msg_length msg), st)"

text \<open>The functions that the other files call.\<close>

abbreviation pgprtdbg_read_message ::
  "'w os \<Rightarrow> nat \<Rightarrow> i32 \<Rightarrow> ('w, 'm) io_scheme \<Rightarrow> ('w, 'm) read_outcome" where
  "pgprtdbg_read_message os fuel socket st \<equiv> read_message os fuel socket False st"

abbreviation pgprtdbg_read_block_message ::
  "'w os \<Rightarrow> nat \<Rightarrow> i32 \<Rightarrow> ('w, 'm) io_scheme \<Rightarrow> ('w, 'm) read_outcome" where
  "pgprtdbg_read_block_message os fuel socket st \<equiv> read_message os fuel socket True st"

abbreviation pgprtdbg_write_message ::
  "'w os \<Rightarrow> nat \<Rightarrow> i32 \<Rightarrow> message \<Rightarrow> ('w, 'm) io_scheme \<Rightarrow> ('w, 'm) write_outcome" where
  "pgprtdbg_write_message os fuel socket msg st \<equiv> write_message os fuel socket msg st"

definition write_empty ::
  "'w os \<Rightarrow> nat \<Rightarrow> i32 \<Rightarrow> ('w, 'm) io_scheme \<Rightarrow> ('w, 'm) write_outcome" where
  "write_empty os fuel socket st =
     pgprtdbg_write_message os fuel socket
       (zero_message\<lparr>msg_kind := 0, msg_length := 1, msg_data := Some [0]\<rparr>) st"

definition write_connection_refused_old ::
  "'w os \<Rightarrow> nat \<Rightarrow> i32 \<Rightarrow> ('w, 'm) io_scheme \<Rightarrow> ('w, 'm) write_outcome" where
  "write_connection_refused_old os fuel socket st =
     (let size = 20;
          array = do {
            array \<leftarrow> write_byte (replicate size 0) 0 (of_char CHR ''E'');
            write_string array 1 (bs ''connection refused'') }
      in case array of
           None \<Rightarrow> Undefined
         | Some array \<Rightarrow> write_message os fuel socket
             (zero_message\<lparr>msg_kind := of_char CHR ''E'', msg_length := word_of_nat size,
                msg_data := Some array\<rparr>) st)"


section \<open>What the system calls are relied on for\<close>

text \<open>
  The documented behaviour of \<open>read\<close> and \<open>write\<close>, stated with what every socket has sent and
  received so far: \<open>write\<close> takes a prefix of the bytes and adds it to what the socket has sent,
  \<open>read\<close> delivers no more than was asked for, and neither does anything else.
\<close>

definition kernel_ok ::
  "'w os \<Rightarrow> ('w \<Rightarrow> i32 \<Rightarrow> byte list) \<Rightarrow> ('w \<Rightarrow> i32 \<Rightarrow> byte list) \<Rightarrow> bool" where
  "kernel_ok os sent rcvd \<longleftrightarrow>
     (\<forall>fd bytes w n w'. os_write os fd bytes w = (Wrote n, w') \<longrightarrow>
        n \<le> length bytes \<and> sent w' = (sent w)(fd := sent w fd @ take n bytes) \<and> rcvd w' = rcvd w) \<and>
     (\<forall>fd bytes w e w'. os_write os fd bytes w = (Write_failed e, w') \<longrightarrow>
        sent w' = sent w \<and> rcvd w' = rcvd w) \<and>
     (\<forall>fd n w bytes w'. os_read os fd n w = (Got bytes, w') \<longrightarrow>
        length bytes \<le> n \<and> sent w' = sent w \<and> rcvd w' = (rcvd w)(fd := rcvd w fd @ bytes)) \<and>
     (\<forall>fd n w e w'. os_read os fd n w = (Read_failed e, w') \<longrightarrow> sent w' = sent w \<and> rcvd w' = rcvd w)"

text \<open>
  A socket that does not stall for ever: \<open>patience\<close>, at most \<open>p\<close>, goes down whenever a write takes
  nothing or would block.
\<close>

definition kernel_progress :: "'w os \<Rightarrow> ('w \<Rightarrow> nat) \<Rightarrow> nat \<Rightarrow> bool" where
  "kernel_progress os patience p \<longleftrightarrow> (\<forall>w. patience w \<le> p) \<and>
     (\<forall>fd bytes w res w'. os_write os fd bytes w = (res, w') \<longrightarrow>
        res = Wrote 0 \<or> res = Write_failed EAGAIN \<longrightarrow> patience w' < patience w)"

lemma kernel_write:
  assumes "kernel_ok os sent rcvd" "os_write os fd bytes w = (Wrote n, w')"
  shows "n \<le> length bytes" "sent w' = (sent w)(fd := sent w fd @ take n bytes)" "rcvd w' = rcvd w"
  using assms unfolding kernel_ok_def by blast+

lemma kernel_write_failed:
  assumes "kernel_ok os sent rcvd" "os_write os fd bytes w = (Write_failed e, w')"
  shows "sent w' = sent w" "rcvd w' = rcvd w"
  using assms unfolding kernel_ok_def by blast+

lemma kernel_read:
  assumes "kernel_ok os sent rcvd" "os_read os fd n w = (Got bytes, w')"
  shows "length bytes \<le> n" "sent w' = sent w" "rcvd w' = (rcvd w)(fd := rcvd w fd @ bytes)"
  using assms unfolding kernel_ok_def by blast+

lemma kernel_read_failed:
  assumes "kernel_ok os sent rcvd" "os_read os fd n w = (Read_failed e, w')"
  shows "sent w' = sent w" "rcvd w' = rcvd w"
  using assms unfolding kernel_ok_def by blast+

section \<open>Writing sends the message\<close>

text \<open>Only \<open>errno\<close> and the world differ.\<close>

definition same_else :: "('w, 'm) io_scheme \<Rightarrow> ('w, 'm) io_scheme \<Rightarrow> bool" where
  "same_else st0 st \<longleftrightarrow> io_memory st = io_memory st0 \<and> io.more st = io.more st0"

lemma same_else_refl [simp]: "same_else st st"
  by (simp add: same_else_def)

lemma same_else_upd [simp]:
  "same_else st0 (st\<lparr>io_errno := e\<rparr>) = same_else st0 st"
  "same_else st0 (st\<lparr>io_world := w\<rparr>) = same_else st0 st"
  by (simp_all add: same_else_def)

text \<open>Between two rounds: \<open>totalbytes\<close> bytes of the message have been sent.\<close>

definition write_inv :: "'w os \<Rightarrow> i32 \<Rightarrow> message \<Rightarrow> ('w \<Rightarrow> i32 \<Rightarrow> byte list) \<Rightarrow>
    ('w \<Rightarrow> i32 \<Rightarrow> byte list) \<Rightarrow> ('w, 'm) io_scheme \<Rightarrow> ('w, 'm) write_locals \<Rightarrow> bool" where
  "write_inv os socket msg sent rcvd st0 = (\<lambda>(offset, totalbytes, remaining, st).
     (\<exists>bytes. kernel_ok os sent rcvd \<and> msg_bytes msg = Some bytes \<and> length bytes < 2 ^ 31 \<and>
        sint (msg_length msg) = int (length bytes) \<and>
        0 \<le> offset \<and> offset = totalbytes \<and> remaining = int (length bytes) - totalbytes \<and>
        totalbytes \<le> int (length bytes) \<and>
        sent (io_world st) = (sent (io_world st0))(socket := sent (io_world st0) socket @
          take (nat totalbytes) bytes) \<and>
        rcvd (io_world st) = rcvd (io_world st0) \<and>
        same_else st0 st))"

text \<open>What a call that returned has done.\<close>

definition write_done :: "i32 \<Rightarrow> message \<Rightarrow> ('w \<Rightarrow> i32 \<Rightarrow> byte list) \<Rightarrow> ('w \<Rightarrow> i32 \<Rightarrow> byte list) \<Rightarrow>
    ('w, 'm) io_scheme \<Rightarrow> int \<times> ('w, 'm) io_scheme \<Rightarrow> bool" where
  "write_done socket msg sent rcvd st0 = (\<lambda>(status, st).
     (\<exists>bytes k. msg_bytes msg = Some bytes \<and>
        (status = MESSAGE_STATUS_OK \<and> k = length bytes \<or> status = MESSAGE_STATUS_ERROR \<and> k \<le> length bytes) \<and>
        sent (io_world st) = (sent (io_world st0))(socket := sent (io_world st0) socket @ take k bytes) \<and>
        rcvd (io_world st) = rcvd (io_world st0) \<and>
        same_else st0 st))"

lemma msg_bytes_range:
  assumes "msg_bytes msg = Some bytes" "k \<le> length bytes"
  shows "Option.bind (msg_data msg) (\<lambda>data. mem_range data k (int (length bytes) - int k)) =
    Some (drop k bytes)"
proof -
  from assms(1) obtain data where data: "msg_data msg = Some data"
    and bytes: "bytes = take (nat (sint (msg_length msg))) data"
    and le: "nat (sint (msg_length msg)) \<le> length data"
    by (auto simp: msg_bytes_def block_prefix_def split: Option.bind_splits if_splits)
  have range: "mem_range data k (int n - int k) = Some (drop k (take n data))"
    if "k \<le> n" "n \<le> length data" for n
    using that by (simp add: mem_range_def drop_take nat_diff_distrib)
  from bytes le have "length bytes = nat (sint (msg_length msg))" by simp
  with data assms(2) le bytes range [of "length bytes"] show ?thesis by simp
qed

lemma write_step_cases:
  assumes "write_inv os socket msg sent rcvd st0 x"
  shows "case write_step os socket msg x of
      Again y \<Rightarrow> write_inv os socket msg sent rcvd st0 y
    | Stop r \<Rightarrow> \<exists>res. r = Returned res \<and> write_done socket msg sent rcvd st0 res"
proof -
  obtain offset totalbytes remaining st where x: "x = (offset, totalbytes, remaining, st)"
    by (cases x)
  from assms obtain bytes k where
    kernel: "kernel_ok os sent rcvd" and bytes: "msg_bytes msg = Some bytes"
    and small: "length bytes < 2 ^ 31" and len: "sint (msg_length msg) = int (length bytes)"
    and locals: "offset = int k" "totalbytes = int k" "remaining = int (length bytes) - int k"
    and k: "k \<le> length bytes"
    and sent: "sent (io_world st) =
      (sent (io_world st0))(socket := sent (io_world st0) socket @ take k bytes)"
    and rcvd: "rcvd (io_world st) = rcvd (io_world st0)"
    and st: "same_else st0 st"
    unfolding x write_inv_def prod.case by (metis nat_0_le nat_le_iff nat_int)
  note range = msg_bytes_range [OF bytes k]
  obtain res w where call: "os_write os socket (drop k bytes) (io_world st) = (res, w)"
    by fastforce
  show ?thesis
  proof (cases res)
    case (Wrote n)
    have n: "k + n \<le> length bytes" and sent': "sent w =
        (sent (io_world st0))(socket := sent (io_world st0) socket @ take (k + n) bytes)"
      and rcvd': "rcvd w = rcvd (io_world st0)"
      using kernel_write [OF kernel call [unfolded Wrote]] k sent rcvd by (simp_all add: take_add)
    have "c_int (int k + int n) = Some (int (k + n))" using n small by (simp add: c_int_def)
    moreover have "k + n = length bytes" if "n = length bytes" using n that by simp
    ultimately show ?thesis
      using range call Wrote n sent' rcvd' bytes small len kernel st
      unfolding x locals write_step_def write_inv_def write_done_def
      by (auto simp: Let_def nat_int_add)
  next
    case (Write_failed e)
    from kernel_write_failed [OF kernel call [unfolded Write_failed]] range call Write_failed k sent rcvd bytes small len kernel st show ?thesis
      unfolding x locals write_step_def write_inv_def write_done_def
      by (auto simp: Let_def)
  qed
qed


text \<open>The termination argument: the bytes that remain, and the kernel's patience.\<close>

definition write_variant :: "('w \<Rightarrow> nat) \<Rightarrow> nat \<Rightarrow> ('w, 'm) write_locals \<Rightarrow> nat" where
  "write_variant patience p = (\<lambda>(offset, totalbytes, remaining, st).
     nat remaining * (p + 1) + patience (io_world st))"

lemma write_step_decreases:
  assumes "kernel_ok os sent rcvd" "kernel_progress os patience p"
    "write_inv os socket msg sent rcvd st0 x" "write_step os socket msg x = Again y"
  shows "write_variant patience p y < write_variant patience p x"
proof -
  obtain offset totalbytes remaining st where x: "x = (offset, totalbytes, remaining, st)"
    by (cases x)
  obtain bytes where bytes: "Option.bind (msg_data msg) (\<lambda>data. mem_range data (nat offset) remaining)
      = Some bytes" using assms(4) by (force simp: x write_step_def split: option.splits)
  then have len: "int (length bytes) = remaining"
    by (auto simp: mem_range_def split: Option.bind_splits if_splits)
  obtain res w where call: "os_write os socket bytes (io_world st) = (res, w)" by fastforce
  have stall: "res = Wrote 0 \<or> res = Write_failed EAGAIN \<Longrightarrow> patience w < patience (io_world st)"
    and p: "patience w \<le> p"
    using assms(2) call by (auto simp: kernel_progress_def)
  show ?thesis
  proof (cases res)
    case (Wrote n)
    have n: "n \<le> length bytes" by (rule kernel_write(1) [OF assms(1) call [unfolded Wrote]])
    have y: "write_variant patience p y = (length bytes - n) * (p + 1) + patience w"
      using assms(4) bytes call Wrote len n
      by (auto simp: x write_step_def write_variant_def Let_def nat_diff_distrib
          split: option.splits if_splits)
    have xv: "write_variant patience p x = length bytes * (p + 1) + patience (io_world st)"
      using len by (auto simp: x write_variant_def)
    show ?thesis
    proof (cases n)
      case 0
      with stall Wrote y xv show ?thesis by simp
    next
      case (Suc m)
      then have "length bytes = (length bytes - n) + Suc m" using n by simp
      then have "length bytes * (p + 1) = (length bytes - n) * (p + 1) + (p + 1) + m * (p + 1)"
        by (metis add.assoc distrib_right mult_Suc)
      with p y xv show ?thesis by simp
    qed
  next
    case (Write_failed e)
    with assms(4) bytes call stall show ?thesis
      by (auto simp: x write_step_def write_variant_def Let_def split: if_splits)
  qed
qed

interpretation write_loop: variant_loop "write_step os socket msg"
  "\<lambda>x. kernel_ok os sent rcvd \<and> kernel_progress os patience p \<and> write_inv os socket msg sent rcvd st0 x"
  "write_variant patience p"
  for os :: "'w os" and socket msg sent rcvd patience p and st0 :: "('w, 'm) io_scheme"
proof unfold_locales
  fix x y :: "('w, 'm) write_locals"
  assume inv: "kernel_ok os sent rcvd \<and> kernel_progress os patience p \<and>
    write_inv os socket msg sent rcvd st0 x" and step: "write_step os socket msg x = Again y"
  with write_step_cases [of os socket msg sent rcvd st0 x]
  show "kernel_ok os sent rcvd \<and> kernel_progress os patience p \<and>
    write_inv os socket msg sent rcvd st0 y" by simp
  from inv step show "write_variant patience p y < write_variant patience p x"
    by (blast intro: write_step_decreases)
qed

definition write_fuel :: "nat \<Rightarrow> message \<Rightarrow> nat" where
  "write_fuel p msg = nat (sint (msg_length msg)) * (p + 1) + p + 1"

lemma write_message_done:
  assumes "kernel_ok os sent rcvd" "kernel_progress os patience p"
    "msg_bytes msg = Some bytes" "length bytes < 2 ^ 31" "write_fuel p msg \<le> fuel"
  shows "\<exists>res. write_message os fuel socket msg st = Returned res \<and> write_done socket msg sent rcvd st res"
proof -
  let ?x = "(0, 0, sint (msg_length msg), st)"
  have "sint (msg_length msg) = int (length bytes)"
    using assms(3) by (auto simp: msg_bytes_def block_prefix_def split: Option.bind_splits if_splits)
  with assms have inv: "write_inv os socket msg sent rcvd st ?x" by (simp add: write_inv_def)
  have "write_variant patience p ?x < fuel"
  proof -
    have "patience (io_world st) \<le> p" using assms(2) by (simp add: kernel_progress_def)
    with assms(5) show ?thesis by (simp add: write_variant_def write_fuel_def)
  qed
  from write_loop.enough_fuel [of os sent rcvd patience p socket msg st ?x fuel] inv this assms(1,2)
  obtain r where r: "loop (write_step os socket msg) fuel ?x = Some r" by blast
  have "\<exists>res. r = Returned res \<and> write_done socket msg sent rcvd st res"
    using loop_result [where J = "write_inv os socket msg sent rcvd st", OF write_step_cases r inv]
    by blast
  with r show ?thesis by (auto simp: write_message_def run_loop_def)
qed

text \<open>
  C16. Writing a message, whatever pieces the kernel takes it in: if the socket does not stall for
  ever the loop ends, and a status of OK means that exactly the bytes of the message were added to
  what the socket has sent; after an error a prefix of them was. Nothing else was sent or received.
\<close>

theorem write_message_sends:
  assumes "kernel_ok os sent rcvd" "kernel_progress os patience p"
    "msg_bytes msg = Some bytes" "length bytes < 2 ^ 31" "write_fuel p msg \<le> fuel"
  shows "\<exists>status st' k. write_message os fuel socket msg st = Returned (status, st') \<and>
    (status = MESSAGE_STATUS_OK \<and> k = length bytes \<or> status = MESSAGE_STATUS_ERROR \<and> k \<le> length bytes) \<and>
    sent (io_world st') = (sent (io_world st))(socket := sent (io_world st) socket @ take k bytes) \<and>
    rcvd (io_world st') = rcvd (io_world st)"
  using write_message_done [OF assms, of socket st] assms(3) by (fastforce simp: write_done_def)

text \<open>A kernel on which a write of at least one byte never fails, though it may block.\<close>

definition kernel_steady :: "'w os \<Rightarrow> bool" where
  "kernel_steady os \<longleftrightarrow> (\<forall>fd bytes w e w'. os_write os fd bytes w = (Write_failed e, w') \<longrightarrow>
     bytes = [] \<or> e = EAGAIN)"

lemma kernel_steadyD:
  "os_write os fd bytes w = (Write_failed e, w') \<Longrightarrow> kernel_steady os \<Longrightarrow> e \<noteq> EAGAIN \<Longrightarrow> bytes = []"
  unfolding kernel_steady_def by blast

lemma write_step_steady:
  assumes "kernel_steady os" "write_inv os socket msg sent rcvd st0 x \<and> 0 < fst (snd (snd x))"
  shows "case write_step os socket msg x of
      Again y \<Rightarrow> write_inv os socket msg sent rcvd st0 y \<and> 0 < fst (snd (snd y))
    | Stop r \<Rightarrow> \<exists>res. r = Returned res \<and> write_done socket msg sent rcvd st0 res \<and>
        fst res = MESSAGE_STATUS_OK"
proof -
  obtain offset totalbytes remaining st where x: "x = (offset, totalbytes, remaining, st)"
    by (cases x)
  note cases = write_step_cases [of os socket msg sent rcvd st0 x]
  show ?thesis
  proof (cases "write_step os socket msg x")
    case (Again y)
    with assms(2) cases have inv: "write_inv os socket msg sent rcvd st0 y" by simp
    have "fst (snd (snd y)) \<noteq> 0"
      using Again assms(2) inv unfolding x write_step_def write_inv_def
      by (auto simp: Let_def split: option.splits prod.splits write_result.splits if_splits)
    moreover have "0 \<le> fst (snd (snd y))" using inv by (auto simp: write_inv_def split: prod.splits)
    ultimately show ?thesis using Again inv by simp
  next
    case (Stop r)
    with assms(2) cases obtain res where res: "r = Returned res" "write_done socket msg sent rcvd st0 res"
      by auto
    have "fst res = MESSAGE_STATUS_OK"
      using Stop res(1) assms unfolding x write_step_def
      by (auto simp: Let_def mem_range_def dest!: kernel_steadyD
          split: option.splits Option.bind_splits prod.splits write_result.splits if_splits)
    with Stop res show ?thesis by simp
  qed
qed

lemma write_message_steady:
  assumes "kernel_ok os sent rcvd" "kernel_progress os patience p" "kernel_steady os"
    "msg_bytes msg = Some bytes" "bytes \<noteq> []" "length bytes < 2 ^ 31" "write_fuel p msg \<le> fuel"
  shows "\<exists>st'. write_message os fuel socket msg st = Returned (MESSAGE_STATUS_OK, st') \<and>
    same_else st st' \<and> rcvd (io_world st') = rcvd (io_world st) \<and>
    sent (io_world st') = (sent (io_world st))(socket := sent (io_world st) socket @ bytes)"
proof -
  let ?x = "(0, 0, sint (msg_length msg), st)"
  from write_message_done [OF assms(1,2,4,6,7), of socket st] obtain status st' where
    w: "write_message os fuel socket msg st = Returned (status, st')"
    "write_done socket msg sent rcvd st (status, st')" by auto
  then obtain r where r: "loop (write_step os socket msg) fuel ?x = Some r" "r = Returned (status, st')"
    by (auto simp: write_message_def run_loop_def split: option.splits)
  have "sint (msg_length msg) = int (length bytes)"
    using assms(4) by (auto simp: msg_bytes_def block_prefix_def split: Option.bind_splits if_splits)
  with assms have "write_inv os socket msg sent rcvd st ?x \<and> 0 < fst (snd (snd ?x))"
    by (simp add: write_inv_def)
  from loop_result [where J = "\<lambda>x. write_inv os socket msg sent rcvd st x \<and> 0 < fst (snd (snd x))",
    OF write_step_steady [OF assms(3)] r(1) this] r(2)
  have ok: "status = MESSAGE_STATUS_OK" by auto
  with w(2) assms(4) show ?thesis
    using w(1) by (auto simp: write_done_def MESSAGE_STATUS_OK_def MESSAGE_STATUS_ERROR_def)
qed

section \<open>A concrete kernel\<close>

text \<open>
  For the witnesses: sockets with queues of incoming chunks, and writes that take at most three
  bytes and would block every other time.
\<close>

record wire =
  wire_in :: "i32 \<Rightarrow> byte list list"
  wire_out :: "i32 \<Rightarrow> byte list"
  wire_seen :: "i32 \<Rightarrow> byte list"
  wire_busy :: bool

definition wire_os :: "wire os" where
  "wire_os = \<lparr>os_read = (\<lambda>fd n w.
       (case wire_in w fd of
          [] \<Rightarrow> (Got [], w)
        | chunk # chunks \<Rightarrow>
            (Got (take n chunk), w\<lparr>wire_in := (wire_in w)(fd := chunks),
               wire_seen := (wire_seen w)(fd := wire_seen w fd @ take n chunk)\<rparr>))),
     os_write = (\<lambda>fd bytes w.
       if wire_busy w then (Write_failed EAGAIN, w\<lparr>wire_busy := False\<rparr>)
       else if bytes = [] then (Write_failed 9, w)
       else (Wrote (length (take 3 bytes)), w\<lparr>wire_busy := True,
               wire_out := (wire_out w)(fd := wire_out w fd @ take 3 bytes)\<rparr>)),
     os_fopen = (\<lambda>_ _. True), os_clock = (\<lambda>_. (0, 0)), os_strerror = (\<lambda>_. bs ''error'')\<rparr>"

definition wire_start :: "(i32 \<Rightarrow> byte list list) \<Rightarrow> wire" where
  "wire_start chunks = \<lparr>wire_in = chunks, wire_out = (\<lambda>_. []), wire_seen = (\<lambda>_. []), wire_busy = False\<rparr>"

lemma wire_ok: "kernel_ok wire_os wire_out wire_seen"
proof -
  have "take (min (length bytes) 3) bytes = take 3 bytes" for bytes :: "byte list"
    by (simp add: min_def)
  then show ?thesis by (auto simp: kernel_ok_def wire_os_def split: list.splits if_splits)
qed

lemma wire_progress: "kernel_progress wire_os (\<lambda>w. if wire_busy w then 1 else 0) 1"
  by (auto simp: kernel_progress_def wire_os_def EAGAIN_def split: if_splits)

lemma wire_steady: "kernel_steady wire_os"
  by (auto simp: kernel_steady_def wire_os_def split: if_splits)

theorem write_message_sends_witness:
  "\<exists>status st' k. write_message wire_os 20 4
     (zero_message\<lparr>msg_length := 5, msg_data := Some [1, 2, 3, 4, 5, 6]\<rparr>)
     \<lparr>io_errno = 0, io_memory = \<lparr>mem_message = None, mem_data = None\<rparr>, io_world = wire_start (\<lambda>_. [])\<rparr>
     = Returned (status, st') \<and>
    (status = MESSAGE_STATUS_OK \<and> k = length [1, 2, 3, 4, 5 :: byte] \<or>
     status = MESSAGE_STATUS_ERROR \<and> k \<le> length [1, 2, 3, 4, 5 :: byte]) \<and>
    wire_out (io_world st') = (\<lambda>_. [])(4 := take k [1, 2, 3, 4, 5]) \<and>
    wire_seen (io_world st') = (\<lambda>_. [])"
  using write_message_sends [OF wire_ok wire_progress,
      of "zero_message\<lparr>msg_length := 5, msg_data := Some [1, 2, 3, 4, 5, 6]\<rparr>" "[1, 2, 3, 4, 5]" 20 4
        "\<lparr>io_errno = 0, io_memory = \<lparr>mem_message = None, mem_data = None\<rparr>,
          io_world = wire_start (\<lambda>_. [])\<rparr>"]
  by (simp add: msg_bytes_def block_prefix_def write_fuel_def wire_start_def)


section \<open>Reading delivers what arrived\<close>

text \<open>The buffer is as long as the message's \<open>max_length\<close> says, at most \<open>n\<close> bytes.\<close>

definition memory_ok :: "nat \<Rightarrow> memory \<Rightarrow> bool" where
  "memory_ok n m \<longleftrightarrow> (\<exists>msg blk. mem_message m = Some msg \<and> mem_data m = Some blk \<and>
     length blk = unat (msg_max_length msg) \<and> length blk \<le> n)"

lemma memory_init_ok:
  assumes "0 \<le> sint (cfg_buffer_size config)" "mem_data m = None"
  shows "\<exists>m'. memory_init config m = Some m' \<and> memory_ok (nat (sint (cfg_buffer_size config))) m'"
proof -
  define k where "k = nat (sint (cfg_buffer_size config))"
  have size: "sint (cfg_buffer_size config) = int k" using assms(1) by (simp add: k_def)
  have "sint (cfg_buffer_size config) < 2 ^ 31" using sint_lt [of "cfg_buffer_size config"] by simp
  then have "unat (word_of_nat k :: size_t) = k" using size by (simp add: unat_of_nat)
  with assms(2) show ?thesis
    unfolding size by (simp add: memory_init_def size memory_ok_def zero_message_def)
qed

lemma memory_free_ok: "memory_ok n m \<Longrightarrow> \<exists>m'. memory_free m = Some m' \<and> memory_ok n m'"
  by (auto simp: memory_ok_def memory_free_def put_def zero_message_def)

definition read_done :: "nat \<Rightarrow> i32 \<Rightarrow> ('w \<Rightarrow> i32 \<Rightarrow> byte list) \<Rightarrow> ('w \<Rightarrow> i32 \<Rightarrow> byte list) \<Rightarrow>
    ('w, 'm) io_scheme \<Rightarrow> int \<times> message option \<times> ('w, 'm) io_scheme \<Rightarrow> bool" where
  "read_done n socket sent rcvd st0 = (\<lambda>(status, msg, st).
     memory_ok n (io_memory st) \<and> io.more st = io.more st0 \<and>
     sent (io_world st) = sent (io_world st0) \<and>
     (status = MESSAGE_STATUS_OK \<and>
        (\<exists>m bytes. msg = Some m \<and> msg_bytes m = Some bytes \<and> bytes \<noteq> [] \<and> length bytes \<le> n \<and>
           msg_kind m = hd bytes \<and> msg_length m = word_of_nat (length bytes) \<and>
           rcvd (io_world st) = (rcvd (io_world st0))(socket := rcvd (io_world st0) socket @ bytes) \<and>
           io_errno st = io_errno st0) \<or>
      (status = MESSAGE_STATUS_ZERO \<or> status = MESSAGE_STATUS_ERROR) \<and> msg = None \<and>
        rcvd (io_world st) = rcvd (io_world st0)))"

lemma read_step_nonblocking:
  assumes "kernel_ok os sent rcvd" "memory_ok n (io_memory st)" "n < 2 ^ 31"
  shows "\<exists>res. read_step os socket False st = Stop (Returned res) \<and> read_done n socket sent rcvd st res"
proof -
  from assms(2) obtain msg blk where mem: "mem_message (io_memory st) = Some msg"
    "mem_data (io_memory st) = Some blk" and blk: "length blk = unat (msg_max_length msg)"
    "length blk \<le> n" by (auto simp: memory_ok_def)
  obtain res w where call: "os_read os socket (unat (msg_max_length msg)) (io_world st) = (res, w)"
    by fastforce
  let ?m = "msg\<lparr>msg_data := Some blk\<rparr>"
  have cleared: "memory_ok n ((io_memory st)\<lparr>mem_message := Some ?m\<rparr>)"
    using mem blk by (simp add: memory_ok_def)
  from memory_free_ok [OF this] obtain mem' where free:
    "memory_free ((io_memory st)\<lparr>mem_message := Some ?m\<rparr>) = Some mem'" "memory_ok n mem'" by blast
  show ?thesis
  proof (cases res)
    case (Got bytes)
    note k = kernel_read [OF assms(1) call [unfolded Got]]
    show ?thesis
    proof (cases bytes)
      case Nil
      with mem call Got free k show ?thesis
        by (auto simp: read_step_def Let_def read_retry_def read_done_def MESSAGE_STATUS_ZERO_def
            MESSAGE_STATUS_OK_def)
    next
      case (Cons b bs)
      have n: "length bytes \<le> length blk" using k(1) blk by simp
      then have put: "put blk 0 bytes = Some (bytes @ drop (length bytes) blk)" by (simp add: put_def)
      have len: "sint (word_of_nat (length bytes) :: i64) = int (length bytes)"
        using n blk assms(3) by (simp add: signed_of_nat signed_take_bit_int_eq_self)
      let ?m' = "?m\<lparr>msg_kind := b, msg_length := word_of_nat (length bytes),
        msg_data := Some (bytes @ drop (length bytes) blk)\<rparr>"
      have "msg_bytes ?m' = Some bytes"
        using len n by (simp add: msg_bytes_def block_prefix_def)
      moreover have "read_step os socket False st = Stop (Returned (MESSAGE_STATUS_OK, Some ?m',
        st\<lparr>io_world := w, io_memory := \<lparr>mem_message = Some ?m', mem_data = Some (bytes @ drop (length bytes) blk)\<rparr>\<rparr>))"
        using mem call Got put Cons by (simp add: read_step_def Let_def)
      ultimately show ?thesis
        using k n blk Cons by (auto simp: read_done_def memory_ok_def)
    qed
  next
    case (Read_failed e)
    from kernel_read_failed [OF assms(1) call [unfolded Read_failed]] mem call Read_failed free show ?thesis
      by (auto simp: read_step_def Let_def read_retry_def read_done_def MESSAGE_STATUS_ERROR_def
          MESSAGE_STATUS_OK_def)
  qed
qed

lemma read_message_done:
  assumes "kernel_ok os sent rcvd" "memory_ok n (io_memory st)" "n < 2 ^ 31" "0 < fuel"
  shows "\<exists>res. read_message os fuel socket False st = Returned res \<and> read_done n socket sent rcvd st res"
proof -
  from assms(4) obtain f where "fuel = Suc f" by (cases fuel) auto
  with read_step_nonblocking [OF assms(1-3), of socket] show ?thesis
    by (auto simp: read_message_def run_loop_def)
qed

text \<open>
  Reading a message from a socket returns after one call of \<open>read\<close>. With status OK the message
  consists of exactly the bytes that arrived, at least one and no more than the buffer holds, and
  its kind is the first of them; otherwise there is no message and nothing arrived. The buffer is
  ready for the next read in every case.
\<close>

theorem read_message_delivers:
  assumes "kernel_ok os sent rcvd" "memory_ok n (io_memory st)" "n < 2 ^ 31" "0 < fuel"
  shows "\<exists>status msg st'. read_message os fuel socket False st = Returned (status, msg, st') \<and>
    memory_ok n (io_memory st') \<and> sent (io_world st') = sent (io_world st) \<and>
    (if status = MESSAGE_STATUS_OK
     then (\<exists>m bytes. msg = Some m \<and> msg_bytes m = Some bytes \<and> bytes \<noteq> [] \<and> length bytes \<le> n \<and>
       msg_kind m = hd bytes \<and>
       rcvd (io_world st') = (rcvd (io_world st))(socket := rcvd (io_world st) socket @ bytes))
     else msg = None \<and> rcvd (io_world st') = rcvd (io_world st))"
proof -
  from read_message_done [OF assms, of socket] obtain status msg st' where
    "read_message os fuel socket False st = Returned (status, msg, st')"
    "read_done n socket sent rcvd st (status, msg, st')" by auto
  then show ?thesis
    by (intro exI [of _ status] exI [of _ msg] exI [of _ st'])
      (auto simp: read_done_def MESSAGE_STATUS_ZERO_def MESSAGE_STATUS_ERROR_def MESSAGE_STATUS_OK_def)
qed

definition wire_io :: "(i32 \<Rightarrow> byte list list) \<Rightarrow> wire io" where
  "wire_io chunks = \<lparr>io_errno = 0,
     io_memory = \<lparr>mem_message = Some (zero_message\<lparr>msg_max_length := 4\<rparr>), mem_data = Some [0, 0, 0, 0]\<rparr>,
     io_world = wire_start chunks\<rparr>"

theorem read_message_delivers_witness:
  "\<exists>status msg st'. read_message wire_os 1 4 False (wire_io (\<lambda>_. [[81, 0, 0]])) =
      Returned (status, msg, st') \<and>
    memory_ok 4 (io_memory st') \<and> wire_out (io_world st') = wire_out (io_world (wire_io (\<lambda>_. [[81, 0, 0]]))) \<and>
    (if status = MESSAGE_STATUS_OK
     then (\<exists>m bytes. msg = Some m \<and> msg_bytes m = Some bytes \<and> bytes \<noteq> [] \<and> length bytes \<le> 4 \<and>
       msg_kind m = hd bytes \<and>
       wire_seen (io_world st') = (wire_seen (io_world (wire_io (\<lambda>_. [[81, 0, 0]]))))
         (4 := wire_seen (io_world (wire_io (\<lambda>_. [[81, 0, 0]]))) 4 @ bytes))
     else msg = None \<and> wire_seen (io_world st') = wire_seen (io_world (wire_io (\<lambda>_. [[81, 0, 0]]))))"
  by (rule read_message_delivers [OF wire_ok]) (simp_all add: wire_io_def memory_ok_def)

text \<open>
  A message made from a block and its copy stand for the same bytes, the first \<open>length\<close> of the
  block, with the kind of the first byte; its request code is the second integer of these bytes.
\<close>

theorem create_copy_message:
  assumes "0 < sint n" "nat (sint n) \<le> length data"
  shows "\<exists>msg copy. create_message junk data n = Some (MESSAGE_STATUS_OK, msg) \<and>
    copy_message junk' msg = Some copy \<and> msg_bytes copy = msg_bytes msg \<and>
    msg_bytes msg = Some (take (nat (sint n)) data) \<and> msg_kind copy = hd data \<and>
    get_request copy = read_int32 (take (nat (sint n)) data) 4"
proof -
  from assms have "data \<noteq> []" by auto
  with assms show ?thesis
    by (simp add: create_message_def copy_message_def msg_bytes_def block_prefix_def get_request_def
        read_byte_def hd_conv_nth)
qed

theorem create_copy_message_witness:
  "\<exists>msg copy. create_message 7 [0, 0, 0, 8, 4, 210, 22, 47, 9] 8 = Some (MESSAGE_STATUS_OK, msg) \<and>
    copy_message 9 msg = Some copy \<and> msg_bytes copy = msg_bytes msg \<and>
    msg_bytes msg = Some (take (nat (sint (8 :: i64))) [0, 0, 0, 8, 4, 210, 22, 47, 9]) \<and>
    msg_kind copy = hd [0, 0, 0, 8, 4, 210, 22, 47, 9] \<and>
    get_request copy = read_int32 (take (nat (sint (8 :: i64))) [0, 0, 0, 8, 4, 210, 22, 47, 9]) 4"
  by (rule create_copy_message) simp_all

end
