(* ===== verification/Counter.thy ===== *)
theory Counter
  imports Config
begin

text \<open>
  \<open>src/src/libpgprtdbg/counter.c\<close>: the event counters that follow the configuration in the shared
  memory segment, one for each of the first 1000 clients and one for all the others, and the
  statistics printed at shutdown. A pointer to a counter is its index.
\<close>

record event_counter =
  ec_client_number :: i32
  ec_rcvd_bytes :: i64
  ec_sent_bytes :: i64
  ec_rcvd_messages :: i32
  ec_sent_messages :: i32

definition zero_counter :: event_counter where
  "zero_counter = \<lparr>ec_client_number = 0, ec_rcvd_bytes = 0, ec_sent_bytes = 0,
     ec_rcvd_messages = 0, ec_sent_messages = 0\<rparr>"

definition MAX_NUMBER_OF_COUNTERS :: nat where
  "MAX_NUMBER_OF_COUNTERS = MAX_NUMBER_OF_CONNECTIONS"

text \<open>The counters as \<open>main\<close> allocates them.\<close>

definition zero_counters :: "event_counter list" where
  "zero_counters = replicate (MAX_NUMBER_OF_COUNTERS + 1) zero_counter"

definition counter_get :: "event_counter list \<Rightarrow> nat \<Rightarrow> event_counter option" where
  "counter_get counters client_number =
     (if client_number < length counters then Some (counters ! client_number) else None)"

text \<open>
  The accounting of \<open>pgprtdbg_client\<close> and \<open>pgprtdbg_server\<close> for a message of \<open>n\<close> bytes; the
  unsigned counters wrap around.
\<close>

definition count_sent :: "i64 \<Rightarrow> event_counter \<Rightarrow> event_counter" where
  "count_sent n c = c\<lparr>ec_sent_messages := ec_sent_messages c + 1, ec_sent_bytes := ec_sent_bytes c + n\<rparr>"

definition count_rcvd :: "i64 \<Rightarrow> event_counter \<Rightarrow> event_counter" where
  "count_rcvd n c = c\<lparr>ec_rcvd_messages := ec_rcvd_messages c + 1, ec_rcvd_bytes := ec_rcvd_bytes c + n\<rparr>"

definition update_counter :: "(event_counter \<Rightarrow> event_counter) \<Rightarrow> nat \<Rightarrow> event_counter list \<Rightarrow>
    event_counter list option" where
  "update_counter f i counters =
     map_option (\<lambda>c. counters[i := f c]) (counter_get counters i)"

section \<open>The statistics\<close>

definition separator_line :: ctext where
  "separator_line = bs ''------------------------------'' @ [newline]"

definition stat_line :: "string \<Rightarrow> int \<Rightarrow> ctext" where
  "stat_line label n = bs label @ show_int n @ [newline]"

definition counter_lines :: "nat \<Rightarrow> event_counter \<Rightarrow> ctext" where
  "counter_lines client counter =
     stat_line ''Client:                  '' (int client + 1) @
     stat_line ''Bytes Sent:              '' (sint (ec_sent_bytes counter)) @
     stat_line ''Messages Sent:           '' (sint (ec_sent_messages counter)) @
     stat_line ''Bytes Received:          '' (sint (ec_rcvd_bytes counter)) @
     stat_line ''Messages Received:       '' (sint (ec_rcvd_messages counter))"

text \<open>\<open>for (int client = 0; client < client_count; client++)\<close> from \<open>client\<close> on, \<open>n\<close> rounds left.\<close>

fun statistics_loop :: "event_counter list \<Rightarrow> int \<Rightarrow> nat \<Rightarrow> nat \<Rightarrow> ctext option" where
  "statistics_loop counters client_count 0 client = Some []"
| "statistics_loop counters client_count (Suc n) client =
     Option.bind (counter_get counters client) (\<lambda>counter.
       map_option (\<lambda>rest. counter_lines client counter @
           (if int client + 1 < client_count then separator_line else []) @ rest)
         (statistics_loop counters client_count n (client + 1)))"

text \<open>
  The text and where it goes: the standard output (\<open>None\<close>) or the configured file, opened for
  writing; a file that cannot be opened is a null pointer. A path of one character does not count
  as configured.
\<close>

definition counter_output_statistics ::
  "configuration \<Rightarrow> (ctext \<Rightarrow> bool) \<Rightarrow> event_counter list \<Rightarrow> int \<Rightarrow> (ctext option \<times> ctext) option" where
  "counter_output_statistics config opens counters client_count =
     (let path = cstr (cfg_statistics_output config);
          output_file = (if 1 < length path then Some path else None)
      in if \<not> (case output_file of None \<Rightarrow> True | Some f \<Rightarrow> opens f) then None
         else map_option (\<lambda>t. (output_file, separator_line @ t))
                (statistics_loop counters client_count (nat client_count) 0))"

text \<open>The specification: the blocks of the clients, each after a separator line.\<close>

definition statistics_spec :: "event_counter list \<Rightarrow> nat \<Rightarrow> ctext" where
  "statistics_spec counters n =
     (if n = 0 then separator_line
      else concat (map (\<lambda>i. separator_line @ counter_lines i (counters ! i)) [0..<n]))"

lemma statistics_loop_spec:
  "client + n \<le> length counters \<Longrightarrow> 0 < n \<Longrightarrow>
    \<exists>t. statistics_loop counters (int (client + n)) n client = Some t \<and>
      separator_line @ t =
        concat (map (\<lambda>i. separator_line @ counter_lines i (counters ! i)) [client..<client + n])"
proof (induction n arbitrary: client)
  case (Suc n)
  show ?case
  proof (cases "n = 0")
    case True
    with Suc.prems show ?thesis by (simp add: counter_get_def)
  next
    case False
    with Suc.IH [of "Suc client"] Suc.prems obtain t where
      "statistics_loop counters (int (client + Suc n)) n (Suc client) = Some t"
      "separator_line @ t = concat (map (\<lambda>i. separator_line @ counter_lines i (counters ! i))
         [Suc client..<client + Suc n])" by auto
    moreover have "[client..<client + Suc n] = client # [Suc client..<client + Suc n]"
      by (simp add: upt_rec)
    ultimately show ?thesis using False Suc.prems by (simp add: counter_get_def)
  qed
qed simp

lemma output_statistics:
  assumes "n \<le> length counters" "1 < length (cstr (cfg_statistics_output config)) \<longrightarrow>
    opens (cstr (cfg_statistics_output config))"
  shows "counter_output_statistics config opens counters (int n) =
    Some (if 1 < length (cstr (cfg_statistics_output config)) then Some (cstr (cfg_statistics_output config))
      else None, statistics_spec counters n)"
proof (cases "n = 0")
  case True
  with assms show ?thesis by (simp add: counter_output_statistics_def statistics_spec_def Let_def)
next
  case False
  with statistics_loop_spec [of 0 n counters] assms show ?thesis
    by (auto simp: counter_output_statistics_def statistics_spec_def Let_def)
qed

text \<open>
  The statistics of \<open>n\<close> clients show, for each of them and in order, the client's number and its
  four counters, each block after a separator line; nothing outside the counters is read as long as
  there are counters for all of them.
\<close>

theorem counter_output_statistics_spec:
  assumes "n \<le> length counters" "length (cstr (cfg_statistics_output config)) \<le> 1"
  shows "counter_output_statistics config opens counters (int n) = Some (None, statistics_spec counters n)"
  using output_statistics [OF assms(1)] assms(2) by simp

theorem counter_output_statistics_spec_witness:
  "counter_output_statistics zero_configuration (\<lambda>_. False) zero_counters (int 1) =
     Some (None, statistics_spec zero_counters 1)"
  by (rule counter_output_statistics_spec)
    (simp_all add: zero_counters_def MAX_NUMBER_OF_COUNTERS_def MAX_NUMBER_OF_CONNECTIONS_def
      zero_configuration_def zero_text_def MISC_LENGTH_def numeral_eq_Suc cstr_def)

end
