(* ===== verification/Process.thy ===== *)
theory Process
  imports Message Counter LogLock Buffer FeDecode
begin

text \<open>
  The state of a worker process, and the calls of the logging and trace functions on it: the shared
  memory (configuration and counters, as this process sees them while no other one runs), the
  statics of \<open>memory.c\<close>, \<open>protocol.c\<close> and \<open>pipeline.c\<close>, the globals of \<open>worker.c\<close>, the log, and the
  world of the system calls.
\<close>

section \<open>State\<close>

text \<open>
  \<open>pr_kind\<close>, \<open>pr_length\<close>, \<open>pr_data\<close>, \<open>pr_data_size\<close> are the statics of \<open>protocol.c\<close> of these names;
  the static \<open>new_data_size\<close> only takes the second result of \<open>data_append\<close> and \<open>data_remove\<close>, which
  is copied to \<open>data_size\<close> at once. \<open>pr_files\<close> are the traffic files this process has written to, and
  \<open>pr_unclosed\<close> the files it has opened with \<open>fopen\<close> and lost the pointer to.
\<close>

record 'w proc = "'w io" +
  pr_pid :: i32
  pr_config :: configuration
  pr_counters :: "event_counter list"
  pr_logs :: logs
  pr_kind :: byte
  pr_length :: i32
  pr_data :: ptr
  pr_data_size :: size_t
  pr_identifier :: i64
  pr_running :: bool
  pr_exit_code :: int
  pr_files :: "ctext \<Rightarrow> ctext"
  pr_unclosed :: "ctext list"

type_synonym 'w act = "'w proc \<Rightarrow> ('w proc, 'w proc) outcome"

section \<open>Logging\<close>

text \<open>One call of \<open>pgprtdbg_log_line\<close> or \<open>pgprtdbg_log_mem\<close>.\<close>

definition log_one :: "log_item \<Rightarrow> i32 \<Rightarrow> logs \<Rightarrow> logs option" where
  "log_one item log_type lg =
     (case item of Line t \<Rightarrow> log_line log_type t lg | Mem bytes \<Rightarrow> log_mem log_type bytes lg)"

fun log_all :: "log_item list \<Rightarrow> i32 \<Rightarrow> logs \<Rightarrow> logs option" where
  "log_all [] log_type lg = Some lg"
| "log_all (item # items) log_type lg =
     Option.bind (log_one item log_type lg) (log_all items log_type)"

definition log_to :: "log_item list \<Rightarrow> 'w act" where
  "log_to items p =
     (case log_all items (cfg_log_type (pr_config p)) (pr_logs p) of
        None \<Rightarrow> Undefined
      | Some lg \<Rightarrow> Returned (p\<lparr>pr_logs := lg\<rparr>))"

definition lock_log :: "'w proc \<Rightarrow> 'w proc" where
  "lock_log p = p\<lparr>pr_config := log_lock (pr_config p)\<rparr>"

definition unlock_log :: "'w proc \<Rightarrow> 'w proc" where
  "unlock_log p = p\<lparr>pr_config := log_unlock (pr_config p)\<rparr>"

section \<open>The trace file\<close>

definition between :: "byte \<Rightarrow> byte \<Rightarrow> byte \<Rightarrow> bool" where
  "between c low high \<longleftrightarrow> sint low \<le> sint c \<and> sint c \<le> sint high"

definition shown_as_char :: "byte \<Rightarrow> bool" where
  "shown_as_char kind \<longleftrightarrow> between kind (ch CHR ''A'') (ch CHR ''Z'') \<or>
     between kind (ch CHR ''a'') (ch CHR ''z'') \<or> between kind (ch CHR ''0'') (ch CHR ''9'') \<or>
     kind = ch CHR ''?''"

text \<open>
  The line of \<open>output_write\<close>, in an array of 128 bytes. The decoders never set \<open>text\<close>, which stays
  \<open>NULL\<close>, here \<open>None\<close>.
\<close>

definition trace_line ::
  "bool \<Rightarrow> ctext \<Rightarrow> i32 \<Rightarrow> i32 \<Rightarrow> byte \<Rightarrow> ctext option \<Rightarrow> ctext" where
  "trace_line output_sockets side from_fd to_fd kind ctxt =
     (let sockets = (if output_sockets
            then show_int (sint from_fd) @ bs '','' @ show_int (sint to_fd) @ bs '','' else []);
          shown = (if shown_as_char kind then [kind] else show_int (sint kind))
      in case ctxt of
           Some t \<Rightarrow> side @ bs '','' @ sockets @ shown @ bs '','' @ t @ [newline]
         | None \<Rightarrow> side @ bs '','' @ sockets @ shown @ [newline])"

text \<open>
  \<open>sem_wait\<close> on a semaphore that is zero blocks, and no other process runs here to post it. A trace
  file that is not open is a null pointer.
\<close>

definition output_write ::
  "string \<Rightarrow> i32 \<Rightarrow> i32 \<Rightarrow> byte \<Rightarrow> ctext option \<Rightarrow> 'w act" where
  "output_write side from_fd to_fd kind ctxt p =
     (let config = pr_config p;
          line = snprintf MISC_LENGTH (trace_line (cfg_output_sockets config) (bs side) from_fd to_fd kind ctxt)
      in if cfg_lock config = 0 then Diverged
         else case cfg_file config of
                None \<Rightarrow> Undefined
              | Some t \<Rightarrow> Returned (p\<lparr>pr_config := config\<lparr>cfg_file := Some (t @ cstr line)\<rparr>\<rparr>))"

section \<open>What these calls do when the files are open\<close>

text \<open>A process that can log: a log file is open if there has to be one, and so is the trace file.\<close>

definition can_log :: "i32 \<Rightarrow> logs \<Rightarrow> bool" where
  "can_log log_type lg \<longleftrightarrow> (log_type = LOGGING_TYPE_FILE \<longrightarrow> log_file lg \<noteq> None)"

definition can_trace :: "configuration \<Rightarrow> bool" where
  "can_trace c \<longleftrightarrow> cfg_lock c \<noteq> 0 \<and> cfg_file c \<noteq> None"

definition add_log :: "i32 \<Rightarrow> ctext \<Rightarrow> logs \<Rightarrow> logs" where
  "add_log log_type t lg =
     (if log_type = LOGGING_TYPE_CONSOLE then lg\<lparr>log_stdout := log_stdout lg @ t\<rparr>
      else if log_type = LOGGING_TYPE_FILE then lg\<lparr>log_file := map_option (\<lambda>f. f @ t) (log_file lg)\<rparr>
      else lg)"

definition add_trace :: "ctext \<Rightarrow> configuration \<Rightarrow> configuration" where
  "add_trace t c = c\<lparr>cfg_file := map_option (\<lambda>f. f @ t) (cfg_file c)\<rparr>"

definition item_text :: "log_item \<Rightarrow> ctext" where
  "item_text item = (case item of Line t \<Rightarrow> t | Mem bytes \<Rightarrow> the (dump_text bytes)) @ [newline]"

definition item_ok :: "log_item \<Rightarrow> bool" where
  "item_ok item = (case item of Line t \<Rightarrow> True | Mem bytes \<Rightarrow> length bytes \<le> 65535)"

definition items_text :: "log_item list \<Rightarrow> ctext" where
  "items_text items = concat (map item_text items)"

lemma items_text_simps [simp]: "items_text [] = []"
  "items_text (item # items) = item_text item @ items_text items"
  "items_text (items @ items') = items_text items @ items_text items'"
  by (simp_all add: items_text_def)

lemma add_log_simps [simp]:
  "add_log lt [] lg = lg" "add_log lt t (add_log lt s lg) = add_log lt (s @ t) lg"
  "can_log lt (add_log lt t lg) = can_log lt lg"
  by (auto simp: add_log_def can_log_def option.map_comp comp_def option.map_ident
      LOGGING_TYPE_CONSOLE_def LOGGING_TYPE_FILE_def)

lemma add_trace_simps [simp]:
  "add_trace [] c = c" "add_trace t (add_trace s c) = add_trace (s @ t) c"
  "can_trace (add_trace t c) = can_trace c"
  "cfg_log_type (add_trace t c) = cfg_log_type c"
  "cfg_output_sockets (add_trace t c) = cfg_output_sockets c"
  by (simp_all add: add_trace_def can_trace_def option.map_comp comp_def option.map_ident)

lemma log_text_open: "can_log lt lg \<Longrightarrow> log_text lt t lg = Some (add_log lt t lg)"
  by (auto simp: can_log_def log_text_def add_log_def LOGGING_TYPE_CONSOLE_def LOGGING_TYPE_FILE_def)

lemma log_one_open: "can_log lt lg \<Longrightarrow> item_ok item \<Longrightarrow>
    log_one item lt lg = Some (add_log lt (item_text item) lg)"
  using dump_text_defined
  by (fastforce simp: log_one_def log_line_def log_mem_def item_ok_def item_text_def log_text_open
      split: log_item.splits)

lemma log_all_open: "can_log lt lg \<Longrightarrow> list_all item_ok items \<Longrightarrow>
    log_all items lt lg = Some (add_log lt (items_text items) lg)"
  by (induction items arbitrary: lg) (simp_all add: log_one_open)

lemma item_ok_line [simp]: "item_ok (Line t)" "item_ok (line s)" "item_ok (line_s s t)"
  "item_ok (line_d16 s h)" "item_ok (line_d32 s i)"
  by (simp_all add: item_ok_def line_def line_s_def line_d16_def line_d32_def)

text \<open>A trace line without a text always fits into its array and has no NUL byte.\<close>

lemma length_show_byte: "length (show_int (sint (b :: byte))) \<le> 11"
proof -
  have "sint (scast b :: i32) = sint b"
    by (rule sint_up_scast) (simp add: is_up)
  with length_show_int [of "scast b"] show ?thesis by simp
qed

lemma show_int_no_nul: "0 \<notin> set (show_int i)"
  using show_int_chars [of 0 i] by (auto simp: is_digit_def)

lemma shown_as_char_not_nul: "shown_as_char kind \<Longrightarrow> kind \<noteq> 0"
  by (auto simp: shown_as_char_def between_def)

lemma trace_line_whole:
  assumes "length side \<le> 1" "0 \<notin> set side"
  shows "cstr (snprintf MISC_LENGTH (trace_line sockets side from_fd to_fd kind None)) =
    trace_line sockets side from_fd to_fd kind None"
proof -
  let ?line = "trace_line sockets side from_fd to_fd kind None"
  have "length ?line < MISC_LENGTH"
    using assms(1) length_show_int [of from_fd] length_show_int [of to_fd] length_show_byte [of kind]
    by (auto simp: trace_line_def MISC_LENGTH_def)
  moreover have "0 \<notin> set ?line"
    using assms(2) show_int_no_nul shown_as_char_not_nul
    by (auto simp: trace_line_def)
  ultimately show ?thesis by (simp add: snprintf_fits cstr_id)
qed

lemma output_write_open:
  assumes "can_trace (pr_config p)" "length side \<le> 1" "CHR 0x00 \<notin> set side"
  shows "output_write side from_fd to_fd kind None p = Returned (p\<lparr>pr_config :=
    add_trace (trace_line (cfg_output_sockets (pr_config p)) (bs side) from_fd to_fd kind None) (pr_config p)\<rparr>)"
  using assms ch_not_nul [of side]
  by (auto simp: output_write_def can_trace_def add_trace_def Let_def trace_line_whole nul_free_def)


section \<open>A concrete process\<close>

text \<open>
  For the witnesses: a process that logs to the standard output, with one counter, an open trace
  file, nothing buffered, and sockets on which \<open>chunks\<close> arrive. \<open>message_of\<close> is a message read as
  a whole.
\<close>

definition message_of :: "byte list \<Rightarrow> message" where
  "message_of bytes = zero_message\<lparr>msg_kind := hd bytes, msg_length := word_of_nat (length bytes),
     msg_max_length := word_of_nat (length bytes), msg_data := Some bytes\<rparr>"

definition demo_configuration :: configuration where
  "demo_configuration = zero_configuration\<lparr>cfg_lock := 1, cfg_file := Some []\<rparr>"

definition demo_proc :: "(i32 \<Rightarrow> byte list list) \<Rightarrow> wire proc" where
  "demo_proc chunks = io.extend (wire_io chunks)
     \<lparr>pr_pid = 4711, pr_config = demo_configuration, pr_counters = [zero_counter],
      pr_logs = \<lparr>log_stdout = [], log_file = None\<rparr>, pr_kind = 0, pr_length = 0, pr_data = None,
      pr_data_size = 0, pr_identifier = 0, pr_running = True, pr_exit_code = 1, pr_files = (\<lambda>_. []), pr_unclosed = []\<rparr>"

lemma demo_proc_simps [simp]:
  "pr_config (demo_proc chunks) = demo_configuration" "pr_counters (demo_proc chunks) = [zero_counter]"
  "pr_logs (demo_proc chunks) = \<lparr>log_stdout = [], log_file = None\<rparr>"
  "pr_data (demo_proc chunks) = None" "pr_data_size (demo_proc chunks) = 0"
  "io_memory (demo_proc chunks) = io_memory (wire_io chunks)"
  "io_world (demo_proc chunks) = wire_start chunks" "pr_running (demo_proc chunks) = True"
  by (simp_all add: demo_proc_def io.defs wire_io_def)

lemma demo_can: "can_trace demo_configuration" "can_log (cfg_log_type demo_configuration) lg"
  "cfg_output_sockets demo_configuration = False"
  by (simp_all add: demo_configuration_def zero_configuration_def can_trace_def can_log_def
      LOGGING_TYPE_FILE_def)

lemma msg_bytes_message_of: "length bytes < 2 ^ 31 \<Longrightarrow> msg_bytes (message_of bytes) = Some bytes"
  by (simp add: msg_bytes_def message_of_def block_prefix_def signed_of_nat
      signed_take_bit_int_eq_self)

end
