(* ===== verification/Protocol.thy ===== *)
theory Protocol
  imports Process BeDecode
begin

text \<open>
  \<open>pgprtdbg_client\<close> and \<open>pgprtdbg_server\<close> of \<open>src/src/libpgprtdbg/protocol.c\<close>: a chunk of the stream
  is logged, counted and appended to the block \<open>data\<close>, and the messages that are complete are taken
  off the front of the block, decoded, logged and written to the trace file. Both functions share
  one block.
\<close>

section \<open>Steps\<close>

definition remove_front :: "size_t \<Rightarrow> 'w act" where
  "remove_front n p =
     (case data_remove (pr_data p) (pr_data_size p) n of
        None \<Rightarrow> Undefined
      | Some (data, data_size) \<Rightarrow> Returned (p\<lparr>pr_data := data, pr_data_size := data_size\<rparr>))"

text \<open>
  The end of \<open>fe_zero\<close>: the two messages to a version 2 client, whose status is ignored, or
  \<open>exit (1)\<close>.
\<close>

definition refuse_old :: "'w os \<Rightarrow> nat \<Rightarrow> i32 \<Rightarrow> 'w act" where
  "refuse_old os fuel fd p =
     and_then (write_connection_refused_old os fuel fd p) (\<lambda>(_, p).
     and_then (write_empty os fuel fd p) (\<lambda>(_, p). Returned p))"

definition end_of_zero :: "'w os \<Rightarrow> nat \<Rightarrow> i32 \<Rightarrow> zero_result \<Rightarrow> 'w act" where
  "end_of_zero os fuel fd res p =
     (case res of Continue \<Rightarrow> Returned p | Refuse \<Rightarrow> refuse_old os fuel fd p | Exit_1 \<Rightarrow> Exited 1 p)"

text \<open>A message without a kind; its length is a signed \<open>int\<close> that becomes the size to remove.\<close>

definition client_zero :: "'w os \<Rightarrow> nat \<Rightarrow> i32 \<Rightarrow> byte list \<Rightarrow> 'w act" where
  "client_zero os fuel from_fd blk p =
     and_then (defined (read_int32 blk 0)) (\<lambda>len.
     and_then (defined (fe_zero blk len)) (\<lambda>(items, res).
     and_then (log_to items (p\<lparr>pr_length := len\<rparr>)) (\<lambda>p.
     and_then (end_of_zero os fuel from_fd res p) (\<lambda>p.
       remove_front (scast (pr_length p)) p))))"

text \<open>The loop goes round again when the round returned.\<close>

definition go_on :: "('w proc, 'w proc) outcome \<Rightarrow> ('w proc, ('w proc, 'w proc) outcome) iter" where
  "go_on r = (case r of Returned p \<Rightarrow> Again p | _ \<Rightarrow> Stop r)"

text \<open>
  A message with a kind. \<open>data_size < length + 1\<close> compares as \<open>size_t\<close>: the \<open>int\<close> on the right is
  converted. A message that is not complete stops the loop.
\<close>

definition framed :: "(byte \<Rightarrow> byte list \<Rightarrow> i32 \<Rightarrow> log_item list option) \<Rightarrow> string \<Rightarrow>
    i32 \<Rightarrow> i32 \<Rightarrow> byte list \<Rightarrow> 'w proc \<Rightarrow> ('w proc, ('w proc, 'w proc) outcome) iter" where
  "framed dispatch side from_fd to_fd blk p =
     (case read_int32 blk 1 of
        None \<Rightarrow> Stop Undefined
      | Some len \<Rightarrow>
          let p = p\<lparr>pr_length := len\<rparr>
          in (case c_int (sint len + 1) of
                None \<Rightarrow> Stop Undefined
              | Some n \<Rightarrow>
                  if pr_data_size p < word_of_int n then Stop (Returned p)
                  else go_on (
                     and_then (defined (dispatch (pr_kind p) blk len)) (\<lambda>items.
                     and_then (log_to items p) (\<lambda>p.
                     and_then (output_write side from_fd to_fd (pr_kind p) None p) (\<lambda>p.
                       remove_front (word_of_int n) p))))))"

text \<open>One round of \<open>while (data_size > 0)\<close>.\<close>

definition client_step ::
  "'w os \<Rightarrow> nat \<Rightarrow> i32 \<Rightarrow> i32 \<Rightarrow> 'w proc \<Rightarrow> ('w proc, ('w proc, 'w proc) outcome) iter" where
  "client_step os fuel from_fd to_fd p =
     (if pr_data_size p = 0 then Stop (Returned p)
      else case pr_data p of
        None \<Rightarrow> Stop Undefined
      | Some blk \<Rightarrow>
          (case read_byte blk 0 of
             None \<Rightarrow> Stop Undefined
           | Some kind \<Rightarrow>
               let p = p\<lparr>pr_kind := kind\<rparr>
               in if kind = 0 \<and> 8 \<le> pr_data_size p then go_on (client_zero os fuel from_fd blk p)
                  else if kind \<noteq> 0 \<and> 5 \<le> pr_data_size p
                    then framed fe_dispatch ''C'' from_fd to_fd blk p
                  else Stop (Returned p)))"

definition server_step ::
  "i32 \<Rightarrow> i32 \<Rightarrow> 'w proc \<Rightarrow> ('w proc, ('w proc, 'w proc) outcome) iter" where
  "server_step from_fd to_fd p =
     (if pr_data_size p = 0 then Stop (Returned p)
      else case pr_data p of
        None \<Rightarrow> Stop Undefined
      | Some blk \<Rightarrow>
          (case read_byte blk 0 of
             None \<Rightarrow> Stop Undefined
           | Some kind \<Rightarrow>
               let p = p\<lparr>pr_kind := kind\<rparr>
               in if kind = ch CHR ''N'' \<and> pr_data_size p = 1
                    then (let p = p\<lparr>pr_length := 1\<rparr>
                          in go_on (and_then (defined (be_N blk)) (\<lambda>items.
                               and_then (log_to items p) (remove_front (scast (pr_length p))))))
                  else if kind \<noteq> 0 \<and> 5 \<le> pr_data_size p
                    then framed be_dispatch ''S'' from_fd to_fd blk p
                  else Stop (Returned p)))"

section \<open>The two functions\<close>

text \<open>
  What both do before the loop. \<open>%d\<close> prints the low 32 bits of the \<open>ssize_t\<close>. \<open>counter\<close> is the index
  of the client's counter.
\<close>

definition take_in :: "string \<Rightarrow> (event_counter \<Rightarrow> event_counter) \<Rightarrow> message \<Rightarrow> nat \<Rightarrow> 'w act" where
  "take_in side count msg counter p =
     and_then (defined (msg_bytes msg)) (\<lambda>bytes.
     and_then (log_to [line ''--------'',
         Line (bs side @ bs ''/Message ('' @ show_int (sint (ucast (msg_length msg) :: i32)) @ bs ''):''),
         Mem bytes] (lock_log p)) (\<lambda>p.
     and_then (defined (update_counter count counter (pr_counters p))) (\<lambda>counters.
     and_then (defined (data_append (pr_data p) (pr_data_size p) bytes)) (\<lambda>(data, data_size).
       Returned (p\<lparr>pr_counters := counters, pr_data := data, pr_data_size := data_size\<rparr>)))))"

definition pgprtdbg_client ::
  "'w os \<Rightarrow> nat \<Rightarrow> i32 \<Rightarrow> i32 \<Rightarrow> message \<Rightarrow> nat \<Rightarrow> 'w act" where
  "pgprtdbg_client os fuel from_fd to_fd msg counter p =
     and_then (take_in ''FE'' (count_sent (msg_length msg)) msg counter p) (\<lambda>p.
     and_then (run_loop (client_step os fuel from_fd to_fd) fuel p) (\<lambda>p.
       Returned (unlock_log p)))"

definition pgprtdbg_server ::
  "nat \<Rightarrow> i32 \<Rightarrow> i32 \<Rightarrow> message \<Rightarrow> nat \<Rightarrow> 'w act" where
  "pgprtdbg_server fuel from_fd to_fd msg counter p =
     and_then (take_in ''BE'' (count_rcvd (msg_length msg)) msg counter p) (\<lambda>p.
     and_then (run_loop (server_step from_fd to_fd) fuel p) (\<lambda>p.
       Returned (unlock_log p)))"


section \<open>The stream as a sequence of messages\<close>

text \<open>
  The state holds the bytes \<open>bytes\<close>: the block and its recorded size agree. \<open>ready\<close>: the log and the
  trace file are open and the trace file's semaphore is free.
\<close>

definition holds :: "'w proc \<Rightarrow> byte list \<Rightarrow> bool" where
  "holds p bytes \<longleftrightarrow> buffer_ok (pr_data p) (pr_data_size p) \<and> held (pr_data p) = bytes \<and>
     length bytes < 2 ^ 63"

definition ready :: "'w proc \<Rightarrow> bool" where
  "ready p \<longleftrightarrow> can_log (cfg_log_type (pr_config p)) (pr_logs p) \<and> can_trace (pr_config p)"

text \<open>What decoding leaves as it is, and what it does to the log and the trace file.\<close>

definition untouched :: "'w proc \<Rightarrow> _" where
  "untouched p = (io_errno p, io_memory p, io_world p, pr_pid p, pr_identifier p, pr_running p,
     pr_exit_code p, pr_files p, pr_unclosed p)"

definition advanced :: "ctext \<Rightarrow> ctext \<Rightarrow> 'w proc \<Rightarrow> 'w proc \<Rightarrow> bool" where
  "advanced text trace p p' \<longleftrightarrow> untouched p' = untouched p \<and> pr_counters p' = pr_counters p \<and>
     pr_logs p' = add_log (cfg_log_type (pr_config p)) text (pr_logs p) \<and>
     pr_config p' = add_trace trace (pr_config p)"

lemma untouched_upd [frame_simps]:
  "untouched (p\<lparr>pr_kind := k\<rparr>) = untouched p" "untouched (p\<lparr>pr_length := len\<rparr>) = untouched p"
  "untouched (p\<lparr>pr_data := data\<rparr>) = untouched p" "untouched (p\<lparr>pr_data_size := n\<rparr>) = untouched p"
  "untouched (p\<lparr>pr_counters := cs\<rparr>) = untouched p"
  "untouched (p\<lparr>pr_logs := lg\<rparr>) = untouched p" "untouched (p\<lparr>pr_config := c\<rparr>) = untouched p"
  by (simp_all add: untouched_def)

lemma advanced_refl: "advanced [] [] p p"
  by (simp add: advanced_def)

lemma advanced_trans:
  "advanced t s p q \<Longrightarrow> advanced t' s' q r \<Longrightarrow> advanced (t @ t') (s @ s') p r"
  by (simp add: advanced_def)

lemma advanced_ready: "advanced t s p q \<Longrightarrow> ready q = ready p"
  by (simp add: advanced_def ready_def)

lemma advanced_sockets: "advanced t s p q \<Longrightarrow>
    cfg_output_sockets (pr_config q) = cfg_output_sockets (pr_config p)"
  by (simp add: advanced_def)

lemma holds_size: "holds p bytes \<Longrightarrow> unat (pr_data_size p) = length bytes"
  by (auto simp: holds_def buffer_ok_def)

lemma holds_block: "holds p bytes \<Longrightarrow> bytes \<noteq> [] \<Longrightarrow> pr_data p = Some bytes"
  by (cases "pr_data p") (auto simp: holds_def)

lemma holds_empty: "holds p [] \<Longrightarrow> pr_data_size p = 0"
  using holds_size [of p "[]"] by (simp add: unat_eq_0)

lemma holds_nonempty: "holds p bytes \<Longrightarrow> bytes \<noteq> [] \<Longrightarrow> pr_data_size p \<noteq> 0"
  using holds_size [of p bytes] by (auto simp: unat_eq_0)

lemma holds_less: "holds p bytes \<Longrightarrow> n < 2 ^ 63 \<Longrightarrow> (pr_data_size p < word_of_nat n) = (length bytes < n)"
  using holds_size [of p bytes] by (simp add: word_less_nat_alt unat_of_nat)

lemma holds_remove:
  assumes "holds p (front @ rest)"
  shows "\<exists>data n. remove_front (word_of_nat (length front)) p =
      Returned (p\<lparr>pr_data := data, pr_data_size := n\<rparr>) \<and>
    holds (p\<lparr>pr_data := data, pr_data_size := n\<rparr>) rest"
proof -
  from assms data_remove_ok [of "pr_data p" "pr_data_size p" "length front"] obtain data n where
    "data_remove (pr_data p) (pr_data_size p) (word_of_nat (length front)) = Some (data, n)"
    "held data = rest" "buffer_ok data n" by (auto simp: holds_def)
  with assms have
    "remove_front (word_of_nat (length front)) p = Returned (p\<lparr>pr_data := data, pr_data_size := n\<rparr>)"
    "holds (p\<lparr>pr_data := data, pr_data_size := n\<rparr>) rest"
    by (auto simp: holds_def remove_front_def)
  then show ?thesis by blast
qed

section \<open>A chunk\<close>

text \<open>
  The effect of a whole call: the three lines about the chunk and those about the messages are
  logged, the trace lines are written, the client's counter is updated, the log lock is free again,
  and what is not yet complete is kept.
\<close>

definition chunk_text :: "string \<Rightarrow> byte list \<Rightarrow> ctext" where
  "chunk_text side bytes = items_text [line ''--------'',
     Line (bs side @ bs ''/Message ('' @ show_nat (length bytes) @ bs ''):''), Mem bytes]"

definition processed :: "string \<Rightarrow> (event_counter \<Rightarrow> event_counter) \<Rightarrow> nat \<Rightarrow> byte list \<Rightarrow> ctext \<Rightarrow>
    ctext \<Rightarrow> byte list \<Rightarrow> 'w proc \<Rightarrow> 'w proc \<Rightarrow> bool" where
  "processed side count counter bytes text trace tail p p' \<longleftrightarrow>
     holds p' tail \<and> untouched p' = untouched p \<and>
     pr_counters p' = (pr_counters p)[counter := count (pr_counters p ! counter)] \<and>
     pr_logs p' = add_log (cfg_log_type (pr_config p)) (chunk_text side bytes @ text) (pr_logs p) \<and>
     pr_config p' = add_trace trace ((pr_config p)\<lparr>cfg_log_lock := STATE_FREE\<rparr>)"

lemma msg_bytes_length:
  assumes "msg_bytes msg = Some bytes"
  shows "sint (msg_length msg) = int (length bytes)"
  using assms by (auto simp: msg_bytes_def block_prefix_def split: Option.bind_splits if_splits)

lemma low_half:
  assumes "sint (w :: i64) = int n" "n < 2 ^ 31"
  shows "sint (ucast w :: i32) = int n"
proof -
  have "w = word_of_int (sint w)" by simp
  then have "w = word_of_nat n" unfolding assms(1) by simp
  moreover have "ucast (word_of_nat n :: i64) = (word_of_nat n :: i32)"
    by (rule bit_word_eqI) (simp add: bit_simps)
  ultimately show ?thesis using assms(2) by (simp add: sint_length)
qed

lemma log_lock_simps [simp]:
  "cfg_log_type (log_lock c) = cfg_log_type c" "can_trace (log_lock c) = can_trace c"
  "cfg_output_sockets (log_lock c) = cfg_output_sockets c"
  "log_unlock (add_trace t (log_lock c)) = add_trace t (c\<lparr>cfg_log_lock := STATE_FREE\<rparr>)"
  by (simp_all add: log_lock_def log_unlock_def can_trace_def add_trace_def)

lemma take_in_chunk:
  assumes "holds p old" "msg_bytes msg = Some bytes" "length bytes \<le> 65535" "length old < 2 ^ 62"
    "ready p" "counter < length (pr_counters p)"
  shows "\<exists>data n. let p' = p\<lparr>pr_config := log_lock (pr_config p),
        pr_logs := add_log (cfg_log_type (pr_config p)) (chunk_text side bytes) (pr_logs p),
        pr_counters := (pr_counters p)[counter := count (pr_counters p ! counter)],
        pr_data := data, pr_data_size := n\<rparr>
      in take_in side count msg counter p = Returned p' \<and> holds p' (old @ bytes) \<and> ready p'"
proof -
  have "sint (ucast (msg_length msg) :: i32) = int (length bytes)"
    by (rule low_half [OF msg_bytes_length [OF assms(2)]]) (use assms(3) in simp)
  then have "log_to [line ''--------'',
      Line (bs side @ bs ''/Message ('' @ show_int (sint (ucast (msg_length msg) :: i32)) @ bs ''):''),
      Mem bytes] (lock_log p) = Returned ((lock_log p)\<lparr>pr_logs :=
        add_log (cfg_log_type (pr_config p)) (chunk_text side bytes) (pr_logs p)\<rparr>)"
    using assms(3,5) by (simp add: log_to_def lock_log_def ready_def log_all_open item_ok_def [of "Mem bytes"]
        chunk_text_def show_int_def del: log_all.simps)
  moreover from data_append_ok [of "pr_data p" "pr_data_size p" bytes] assms(1,3,4) obtain n where
    "data_append (pr_data p) (pr_data_size p) bytes = Some (Some (old @ bytes), n)"
    "buffer_ok (Some (old @ bytes)) n" by (auto simp: holds_def)
  ultimately show ?thesis
    using assms by (intro exI [of _ "Some (old @ bytes)"] exI [of _ n])
      (auto simp: take_in_def update_counter_def counter_get_def lock_log_def holds_def ready_def Let_def)
qed

section \<open>The loop\<close>

text \<open>
  The interface between the two directions and their loops: one round takes a complete message off
  the front of what is held, logging and tracing it, and stops at a front that is not complete. The
  client lemma says what the loop does with a sequence of messages.
\<close>

locale stream_loop =
  fixes step :: "'w proc \<Rightarrow> ('w proc, ('w proc, 'w proc) outcome) iter"
    and enc :: "'x \<Rightarrow> byte list"
    and ok :: "'x \<Rightarrow> bool"
    and waits :: "byte list \<Rightarrow> bool"
    and log_of :: "'x \<Rightarrow> log_item list"
    and trace_of :: "bool \<Rightarrow> 'x \<Rightarrow> ctext"
  assumes complete: "ok x \<Longrightarrow> holds p (enc x @ rest) \<Longrightarrow> ready p \<Longrightarrow>
      \<exists>p'. step p = Again p' \<and> holds p' rest \<and>
        advanced (items_text (log_of x)) (trace_of (cfg_output_sockets (pr_config p)) x) p p'"
    and incomplete: "waits rest \<Longrightarrow> holds p rest \<Longrightarrow>
      \<exists>p'. step p = Stop (Returned p') \<and> holds p' rest \<and> advanced [] [] p p'"
begin

lemma drain:
  "list_all ok xs \<Longrightarrow> waits tail \<Longrightarrow> holds p (concat (map enc xs) @ tail) \<Longrightarrow> ready p \<Longrightarrow>
    length xs < n \<Longrightarrow>
    \<exists>p'. run_loop step n p = Returned p' \<and> holds p' tail \<and>
      advanced (items_text (concat (map log_of xs)))
        (concat (map (trace_of (cfg_output_sockets (pr_config p))) xs)) p p'"
proof (induction xs arbitrary: p n)
  case Nil
  then obtain m where "n = Suc m" by (cases n) auto
  with incomplete [of tail p] Nil show ?case by (auto simp: run_loop_def)
next
  case (Cons x xs)
  from Cons.prems obtain m where n: "n = Suc m" "length xs < m" by (cases n) auto
  from complete [of x p "concat (map enc xs) @ tail"] Cons.prems obtain q where
    q: "step p = Again q" "holds q (concat (map enc xs) @ tail)"
    "advanced (items_text (log_of x)) (trace_of (cfg_output_sockets (pr_config p)) x) p q" by auto
  from Cons.IH [OF _ _ q(2), of m] Cons.prems n(2) advanced_ready [OF q(3)] obtain r where
    "run_loop step m q = Returned r" "holds r tail"
    "advanced (items_text (concat (map log_of xs)))
      (concat (map (trace_of (cfg_output_sockets (pr_config q))) xs)) q r" by auto
  with q(1) n(1) advanced_trans [OF q(3)] advanced_sockets [OF q(3)] show ?case
    by (auto simp: run_loop_def)
qed

text \<open>A whole call: taking in a chunk, the loop, and unlocking the log.\<close>

lemma chunk:
  assumes "holds p old" "msg_bytes msg = Some bytes" "length bytes \<le> 65535" "length old < 2 ^ 62"
    "ready p" "counter < length (pr_counters p)"
    "old @ bytes = concat (map enc xs) @ tail" "list_all ok xs" "waits tail" "length xs < n"
  shows "\<exists>p'. and_then (take_in side count msg counter p) (\<lambda>p.
        and_then (run_loop step n p) (\<lambda>p. Returned (unlock_log p))) = Returned p' \<and>
      processed side count counter bytes (items_text (concat (map log_of xs)))
        (concat (map (trace_of (cfg_output_sockets (pr_config p))) xs)) tail p p'"
proof -
  from take_in_chunk [OF assms(1-6), where side = side and count = count] obtain data m q where
    q: "take_in side count msg counter p = Returned q" "holds q (concat (map enc xs) @ tail)" "ready q"
    "q = p\<lparr>pr_config := log_lock (pr_config p),
      pr_logs := add_log (cfg_log_type (pr_config p)) (chunk_text side bytes) (pr_logs p),
      pr_counters := (pr_counters p)[counter := count (pr_counters p ! counter)],
      pr_data := data, pr_data_size := m\<rparr>" using assms(7) by (auto simp: Let_def)
  from drain [OF assms(8,9) q(2,3) assms(10)] obtain r where
    r: "run_loop step n q = Returned r" "holds r tail"
    "advanced (items_text (concat (map log_of xs)))
      (concat (map (trace_of (cfg_output_sockets (pr_config q))) xs)) q r" by blast
  have "processed side count counter bytes (items_text (concat (map log_of xs)))
      (concat (map (trace_of (cfg_output_sockets (pr_config p))) xs)) tail p (unlock_log r)"
    using r(2,3) by (simp add: processed_def advanced_def q(4) unlock_log_def holds_def frame_simps)
  with q(1) r(1) show ?thesis by simp
qed

end

section \<open>Chunks that cut messages anywhere\<close>

text \<open>The messages of one direction, one after the other.\<close>

fun feed :: "(message \<Rightarrow> 'w act) \<Rightarrow> message list \<Rightarrow> 'w act" where
  "feed f [] p = Returned p"
| "feed f (msg # msgs) p = and_then (f msg p) (feed f msgs)"

text \<open>\<open>tail\<close> is a proper part of the next message, and nothing if there is none.\<close>

definition partial :: "('x \<Rightarrow> byte list) \<Rightarrow> 'x list \<Rightarrow> byte list \<Rightarrow> bool" where
  "partial enc zs tail \<longleftrightarrow>
     (case zs of [] \<Rightarrow> tail = [] | z # _ \<Rightarrow> \<exists>u. u \<noteq> [] \<and> tail @ u = enc z)"

lemma cut_stream:
  "t @ u = concat (map enc xs) \<Longrightarrow> \<forall>x \<in> set xs. enc x \<noteq> [] \<Longrightarrow>
    \<exists>ys zs tail. xs = ys @ zs \<and> t = concat (map enc ys) @ tail \<and> tail @ u = concat (map enc zs) \<and>
      partial enc zs tail"
proof (induction xs arbitrary: t)
  case Nil
  then show ?case by (simp add: partial_def)
next
  case (Cons x xs)
  from Cons.prems(1) have "t @ u = enc x @ concat (map enc xs)" by simp
  then consider (whole) t' where "t = enc x @ t'" "t' @ u = concat (map enc xs)"
    | (part) w where "enc x = t @ w" "w \<noteq> []" "u = w @ concat (map enc xs)"
    by (auto simp: append_eq_append_conv2) (metis append.right_neutral append_Nil)+
  then show ?case
  proof cases
    case whole
    from Cons.IH [OF whole(2)] Cons.prems(2) obtain ys zs tail where
      "xs = ys @ zs" "t' = concat (map enc ys) @ tail" "tail @ u = concat (map enc zs)"
      "partial enc zs tail" by auto
    with whole(1) show ?thesis by (intro exI [of _ "x # ys"] exI [of _ zs] exI [of _ tail]) simp
  next
    case part
    then show ?thesis
      by (intro exI [of _ "[]"] exI [of _ "x # xs"] exI [of _ t]) (auto simp: partial_def)
  qed
qed

lemma processed_keeps:
  assumes "processed side count counter bytes text trace tail p p'"
  shows "ready p' = ready p" "length (pr_counters p') = length (pr_counters p)"
    "cfg_output_sockets (pr_config p') = cfg_output_sockets (pr_config p)"
    "cfg_file (pr_config p') = map_option (\<lambda>f. f @ trace) (cfg_file (pr_config p))"
    "cfg_log_type (pr_config p') = cfg_log_type (pr_config p)"
  using assms by (simp_all add: processed_def ready_def) (simp_all add: add_trace_def can_trace_def)

text \<open>A direction whose loop waits for the rest of every message.\<close>

locale cuttable_stream = stream_loop +
  assumes enc_nonempty: "enc x \<noteq> []"
    and waits_nothing: "waits []"
    and waits_part: "ok x \<Longrightarrow> u \<noteq> [] \<Longrightarrow> tail @ u = enc x \<Longrightarrow> waits tail"
begin

lemma partial_waits: "partial enc zs tail \<Longrightarrow> list_all ok zs \<Longrightarrow> waits tail"
  using waits_nothing by (cases zs) (auto simp: partial_def intro: waits_part)

lemma feed_stream:
  assumes call: "\<And>msg q. f msg q = and_then (take_in side (count (msg_length msg)) msg counter q)
      (\<lambda>q. and_then (run_loop step n q) (\<lambda>q. Returned (unlock_log q)))"
  shows "list_all2 (\<lambda>msg c. msg_bytes msg = Some c \<and> length c \<le> 65535) msgs chunks \<Longrightarrow>
    holds p t \<Longrightarrow> partial enc xs t \<Longrightarrow> t @ concat chunks = concat (map enc xs) \<Longrightarrow>
    length (t @ concat chunks) < 2 ^ 62 \<Longrightarrow> list_all ok xs \<Longrightarrow> length xs < n \<Longrightarrow> ready p \<Longrightarrow>
    counter < length (pr_counters p) \<Longrightarrow>
    \<exists>p'. feed f msgs p = Returned p' \<and> holds p' [] \<and> cfg_file (pr_config p') = map_option
      (\<lambda>file. file @ concat (map (trace_of (cfg_output_sockets (pr_config p))) xs)) (cfg_file (pr_config p))"
proof (induction msgs chunks arbitrary: p t xs rule: list_all2_induct)
  case Nil
  have "xs = []"
  proof (cases xs)
    case (Cons z zs)
    with Nil obtain u where "u \<noteq> []" "t @ u = enc z" "t = enc z @ concat (map enc zs)"
      by (auto simp: partial_def)
    then show ?thesis by (metis append_assoc append_is_Nil_conv append_self_conv)
  qed simp
  with Nil show ?case by (simp add: option.map_ident)
next
  case (Cons msg msgs c chunks)
  from cut_stream [of "t @ c" "concat chunks" enc xs] Cons.prems(3) enc_nonempty obtain ys zs tail where
    cut: "xs = ys @ zs" "t @ c = concat (map enc ys) @ tail" "tail @ concat chunks = concat (map enc zs)"
    "partial enc zs tail" by auto
  have "waits tail" using partial_waits [OF cut(4)] Cons.prems(5) cut(1) by simp
  from chunk [OF Cons.prems(1) _ _ _ Cons.prems(7,8) cut(2) _ this, of msg n side "count (msg_length msg)"]
    Cons.hyps(1) Cons.prems(4-6) cut(1) obtain q where
    q: "f msg p = Returned q" "processed side (count (msg_length msg)) counter c
      (items_text (concat (map log_of ys)))
      (concat (map (trace_of (cfg_output_sockets (pr_config p))) ys)) tail p q"
    unfolding call by auto
  note keeps = processed_keeps [OF q(2)]
  have "holds q tail" using q(2) by (simp add: processed_def)
  have "length (t @ c) = length (concat (map enc ys) @ tail)" using cut(2) by simp
  then have "length (tail @ concat chunks) \<le> length (t @ concat (c # chunks))" by simp
  then have "length (tail @ concat chunks) < 2 ^ 62" using Cons.prems(4) by linarith
  from Cons.IH [OF \<open>holds q tail\<close> cut(4,3) this] Cons.prems(5-8) cut(1) keeps obtain r where
    "feed f msgs q = Returned r" "holds r []" "cfg_file (pr_config r) = map_option
      (\<lambda>file. file @ concat (map (trace_of (cfg_output_sockets (pr_config q))) zs)) (cfg_file (pr_config q))"
    by auto
  with q(1) keeps cut(1) show ?case by (auto simp: option.map_comp comp_def)
qed

end

section \<open>One message\<close>

lemma frame_length [simp]: "length (frame k payload) = 5 + length payload"
  by (simp add: frame_def)

lemma frame_header:
  "read_byte (frame k payload @ rest) 0 = Some k"
  "read_int32 (frame k payload @ rest) 1 = Some (wire_len payload)"
  using read_int32_there [of "frame k payload @ rest" 1 "wire_len payload" "payload @ rest"]
    at_append [of 1 "[k]" "be32 (wire_len payload) @ payload @ rest"]
  by (simp_all add: frame_def read_byte_def wire_len_def)

lemma prefix_head: "t @ u = frame k payload \<Longrightarrow> t \<noteq> [] \<Longrightarrow> read_byte t 0 = Some k"
  by (cases t) (auto simp: frame_def read_byte_def)

lemma frame_total: "fits payload \<Longrightarrow> c_int (sint (wire_len payload) + 1) = Some (int (5 + length payload))"
  by (simp add: sint_wire_len fits_def c_int_in)

lemma framed_complete:
  assumes "holds p (frame k payload @ rest)" "fits payload" "ready p" "pr_kind p = k"
    "dispatch k (frame k payload @ rest) (wire_len payload) = Some items" "list_all item_ok items"
    "length side \<le> 1" "CHR 0x00 \<notin> set side"
  shows "\<exists>p'. framed dispatch side from_fd to_fd (frame k payload @ rest) p = Again p' \<and> holds p' rest \<and>
    advanced (items_text items)
      (trace_line (cfg_output_sockets (pr_config p)) (bs side) from_fd to_fd k None) p p'"
proof -
  let ?n = "5 + length payload"
  let ?p1 = "p\<lparr>pr_length := wire_len payload,
    pr_logs := add_log (cfg_log_type (pr_config p)) (items_text items) (pr_logs p)\<rparr>"
  let ?p2 = "?p1\<lparr>pr_config := add_trace
    (trace_line (cfg_output_sockets (pr_config p)) (bs side) from_fd to_fd k None) (pr_config p)\<rparr>"
  have "\<not> pr_data_size p < word_of_int (int ?n)"
    using holds_less [OF assms(1), of ?n] assms(1,2)
    by (simp add: fits_def)
  moreover have "log_to items (p\<lparr>pr_length := wire_len payload\<rparr>) = Returned ?p1"
    using assms(3,6) by (simp add: log_to_def log_all_open ready_def)
  moreover have "output_write side from_fd to_fd k None ?p1 = Returned ?p2"
    using assms(3,7,8) by (subst output_write_open) (simp_all add: ready_def)
  moreover have "holds ?p2 (frame k payload @ rest)" using assms(1) by (simp add: holds_def)
  from holds_remove [OF this] obtain data n where
    "remove_front (word_of_int (int ?n)) ?p2 = Returned (?p2\<lparr>pr_data := data, pr_data_size := n\<rparr>)"
    "holds (?p2\<lparr>pr_data := data, pr_data_size := n\<rparr>) rest" by auto
  moreover have "advanced (items_text items)
      (trace_line (cfg_output_sockets (pr_config p)) (bs side) from_fd to_fd k None) p
      (?p2\<lparr>pr_data := data, pr_data_size := n\<rparr>)" by (simp add: advanced_def frame_simps)
  ultimately show ?thesis
    using assms(4,5)
    by (simp add: framed_def frame_header frame_total [OF assms(2)] Let_def go_on_def del: One_nat_def)
qed

text \<open>A header whose message is not complete.\<close>

lemma framed_short:
  assumes "holds p t" "read_int32 t 1 = Some (wire_len payload)" "fits payload"
    "length t < 5 + length payload"
  shows "framed dispatch side from_fd to_fd t p = Stop (Returned (p\<lparr>pr_length := wire_len payload\<rparr>))"
proof -
  have "pr_data_size p < word_of_int (int (5 + length payload))"
    using holds_less [OF assms(1), of "5 + length payload"] assms(3,4) by (simp add: fits_def)
  with assms(2) show ?thesis
    by (simp add: framed_def frame_total [OF assms(3)] Let_def del: One_nat_def)
qed

text \<open>The header of a part of a message, also when other bytes follow the part.\<close>

lemma part_header:
  assumes "t @ u = frame k payload" "5 \<le> length t"
  shows "read_int32 (t @ v) 1 = Some (wire_len payload)" "read_byte (t @ v) 0 = Some k"
proof -
  have "take 5 t = k # be32 (wire_len payload)"
    using arg_cong [OF assms(1), of "take 5"] assms(2) by (simp add: frame_def wire_len_def)
  then have t: "t @ v = k # be32 (wire_len payload) @ drop 5 t @ v"
    by (metis append_Cons append_assoc append_take_drop_id)
  show "read_int32 (t @ v) 1 = Some (wire_len payload)"
    by (rule read_int32_there [of _ _ _ "drop 5 t @ v"], subst t) (simp add: at_def)
  show "read_byte (t @ v) 0 = Some k" by (subst t) (simp add: read_byte_def)
qed

lemma framed_incomplete:
  assumes "holds p t" "t @ u = frame k payload" "u \<noteq> []" "fits payload" "5 \<le> length t"
  shows "framed dispatch side from_fd to_fd t p = Stop (Returned (p\<lparr>pr_length := wire_len payload\<rparr>))"
proof -
  have "length t + length u = 5 + length payload" using arg_cong [OF assms(2), of length] by simp
  then have less: "length t < 5 + length payload" using assms(3) by (cases u) auto
  from part_header(1) [OF assms(2,5), of "[]"] framed_short [OF assms(1) _ assms(4) less]
  show ?thesis by simp
qed

end
