(* ===== verification/ClientStream.thy ===== *)
theory ClientStream
  imports Protocol
begin

text \<open>
  The client's direction: what \<open>pgprtdbg_client\<close> does with a stream of well-formed messages, however
  it is cut into chunks, and what it does with messages that are not.
\<close>

section \<open>The client's stream\<close>

datatype fe_item = Zero start_msg | Kinded fe_msg

fun enc_item :: "fe_item \<Rightarrow> byte list" where
  "enc_item (Zero s) = enc_start s"
| "enc_item (Kinded m) = enc_fe m"

fun item_log :: "fe_item \<Rightarrow> log_item list" where
  "item_log (Zero s) = start_log s"
| "item_log (Kinded m) = fe_log m"

fun item_trace :: "i32 \<Rightarrow> i32 \<Rightarrow> bool \<Rightarrow> fe_item \<Rightarrow> ctext" where
  "item_trace from_fd to_fd sockets (Zero s) = []"
| "item_trace from_fd to_fd sockets (Kinded m) =
     trace_line sockets (bs ''C'') from_fd to_fd (fe_kind m) None"

text \<open>A password has to fit into the dump.\<close>

fun item_fine :: "fe_item \<Rightarrow> bool" where
  "item_fine (Zero s) = start_ok s"
| "item_fine (Kinded m) =
     (fe_ok m \<and> (case m of Password b \<Rightarrow> length b \<le> 65535 | _ \<Rightarrow> True))"

text \<open>What the loop waits for: nothing is left, or a part of a message with a kind.\<close>

definition client_waits :: "byte list \<Rightarrow> bool" where
  "client_waits t \<longleftrightarrow> t = [] \<or> (\<exists>m u. fe_ok m \<and> u \<noteq> [] \<and> t @ u = enc_fe m)"

lemma fe_kind_nonzero: "fe_ok m \<Longrightarrow> fe_kind m \<noteq> 0"
  by (cases m) (simp_all add: fe_ok_def ch_nonzero del: of_char_Char)

lemma fe_log_ok: "item_fine (Kinded m) \<Longrightarrow> list_all item_ok (fe_log m)"
  by (cases m) (auto simp: list_all_iff item_ok_def line_s_def line_def)

lemma start_log_ok: "list_all item_ok (start_log s)"
  by (cases s) (auto simp: start_log_def list_all_iff)

lemma client_waits_stop:
  assumes "client_waits t" "holds p t"
  shows "\<exists>p'. client_step os fuel from_fd to_fd p = Stop (Returned p') \<and> holds p' t \<and> advanced [] [] p p'"
proof (cases "t = []")
  case True
  with assms(2) holds_empty [of p] show ?thesis by (simp add: client_step_def advanced_refl)
next
  case False
  with assms(1) obtain m u where m: "fe_ok m" "u \<noteq> []" "t @ u = frame (fe_kind m) (fe_payload m)"
    by (auto simp: client_waits_def enc_fe_def)
  have "fits (fe_payload m)" using m(1) by (simp add: fe_ok_def)
  note framed_incomplete [OF _ m(3,2) this, of "p\<lparr>pr_kind := fe_kind m\<rparr>"]
  moreover have "holds (p\<lparr>pr_kind := fe_kind m\<rparr>) t" using assms(2) by (simp add: holds_def)
  ultimately show ?thesis
    using False holds_block [OF assms(2)] holds_nonempty [OF assms(2)] holds_size [OF assms(2)]
      prefix_head [OF m(3)] fe_kind_nonzero [OF m(1)]
    by (auto simp: client_step_def Let_def word_le_nat_alt holds_def advanced_def frame_simps)
qed

lemma client_step_kinded:
  assumes "item_fine (Kinded m)" "holds p (enc_fe m @ rest)" "ready p"
  shows "\<exists>p'. client_step os fuel from_fd to_fd p = Again p' \<and> holds p' rest \<and>
    advanced (items_text (fe_log m))
      (trace_line (cfg_output_sockets (pr_config p)) (bs ''C'') from_fd to_fd (fe_kind m) None) p p'"
proof -
  let ?k = "fe_kind m" and ?blk = "frame (fe_kind m) (fe_payload m) @ rest"
  have ok: "fe_ok m" "fits (fe_payload m)" using assms(1) by (simp_all add: fe_ok_def)
  have blk: "enc_fe m @ rest = ?blk" by (simp add: enc_fe_def)
  have "fe_dispatch ?k ?blk (wire_len (fe_payload m)) = Some (fe_log m)"
    by (rule fe_dispatch_at [OF ok(1) frame_at])
  with framed_complete [of "p\<lparr>pr_kind := ?k\<rparr>" ?k "fe_payload m" rest fe_dispatch "fe_log m" "''C''"]
    ok(2) assms fe_log_ok [OF assms(1)] obtain p' where
    "framed fe_dispatch ''C'' from_fd to_fd ?blk (p\<lparr>pr_kind := ?k\<rparr>) = Again p'" "holds p' rest"
    "advanced (items_text (fe_log m))
      (trace_line (cfg_output_sockets (pr_config p)) (bs ''C'') from_fd to_fd ?k None) (p\<lparr>pr_kind := ?k\<rparr>) p'"
    by (auto simp: holds_def ready_def blk)
  moreover have "?blk \<noteq> []" by (simp add: frame_def)
  then have "5 \<le> pr_data_size p" "pr_data p = Some ?blk" "pr_data_size p \<noteq> 0"
    using holds_size [OF assms(2)] holds_block [OF assms(2)] holds_nonempty [OF assms(2)]
    by (simp_all add: blk word_le_nat_alt)
  ultimately show ?thesis
    using fe_kind_nonzero [OF ok(1)]
    by (auto simp: client_step_def frame_header(1) Let_def advanced_def frame_simps)
qed

lemma top_byte_zero: "n < 2 ^ 24 \<Longrightarrow> (ucast (drop_bit 24 (word_of_nat n :: i32)) :: byte) = 0"
proof -
  assume small: "n < 2 ^ 24"
  then have n: "unat (word_of_nat n :: i32) = n" by (simp add: unat_of_nat)
  have "unat (drop_bit 24 (word_of_nat n :: i32)) = n div 2 ^ 24"
    by (subst unat_drop_bit_eq) (simp only: n drop_bit_eq_div)
  then have "unat (drop_bit 24 (word_of_nat n :: i32)) = 0" using small by simp
  then have "drop_bit 24 (word_of_nat n :: i32) = 0" by (simp only: unat_eq_0)
  then show ?thesis by simp
qed

lemma start_header:
  assumes "start_ok s"
  shows "read_byte (enc_start s @ rest) 0 = Some 0"
    "read_int32 (enc_start s @ rest) 0 = Some (wire_len (start_body s))"
    "(scast (wire_len (start_body s)) :: size_t) = word_of_nat (length (enc_start s))"
    "8 \<le> length (enc_start s)"
proof -
  have small: "length (start_body s) < 2 ^ 24 - 4" using assms by (simp add: start_ok_def)
  then have "4 + length (start_body s) < 2 ^ 24" by simp
  from top_byte_zero [OF this] show "read_byte (enc_start s @ rest) 0 = Some 0"
    by (simp add: enc_start_def be32_def read_byte_def wire_len_def)
  show "read_int32 (enc_start s @ rest) 0 = Some (wire_len (start_body s))"
    by (rule read_int32_there [of _ _ _ "start_body s @ rest"]) (simp add: enc_start_def at_def)
  show "(scast (wire_len (start_body s)) :: size_t) = word_of_nat (length (enc_start s))"
    using sint_start_len [OF small] by (simp add: scast_eq enc_start_def)
  show "8 \<le> length (enc_start s)" by (cases s) (simp_all add: enc_start_def)
qed

lemma client_step_zero:
  assumes "start_ok s" "holds p (enc_start s @ rest)" "ready p"
  shows "\<exists>p'. client_step os fuel from_fd to_fd p = Again p' \<and> holds p' rest \<and>
    advanced (items_text (start_log s)) [] p p'"
proof -
  note h = start_header [OF assms(1)]
  have at: "at (enc_start s @ rest) 0 (enc_start s @ rest)" by (simp add: at_def)
  let ?p1 = "p\<lparr>pr_kind := 0, pr_length := wire_len (start_body s),
    pr_logs := add_log (cfg_log_type (pr_config p)) (items_text (start_log s)) (pr_logs p)\<rparr>"
  have "log_to (start_log s) (p\<lparr>pr_kind := 0, pr_length := wire_len (start_body s)\<rparr>) = Returned ?p1"
    using assms(3) by (simp add: log_to_def log_all_open [OF _ start_log_ok] ready_def)
  moreover have "holds ?p1 (enc_start s @ rest)" using assms(2) by (simp add: holds_def)
  from holds_remove [OF this] obtain data n where
    "remove_front (scast (wire_len (start_body s))) ?p1 = Returned (?p1\<lparr>pr_data := data, pr_data_size := n\<rparr>)"
    "holds (?p1\<lparr>pr_data := data, pr_data_size := n\<rparr>) rest" unfolding h(3) by auto
  moreover have "enc_start s @ rest \<noteq> []" using h(4) by auto
  then have "pr_data_size p \<noteq> 0" "8 \<le> pr_data_size p" "pr_data p = Some (enc_start s @ rest)"
    using holds_size [OF assms(2)] holds_block [OF assms(2)] holds_nonempty [OF assms(2)] h(4)
    by (simp_all add: word_le_nat_alt)
  moreover have "advanced (items_text (start_log s)) [] p (?p1\<lparr>pr_data := data, pr_data_size := n\<rparr>)"
    by (simp add: advanced_def frame_simps)
  ultimately show ?thesis
    using h(1,2) fe_zero_at [OF assms(1) at]
    by (simp add: client_step_def client_zero_def Let_def go_on_def end_of_zero_def)
qed

interpretation client_stream: stream_loop "client_step os fuel from_fd to_fd" enc_item item_fine
  client_waits item_log "item_trace from_fd to_fd"
  for os :: "'w os" and fuel from_fd to_fd
proof unfold_locales
  fix x :: fe_item and p :: "'w proc" and rest
  assume "item_fine x" "holds p (enc_item x @ rest)" "ready p"
  then show "\<exists>p'. client_step os fuel from_fd to_fd p = Again p' \<and> holds p' rest \<and>
      advanced (items_text (item_log x)) (item_trace from_fd to_fd (cfg_output_sockets (pr_config p)) x) p p'"
    using client_step_zero client_step_kinded by (cases x) (simp_all del: item_fine.simps(2))
next
  fix rest and p :: "'w proc"
  assume "client_waits rest" "holds p rest"
  then show "\<exists>p'. client_step os fuel from_fd to_fd p = Stop (Returned p') \<and> holds p' rest \<and>
      advanced [] [] p p'" by (rule client_waits_stop)
qed


text \<open>
  A message with a kind may be cut anywhere: the rest is waited for. (Not so the messages without a
  kind: \<open>fe_zero\<close> runs as soon as eight bytes are there.)
\<close>

lemma enc_fe_nonempty: "enc_fe m \<noteq> []"
  by (simp add: enc_fe_def frame_def)

interpretation client_kinded: cuttable_stream "client_step os fuel from_fd to_fd" enc_fe
  "\<lambda>m. item_fine (Kinded m)" client_waits fe_log
  "\<lambda>sockets m. trace_line sockets (bs ''C'') from_fd to_fd (fe_kind m) None"
  for os :: "'w os" and fuel from_fd to_fd
proof unfold_locales
  fix tail u and m :: fe_msg
  assume "item_fine (Kinded m)" "u \<noteq> []" "tail @ u = enc_fe m"
  then show "client_waits tail" by (auto simp: client_waits_def)
next
  fix m and p :: "'w proc" and rest
  assume "item_fine (Kinded m)" "holds p (enc_fe m @ rest)" "ready p"
  then show "\<exists>p'. client_step os fuel from_fd to_fd p = Again p' \<and> holds p' rest \<and>
      advanced (items_text (fe_log m))
        (trace_line (cfg_output_sockets (pr_config p)) (bs ''C'') from_fd to_fd (fe_kind m) None) p p'"
    by (rule client_step_kinded)
next
  fix rest and p :: "'w proc"
  assume "client_waits rest" "holds p rest"
  then show "\<exists>p'. client_step os fuel from_fd to_fd p = Stop (Returned p') \<and> holds p' rest \<and>
      advanced [] [] p p'" by (rule client_waits_stop)
qed (simp_all add: client_waits_def enc_fe_nonempty)

section \<open>The properties\<close>

text \<open>
  C1. One call of \<open>pgprtdbg_client\<close>: when the bytes kept from before and the new chunk are a sequence
  of well-formed messages and a part of a further one, the call returns, having logged the chunk and
  then exactly the fields of each complete message in order, written one trace line for each message
  with a kind, counted the chunk that was read as one message with all of its bytes, and freed the log
  lock; the incomplete part is kept for the next
  call, and nothing else of the process changes.
\<close>

theorem client_processes_chunk:
  assumes "holds p old" "msg_bytes msg = Some bytes" "length bytes \<le> 65535" "length old < 2 ^ 62"
    "ready p" "counter < length (pr_counters p)"
    "old @ bytes = concat (map enc_item xs) @ tail" "list_all item_fine xs" "client_waits tail"
    "length xs < fuel"
  shows "\<exists>p'. pgprtdbg_client os fuel from_fd to_fd msg counter p = Returned p' \<and>
    processed ''FE'' (count_sent (msg_length msg)) counter bytes
      (items_text (concat (map item_log xs)))
      (concat (map (item_trace from_fd to_fd (cfg_output_sockets (pr_config p))) xs)) tail p p'"
  unfolding pgprtdbg_client_def by (rule client_stream.chunk [OF assms])

definition demo_items :: "fe_item list" where
  "demo_items = [Zero SslRequest, Kinded (Query (bs ''SELECT 1''))]"

lemma demo_holds: "holds (demo_proc chunks) []" "ready (demo_proc chunks)"
  by (simp_all add: holds_def ready_def demo_can)

lemma demo_items_fine: "list_all item_fine demo_items"
  by (simp add: demo_items_def start_ok_def fe_ok_def ch_not_nul fits_def del: of_char_Char)

lemma demo_bytes: "length (concat (map enc_item demo_items) @ [0x53]) = 23"
  by (simp add: demo_items_def enc_start_def enc_fe_def)

lemma demo_waits: "client_waits [0x53]"
proof -
  have "[0x53] @ tl (enc_fe Sync) = enc_fe Sync" by (simp add: enc_fe_def frame_def)
  moreover have "fe_ok Sync" "tl (enc_fe Sync) \<noteq> []"
    by (simp_all add: fe_ok_def fits_def enc_fe_def frame_def be32_def)
  ultimately show ?thesis unfolding client_waits_def by blast
qed

theorem client_processes_chunk_witness:
  "\<exists>p'. pgprtdbg_client wire_os 3 4 5 (message_of (concat (map enc_item demo_items) @ [0x53])) 0
      (demo_proc (\<lambda>_. [])) = Returned p' \<and>
    processed ''FE'' (count_sent (word_of_nat 23)) 0 (concat (map enc_item demo_items) @ [0x53])
      (items_text (concat (map item_log demo_items)))
      (concat (map (item_trace 4 5 False) demo_items)) [0x53] (demo_proc (\<lambda>_. [])) p'"
proof -
  let ?bytes = "concat (map enc_item demo_items) @ [0x53]"
  have "msg_bytes (message_of ?bytes) = Some ?bytes"
    by (rule msg_bytes_message_of) (simp only: demo_bytes, simp)
  moreover have "msg_length (message_of ?bytes) = word_of_nat 23"
    by (simp only: message_of_def demo_bytes) simp
  moreover have "length demo_items < 3" by (simp add: demo_items_def)
  ultimately show ?thesis
    using client_processes_chunk [OF demo_holds(1), where msg = "message_of ?bytes" and bytes = ?bytes
      and counter = 0 and xs = demo_items and tail = "[0x53]" and fuel = 3 and os = wire_os
      and from_fd = 4 and to_fd = 5] demo_holds(2) demo_items_fine demo_waits demo_bytes
    by (simp add: demo_can)
qed

lemma feed_append: "feed f (xs @ ys) p = and_then (feed f xs p) (feed f ys)"
proof (induction xs arbitrary: p)
  case (Cons x xs)
  then show ?case by (cases "f x p") simp_all
qed simp

text \<open>The messages without a kind that begin a session, each in a chunk of its own.\<close>

lemma client_starts:
  "list_all2 (\<lambda>msg s. msg_bytes msg = Some (enc_start s) \<and> length (enc_start s) \<le> 65535 \<and> start_ok s) msgs starts \<Longrightarrow>
    holds p [] \<Longrightarrow> ready p \<Longrightarrow> counter < length (pr_counters p) \<Longrightarrow> 1 < fuel \<Longrightarrow>
    \<exists>q. feed (\<lambda>msg. pgprtdbg_client os fuel from_fd to_fd msg counter) msgs p = Returned q \<and>
      holds q [] \<and> ready q \<and> length (pr_counters q) = length (pr_counters p) \<and>
      cfg_output_sockets (pr_config q) = cfg_output_sockets (pr_config p) \<and>
      cfg_file (pr_config q) = cfg_file (pr_config p)"
proof (induction msgs starts arbitrary: p rule: list_all2_induct)
  case (Cons msg msgs s starts)
  have "\<exists>q. pgprtdbg_client os fuel from_fd to_fd msg counter p = Returned q \<and>
    processed ''FE'' (count_sent (msg_length msg)) counter (enc_start s)
      (items_text (concat (map item_log [Zero s])))
      (concat (map (item_trace from_fd to_fd (cfg_output_sockets (pr_config p))) [Zero s])) [] p q"
    unfolding pgprtdbg_client_def using Cons.hyps(1)
    by (intro client_stream.chunk [OF Cons.prems(1) _ _ _ Cons.prems(2,3)])
      (simp_all add: client_waits_def Cons.prems(4) [unfolded One_nat_def])
  then obtain q where
    q: "pgprtdbg_client os fuel from_fd to_fd msg counter p = Returned q"
    "processed ''FE'' (count_sent (msg_length msg)) counter (enc_start s)
      (items_text (concat (map item_log [Zero s])))
      (concat (map (item_trace from_fd to_fd (cfg_output_sockets (pr_config p))) [Zero s])) [] p q"
    by blast
  note keeps = processed_keeps [OF q(2)]
  have "holds q []" using q(2) by (simp add: processed_def)
  with Cons.IH [of q] Cons.prems keeps q(1) show ?case by (auto simp: option.map_ident)
qed simp

text \<open>
  C20. The stream of a client, from its startup messages on: when these arrive whole, each in a chunk of
  its own, then however the messages with a kind that follow are cut into chunks of at most 65535 bytes,
  feeding the chunks one after the other decodes all of it: nothing is left over, and the trace file
  shows exactly the messages with a kind, in order (the code writes no line for the others).
\<close>

theorem client_chunks:
  assumes "list_all2 (\<lambda>msg s. msg_bytes msg = Some (enc_start s) \<and> length (enc_start s) \<le> 65535 \<and> start_ok s)
      first starts"
    "list_all2 (\<lambda>msg c. msg_bytes msg = Some c \<and> length c \<le> 65535) msgs chunks"
    "concat chunks = concat (map enc_fe ms)" "list_all (\<lambda>m. item_fine (Kinded m)) ms"
    "holds p []" "ready p" "counter < length (pr_counters p)" "length (concat chunks) < 2 ^ 62"
    "length ms < fuel" "1 < fuel"
  shows "\<exists>p'. feed (\<lambda>msg. pgprtdbg_client os fuel from_fd to_fd msg counter) (first @ msgs) p = Returned p' \<and>
    holds p' [] \<and> cfg_file (pr_config p') = map_option (\<lambda>file. file @ concat (map (\<lambda>m.
      trace_line (cfg_output_sockets (pr_config p)) (bs ''C'') from_fd to_fd (fe_kind m) None) ms))
      (cfg_file (pr_config p))"
proof -
  from client_starts [OF assms(1,5,6,7,10)] obtain q where
    q: "feed (\<lambda>msg. pgprtdbg_client os fuel from_fd to_fd msg counter) first p = Returned q" "holds q []" "ready q"
    "length (pr_counters q) = length (pr_counters p)"
    "cfg_output_sockets (pr_config q) = cfg_output_sockets (pr_config p)"
    "cfg_file (pr_config q) = cfg_file (pr_config p)" by blast
  have "partial enc_fe ms []"
    by (cases ms) (auto simp: partial_def enc_fe_nonempty)
  from client_kinded.feed_stream [OF pgprtdbg_client_def assms(2) q(2) this] q assms(3-)
  show ?thesis by (simp add: feed_append)
qed

definition demo_split :: "byte list list" where
  "demo_split = [take 2 (enc_fe Sync), drop 2 (enc_fe Sync) @ take 3 (enc_fe Flush), drop 3 (enc_fe Flush)]"

theorem client_chunks_witness:
  "\<exists>p'. feed (\<lambda>msg. pgprtdbg_client wire_os 5 4 5 msg 0)
      ([message_of (enc_start SslRequest)] @ map message_of demo_split) (demo_proc (\<lambda>_. [])) = Returned p' \<and>
    holds p' [] \<and> cfg_file (pr_config p') = map_option (\<lambda>file. file @ concat (map (\<lambda>m.
      trace_line False (bs ''C'') 4 5 (fe_kind m) None) [Sync, Flush])) (Some [])"
proof -
  have len: "length c \<le> 65535 \<and> length c < 2 ^ 31" if "c \<in> set demo_split" for c
    using that by (auto simp: demo_split_def enc_fe_def)
  then have chunks: "list_all2 (\<lambda>msg c. msg_bytes msg = Some c \<and> length c \<le> 65535)
      (map message_of demo_split) demo_split"
    by (auto simp: list_all2_conv_all_nth msg_bytes_message_of)
  have first: "list_all2 (\<lambda>msg s. msg_bytes msg = Some (enc_start s) \<and> length (enc_start s) \<le> 65535 \<and> start_ok s)
      [message_of (enc_start SslRequest)] [SslRequest]"
    by (simp add: msg_bytes_message_of enc_start_def start_ok_def)
  have "concat demo_split = concat (map enc_fe [Sync, Flush])" by (simp add: demo_split_def)
  from client_chunks [OF first chunks this, where p = "demo_proc (\<lambda>_. [])" and counter = 0
    and fuel = 5 and os = wire_os and from_fd = 4 and to_fd = 5] show ?thesis
    using demo_holds [of "\<lambda>_. []"]
    by (simp add: demo_can fe_ok_def fits_def enc_fe_def demo_split_def)
      (simp add: demo_configuration_def)
qed

text \<open>
  C27. A message whose length field is -1 stops the process for good: the loop logs and traces it
  again and again without removing anything, whatever the fuel.
\<close>

theorem client_loops_forever:
  assumes "holds p (ch CHR ''H'' # be32 (- 1) @ rest)" "ready p"
  shows "run_loop (client_step os fuel from_fd to_fd) n p = Diverged"
proof -
  let ?blk = "ch CHR ''H'' # be32 (- 1) @ rest"
  let ?P = "\<lambda>p. holds p ?blk \<and> ready p"
  have "\<exists>q. client_step os fuel from_fd to_fd p = Again q \<and> ?P q" if "?P p" for p :: "'a proc"
  proof -
    let ?p1 = "p\<lparr>pr_kind := ch CHR ''H'', pr_length := - 1,
      pr_logs := add_log (cfg_log_type (pr_config p)) (items_text [line ''FE: H'']) (pr_logs p)\<rparr>"
    let ?p2 = "?p1\<lparr>pr_config := add_trace (trace_line (cfg_output_sockets (pr_config p)) (bs ''C'')
      from_fd to_fd (ch CHR ''H'') None) (pr_config p)\<rparr>"
    from that have p: "holds p ?blk" and r: "ready p" by simp_all
    have "read_int32 ?blk 1 = Some (- 1)"
      by (rule read_int32_there [of _ _ _ rest]) (simp add: at_def)
    moreover have "pr_data p = Some ?blk" "5 \<le> pr_data_size p" "pr_data_size p \<noteq> 0"
      using holds_block [OF p] holds_size [OF p] holds_nonempty [OF p] by (simp_all add: word_le_nat_alt)
    moreover have "log_to [line ''FE: H''] (p\<lparr>pr_kind := ch CHR ''H'', pr_length := - 1\<rparr>) = Returned ?p1"
      using r by (simp add: log_to_def log_all_open ready_def del: log_all.simps of_char_Char)
    moreover have "output_write ''C'' from_fd to_fd (ch CHR ''H'') None ?p1 = Returned ?p2"
      using r by (subst output_write_open) (simp_all add: ready_def del: of_char_Char)
    moreover have "holds ?p2 ?blk" "ready ?p2" using p r by (simp_all add: holds_def ready_def)
    moreover from holds_remove [of ?p2 "[]" ?blk] \<open>holds ?p2 ?blk\<close> obtain data k where
      "remove_front 0 ?p2 = Returned (?p2\<lparr>pr_data := data, pr_data_size := k\<rparr>)"
      "holds (?p2\<lparr>pr_data := data, pr_data_size := k\<rparr>) ?blk" by (force simp del: of_char_Char)
    ultimately show ?thesis
      by (simp add: client_step_def read_byte_def ch_nonzero framed_def Let_def c_int_def
          fe_dispatch_def fe_H_def go_on_def ready_def del: of_char_Char One_nat_def)
  qed
  then show ?thesis
    using loop_forever [of ?P "client_step os fuel from_fd to_fd" p n] assms by (simp add: run_loop_def)
qed

theorem client_loops_forever_witness:
  "run_loop (client_step wire_os 9 4 5) 1000
     ((demo_proc (\<lambda>_. []))\<lparr>pr_data := Some (ch CHR ''H'' # be32 (- 1)), pr_data_size := 5\<rparr>) = Diverged"
  by (rule client_loops_forever [where rest = "[]"])
    (simp_all add: ready_def demo_can holds_def buffer_ok_def del: of_char_Char)

end
