(* ===== verification/ServerStream.thy ===== *)
theory ServerStream
  imports Protocol
begin

text \<open>
  The server's direction: what \<open>pgprtdbg_server\<close> does with a stream of well-formed messages, and the
  one byte it takes for a whole message.
\<close>

section \<open>The server's stream\<close>

definition be_trace :: "i32 \<Rightarrow> i32 \<Rightarrow> bool \<Rightarrow> be_msg \<Rightarrow> ctext" where
  "be_trace from_fd to_fd sockets m = trace_line sockets (bs ''S'') from_fd to_fd (be_kind m) None"

text \<open>
  What the loop waits for: nothing is left, or a part of a message, but not the single byte \<open>N\<close>,
  which is taken for the answer to an encryption request.
\<close>

definition server_waits :: "byte list \<Rightarrow> bool" where
  "server_waits t \<longleftrightarrow> t = [] \<or> t \<noteq> [ch CHR ''N''] \<and> (\<exists>m u. be_ok m \<and> u \<noteq> [] \<and> t @ u = enc_be m)"

lemma be_kind_nonzero: "be_ok m \<Longrightarrow> be_kind m \<noteq> 0"
proof (cases m)
  case (Bare c b)
  assume "be_ok m"
  with Bare have "c \<noteq> CHR 0x00" by (auto simp: be_ok_def bare_kinds_def)
  with Bare show ?thesis by (simp add: ch_nonzero)
qed (simp_all add: be_ok_def ch_nonzero del: of_char_Char)

lemma log_column_ok: "list_all item_ok (log_column c)"
  by (cases c) (simp add: log_column_def split: option.splits)

lemma be_log_ok: "list_all item_ok (be_log m)"
proof (cases m)
  case (DataRow vs)
  then show ?thesis using log_column_ok by (auto simp: list_all_iff)
qed (auto simp: list_all_iff log_error_field_def log_row_field_def split: option.splits)

lemma prefix_size_one: "t @ u = frame k payload \<Longrightarrow> length t = 1 \<Longrightarrow> t = [k]"
  by (cases t) (auto simp: frame_def)

lemma server_waits_stop:
  assumes "server_waits t" "holds p t"
  shows "\<exists>p'. server_step from_fd to_fd p = Stop (Returned p') \<and> holds p' t \<and> advanced [] [] p p'"
proof (cases "t = []")
  case True
  with assms(2) holds_empty [of p] show ?thesis by (simp add: server_step_def advanced_refl)
next
  case False
  with assms(1) obtain m u where m: "be_ok m" "u \<noteq> []" "t @ u = frame (be_kind m) (be_payload m)"
    and n: "t \<noteq> [ch CHR ''N'']" by (auto simp: server_waits_def enc_be_def)
  have one: "pr_data_size p = 1 \<longleftrightarrow> length t = 1"
    using holds_size [OF assms(2)] by (simp add: word_unat_eq_iff)
  have not_n: "\<not> (be_kind m = ch CHR ''N'' \<and> pr_data_size p = 1)"
    using prefix_size_one [OF m(3)] n one by auto
  have "fits (be_payload m)" using m(1) by (simp add: be_ok_def)
  note framed_incomplete [OF _ m(3,2) this, of "p\<lparr>pr_kind := be_kind m\<rparr>"]
  moreover have "holds (p\<lparr>pr_kind := be_kind m\<rparr>) t" using assms(2) by (simp add: holds_def)
  ultimately show ?thesis
    using False holds_block [OF assms(2)] holds_nonempty [OF assms(2)] holds_size [OF assms(2)]
      prefix_head [OF m(3)] be_kind_nonzero [OF m(1)] not_n
    by (auto simp: server_step_def Let_def word_le_nat_alt holds_def advanced_def frame_simps
        simp del: of_char_Char)
qed

lemma server_step_message:
  assumes "be_ok m" "holds p (enc_be m @ rest)" "ready p"
  shows "\<exists>p'. server_step from_fd to_fd p = Again p' \<and> holds p' rest \<and>
    advanced (items_text (be_log m)) (be_trace from_fd to_fd (cfg_output_sockets (pr_config p)) m) p p'"
proof -
  let ?k = "be_kind m" and ?blk = "frame (be_kind m) (be_payload m) @ rest"
  have ok: "fits (be_payload m)" using assms(1) by (simp add: be_ok_def)
  have blk: "enc_be m @ rest = ?blk" by (simp add: enc_be_def)
  have "be_dispatch ?k ?blk (wire_len (be_payload m)) = Some (be_log m)"
    by (rule be_dispatch_at [OF assms(1) frame_at])
  with framed_complete [of "p\<lparr>pr_kind := ?k\<rparr>" ?k "be_payload m" rest be_dispatch "be_log m" "''S''"]
    ok assms be_log_ok [of m] obtain p' where
    "framed be_dispatch ''S'' from_fd to_fd ?blk (p\<lparr>pr_kind := ?k\<rparr>) = Again p'" "holds p' rest"
    "advanced (items_text (be_log m))
      (trace_line (cfg_output_sockets (pr_config p)) (bs ''S'') from_fd to_fd ?k None) (p\<lparr>pr_kind := ?k\<rparr>) p'"
    by (auto simp: holds_def ready_def blk)
  moreover have "?blk \<noteq> []" by (simp add: frame_def)
  then have "5 \<le> unat (pr_data_size p)" "pr_data p = Some ?blk" "pr_data_size p \<noteq> 0"
    using holds_size [OF assms(2)] holds_block [OF assms(2)] holds_nonempty [OF assms(2)]
    by (simp_all add: blk)
  moreover from this(1) have "pr_data_size p \<noteq> 1" by auto
  ultimately show ?thesis
    using be_kind_nonzero [OF assms(1)]
    by (auto simp: server_step_def frame_header(1) Let_def advanced_def frame_simps be_trace_def
        word_le_nat_alt simp del: of_char_Char)
qed

interpretation server_stream: stream_loop "server_step from_fd to_fd" enc_be be_ok server_waits
  be_log "be_trace from_fd to_fd"
  for from_fd to_fd
  by unfold_locales (rule server_step_message server_waits_stop; assumption)+

text \<open>
  A \<open>NoticeResponse\<close> must not be cut behind its first byte; every other message of the server may be cut
  anywhere.
\<close>

lemma enc_be_nonempty: "enc_be m \<noteq> []"
  by (simp add: enc_be_def frame_def)

lemma server_waits_part:
  assumes "be_ok m" "be_kind m \<noteq> ch CHR ''N''" "u \<noteq> []" "t @ u = enc_be m"
  shows "server_waits t"
proof -
  have "t \<noteq> [ch CHR ''N'']" using assms(2,4) by (auto simp: enc_be_def frame_def simp del: of_char_Char)
  with assms show ?thesis by (auto simp: server_waits_def simp del: of_char_Char)
qed

interpretation server_cuttable: cuttable_stream "server_step from_fd to_fd" enc_be
  "\<lambda>m. be_ok m \<and> be_kind m \<noteq> ch CHR ''N''" server_waits be_log "be_trace from_fd to_fd"
  for from_fd to_fd
proof unfold_locales
  fix m and p :: "'a proc" and rest
  assume "be_ok m \<and> be_kind m \<noteq> ch CHR ''N''" "holds p (enc_be m @ rest)" "ready p"
  then show "\<exists>p'. server_step from_fd to_fd p = Again p' \<and> holds p' rest \<and>
      advanced (items_text (be_log m)) (be_trace from_fd to_fd (cfg_output_sockets (pr_config p)) m) p p'"
    by (intro server_step_message) simp_all
next
  fix rest and p :: "'a proc"
  assume "server_waits rest" "holds p rest"
  then show "\<exists>p'. server_step from_fd to_fd p = Stop (Returned p') \<and> holds p' rest \<and> advanced [] [] p p'"
    by (rule server_waits_stop)
next
  fix m t u
  assume "be_ok m \<and> be_kind m \<noteq> ch CHR ''N''" "u \<noteq> []" "t @ u = enc_be m"
  then show "server_waits t" by (intro server_waits_part) simp_all
qed (simp_all add: enc_be_nonempty server_waits_def)

section \<open>The properties\<close>

text \<open>
  C26. One call of \<open>pgprtdbg_server\<close>: as for the client's direction, the complete messages among the
  kept bytes and the chunk are logged, traced and removed, and the incomplete part is kept. What is
  counted is the chunk that was read, as one message with all of its bytes. The kept part must not be
  the single byte \<open>N\<close>.
\<close>

theorem server_processes_chunk:
  assumes "holds p old" "msg_bytes msg = Some bytes" "length bytes \<le> 65535" "length old < 2 ^ 62"
    "ready p" "counter < length (pr_counters p)"
    "old @ bytes = concat (map enc_be xs) @ tail" "list_all be_ok xs" "server_waits tail"
    "length xs < fuel"
  shows "\<exists>p'. pgprtdbg_server fuel from_fd to_fd msg counter p = Returned p' \<and>
    processed ''BE'' (count_rcvd (msg_length msg)) counter bytes
      (items_text (concat (map be_log xs)))
      (concat (map (be_trace from_fd to_fd (cfg_output_sockets (pr_config p))) xs)) tail p p'"
  unfolding pgprtdbg_server_def by (rule server_stream.chunk [OF assms])

lemma demo_start: "holds (demo_proc chunks) []" "ready (demo_proc chunks)"
  by (simp_all add: holds_def ready_def demo_can)

definition demo_answer :: "be_msg list" where
  "demo_answer = [CommandComplete (bs ''SELECT 1''), ReadyForQuery 73]"

lemma demo_answer_bytes: "length (concat (map enc_be demo_answer)) = 20"
  by (simp add: demo_answer_def enc_be_def)

theorem server_processes_chunk_witness:
  "\<exists>p'. pgprtdbg_server 3 5 4 (message_of (concat (map enc_be demo_answer))) 0
      (demo_proc (\<lambda>_. [])) = Returned p' \<and>
    processed ''BE'' (count_rcvd (msg_length (message_of (concat (map enc_be demo_answer))))) 0
      (concat (map enc_be demo_answer)) (items_text (concat (map be_log demo_answer)))
      (concat (map (be_trace 5 4 (cfg_output_sockets (pr_config (demo_proc (\<lambda>_. []))))) demo_answer))
      [] (demo_proc (\<lambda>_. [])) p'"
proof -
  let ?bytes = "concat (map enc_be demo_answer)"
  have "msg_bytes (message_of ?bytes) = Some ?bytes"
    using demo_answer_bytes by (intro msg_bytes_message_of) simp
  moreover have "length ?bytes \<le> 65535" using demo_answer_bytes by simp
  moreover have "list_all be_ok demo_answer" "length demo_answer < 3"
    by (simp_all add: demo_answer_def be_ok_def ch_not_nul fits_def del: of_char_Char)
  ultimately show ?thesis
    using server_processes_chunk [OF demo_start(1), where msg = "message_of ?bytes" and bytes = ?bytes
      and counter = 0 and xs = demo_answer and tail = "[]" and fuel = 3 and from_fd = 5 and to_fd = 4]
      demo_start(2) [of "\<lambda>_. []"]
    by (simp add: server_waits_def)
qed

text \<open>
  C21. However the answers of a server are cut into chunks of at most 65535 bytes, feeding the chunks one
  after the other decodes all of them: nothing is left over, and the trace file shows exactly the
  messages, in order. There must be no \<open>NoticeResponse\<close> among them.
\<close>

theorem server_chunks:
  assumes "list_all2 (\<lambda>msg c. msg_bytes msg = Some c \<and> length c \<le> 65535) msgs chunks"
    "concat chunks = concat (map enc_be ms)" "list_all (\<lambda>m. be_ok m \<and> be_kind m \<noteq> ch CHR ''N'') ms"
    "holds p []" "ready p" "counter < length (pr_counters p)" "length (concat chunks) < 2 ^ 62"
    "length ms < fuel"
  shows "\<exists>p'. feed (\<lambda>msg. pgprtdbg_server fuel from_fd to_fd msg counter) msgs p = Returned p' \<and>
    holds p' [] \<and> cfg_file (pr_config p') = map_option (\<lambda>file. file @ concat (map
      (be_trace from_fd to_fd (cfg_output_sockets (pr_config p))) ms)) (cfg_file (pr_config p))"
proof -
  have "partial enc_be ms []" by (cases ms) (auto simp: partial_def enc_be_nonempty)
  from server_cuttable.feed_stream [OF pgprtdbg_server_def assms(1,4) this] assms(2-) show ?thesis by simp
qed

definition demo_cut :: "byte list list" where
  "demo_cut = [take 7 (enc_be (CommandComplete (bs ''SELECT 1''))),
     drop 7 (enc_be (CommandComplete (bs ''SELECT 1''))) @ take 1 (enc_be (ReadyForQuery 73)),
     drop 1 (enc_be (ReadyForQuery 73))]"

theorem server_chunks_witness:
  "\<exists>p'. feed (\<lambda>msg. pgprtdbg_server 5 5 4 msg 0) (map message_of demo_cut) (demo_proc (\<lambda>_. [])) = Returned p' \<and>
    holds p' [] \<and> cfg_file (pr_config p') = map_option (\<lambda>file. file @ concat (map (be_trace 5 4 False) demo_answer)) (Some [])"
proof -
  have len: "length c \<le> 65535 \<and> length c < 2 ^ 31" if "c \<in> set demo_cut" for c
    using that by (auto simp: demo_cut_def enc_be_def)
  then have chunks: "list_all2 (\<lambda>msg c. msg_bytes msg = Some c \<and> length c \<le> 65535) (map message_of demo_cut) demo_cut"
    by (auto simp: list_all2_conv_all_nth msg_bytes_message_of)
  have all: "concat demo_cut = concat (map enc_be demo_answer)" by (simp add: demo_cut_def demo_answer_def)
  have "list_all (\<lambda>m. be_ok m \<and> be_kind m \<noteq> ch CHR ''N'') demo_answer"
    by (simp add: demo_answer_def be_ok_def ch_not_nul fits_def del: of_char_Char)
  moreover have "length (concat demo_cut) < 2 ^ 62" using demo_answer_bytes by (simp add: all)
  ultimately show ?thesis
    using server_chunks [OF chunks all _ demo_start(1), where counter = 0 and fuel = 5 and from_fd = 5 and to_fd = 4]
      demo_start(2) [of "\<lambda>_. []"]
    by (simp add: demo_can) (simp add: demo_configuration_def demo_answer_def)
qed

text \<open>
  A chunk that ends after the first byte of a \<open>NoticeResponse\<close>: the byte is taken for a complete
  message, is logged as one and thrown away, so that the rest of the message comes next without its
  kind byte.
\<close>

theorem server_loses_notice_kind:
  assumes "holds p [ch CHR ''N'']" "ready p" "1 < n"
  shows "\<exists>p'. run_loop (server_step from_fd to_fd) n p = Returned p' \<and> holds p' [] \<and>
    advanced (items_text [line ''BE: N'']) [] p p'"
proof -
  let ?p1 = "p\<lparr>pr_kind := ch CHR ''N'', pr_length := 1,
    pr_logs := add_log (cfg_log_type (pr_config p)) (items_text [line ''BE: N'']) (pr_logs p)\<rparr>"
  have "pr_data p = Some [ch CHR ''N'']" "unat (pr_data_size p) = 1" "pr_data_size p \<noteq> 0"
    using holds_block [OF assms(1)] holds_size [OF assms(1)] holds_nonempty [OF assms(1)] by simp_all
  moreover from this(2) have "pr_data_size p = 1" by (simp add: word_unat_eq_iff)
  moreover have "log_to [line ''BE: N''] (p\<lparr>pr_kind := ch CHR ''N'', pr_length := 1\<rparr>) = Returned ?p1"
    using assms(2) by (simp add: log_to_def log_all_open ready_def del: log_all.simps of_char_Char)
  moreover have "holds ?p1 ([ch CHR ''N''] @ [])" using assms(1) by (simp add: holds_def del: of_char_Char)
  from holds_remove [OF this] obtain data k where
    "remove_front 1 ?p1 = Returned (?p1\<lparr>pr_data := data, pr_data_size := k\<rparr>)"
    and q: "holds (?p1\<lparr>pr_data := data, pr_data_size := k\<rparr>) []" by (auto simp del: of_char_Char)
  ultimately have "server_step from_fd to_fd p = Again (?p1\<lparr>pr_data := data, pr_data_size := k\<rparr>)"
    by (simp add: server_step_def read_byte_def Let_def be_N_def go_on_def del: of_char_Char)
  moreover have "server_step from_fd to_fd (?p1\<lparr>pr_data := data, pr_data_size := k\<rparr>) =
      Stop (Returned (?p1\<lparr>pr_data := data, pr_data_size := k\<rparr>))"
    using holds_empty [OF q] by (simp add: server_step_def del: of_char_Char)
  moreover obtain m where "n = Suc (Suc m)" using assms(3) that [of "n - 2"] by simp
  ultimately show ?thesis
    using q by (auto simp: run_loop_def advanced_def frame_simps simp del: of_char_Char)
qed

theorem server_loses_notice_kind_witness:
  "\<exists>p'. run_loop (server_step 5 4) 2
      ((demo_proc (\<lambda>_. []))\<lparr>pr_data := Some [ch CHR ''N''], pr_data_size := 1\<rparr>) = Returned p' \<and>
    holds p' [] \<and> advanced (items_text [line ''BE: N'']) []
      ((demo_proc (\<lambda>_. []))\<lparr>pr_data := Some [ch CHR ''N''], pr_data_size := 1\<rparr>) p'"
  by (rule server_loses_notice_kind)
    (simp_all add: holds_def buffer_ok_def ready_def demo_can del: of_char_Char)

end
