(* ===== verification/Faults.thy ===== *)
theory Faults
  imports ClientStream ServerStream
begin

text \<open>
  What \<open>pgprtdbg_client\<close> and \<open>pgprtdbg_server\<close> do with streams that are not sequences of well-formed
  version 3 messages in one direction only: version 2 clients, unknown requests, startup messages
  that arrive in pieces, and a server that answers while a message of the client is incomplete.
\<close>

section \<open>Messages without a kind\<close>

text \<open>The part of a round before \<open>fe_zero\<close>.\<close>

lemma client_step_no_kind:
  assumes "holds p blk" "hd blk = 0" "8 \<le> length blk"
  shows "client_step os fuel from_fd to_fd p =
    go_on (client_zero os fuel from_fd blk (p\<lparr>pr_kind := 0\<rparr>))"
proof -
  have "blk \<noteq> []" using assms(3) by auto
  then have "pr_data p = Some blk" "read_byte blk 0 = Some 0" "8 \<le> pr_data_size p" "pr_data_size p \<noteq> 0"
    using holds_block [OF assms(1)] holds_size [OF assms(1)] holds_nonempty [OF assms(1)] assms(2,3)
    by (auto simp: word_le_nat_alt read_byte_def hd_conv_nth)
  then show ?thesis by (simp add: client_step_def)
qed

lemma fe_zero_other:
  assumes "read_int32 blk 4 = Some request"
    "request \<notin> {196608, 80877102, 80877103, 80877104, 131072}"
  shows "fe_zero blk len = Some ([line ''FE: 0'', line_d32 ''    Request: '' request], Exit_1)"
  using assms by (simp add: fe_zero_def)

lemma log_open:
  "ready p \<Longrightarrow> list_all item_ok items \<Longrightarrow> log_to items p =
    Returned (p\<lparr>pr_logs := add_log (cfg_log_type (pr_config p)) (items_text items) (pr_logs p)\<rparr>)"
  by (simp add: log_to_def log_all_open ready_def)

text \<open>
  C40. A message without a kind whose request code is none of the known ones ends the worker process
  with \<open>exit (1)\<close> in the middle of the call: the log lock is left in use, and neither the message nor
  what follows it in the block is handled.
\<close>

theorem unknown_request_exits:
  assumes "holds p []" "ready p" "msg_bytes msg = Some bytes" "8 \<le> length bytes" "length bytes \<le> 65535"
    "hd bytes = 0" "read_int32 bytes 4 = Some request"
    "request \<notin> {196608, 80877102, 80877103, 80877104, 131072}"
    "counter < length (pr_counters p)" "0 < fuel"
  shows "\<exists>p'. pgprtdbg_client os fuel from_fd to_fd msg counter p = Exited 1 p' \<and>
    cfg_log_lock (pr_config p') = STATE_IN_USE \<and> cfg_file (pr_config p') = cfg_file (pr_config p)"
proof -
  from take_in_chunk [OF assms(1,3,5) _ assms(2,9), where side = "''FE''"
    and count = "count_sent (msg_length msg)"] obtain q where
    q: "take_in ''FE'' (count_sent (msg_length msg)) msg counter p = Returned q" "holds q bytes" "ready q"
    "pr_config q = log_lock (pr_config p)" by (auto simp: Let_def)
  obtain len where len: "read_int32 bytes 0 = Some len"
    using read_int32_None_iff [of bytes 0] assms(4) by (cases "read_int32 bytes 0") auto
  let ?p1 = "q\<lparr>pr_kind := 0, pr_length := len, pr_logs := add_log (cfg_log_type (pr_config q))
    (items_text [line ''FE: 0'', line_d32 ''    Request: '' request]) (pr_logs q)\<rparr>"
  have "client_zero os fuel from_fd bytes (q\<lparr>pr_kind := 0\<rparr>) = Exited 1 ?p1"
    using len q(3) by (simp add: client_zero_def fe_zero_other [OF assms(7,8)] log_open ready_def
        end_of_zero_def)
  then have "client_step os fuel from_fd to_fd q = Stop (Exited 1 ?p1)"
    using client_step_no_kind [OF q(2) assms(6,4)] by (simp add: go_on_def)
  moreover obtain m where "fuel = Suc m" using assms(10) by (cases fuel) auto
  ultimately have "pgprtdbg_client os fuel from_fd to_fd msg counter p = Exited 1 ?p1"
    by (simp add: pgprtdbg_client_def q(1) run_loop_def)
  moreover have "cfg_log_lock (pr_config ?p1) = STATE_IN_USE"
    "cfg_file (pr_config ?p1) = cfg_file (pr_config p)" by (simp_all add: q(4) log_lock_def)
  ultimately show ?thesis by blast
qed

definition demo_unknown :: "byte list" where
  "demo_unknown = [0, 0, 0, 8, 0, 9, 9, 9]"

theorem unknown_request_exits_witness:
  "\<exists>p'. pgprtdbg_client wire_os 1 4 5 (message_of demo_unknown) 0 (demo_proc (\<lambda>_. [])) = Exited 1 p' \<and>
    cfg_log_lock (pr_config p') = STATE_IN_USE \<and>
    cfg_file (pr_config p') = cfg_file (pr_config (demo_proc (\<lambda>_. [])))"
proof (rule unknown_request_exits [where bytes = demo_unknown and request = 592137])
  show "msg_bytes (message_of demo_unknown) = Some demo_unknown"
    by (rule msg_bytes_message_of) (simp add: demo_unknown_def)
  show "read_int32 demo_unknown 4 = Some 592137" by code_simp
qed (simp_all add: demo_holds demo_unknown_def)

text \<open>The bytes a version 2 client gets: \<open>E\<close>, the text with its NUL, and the empty message.\<close>

definition refusal :: "byte list" where
  "refusal = ch CHR ''E'' # zstr (bs ''connection refused'')"

lemma refuse_old_sends:
  assumes "kernel_ok os sent rcvd" "kernel_progress os patience k" "kernel_steady os"
    "20 * (k + 1) + k + 1 \<le> fuel"
  shows "\<exists>p'. refuse_old os fuel fd p = Returned p' \<and> same_else p p' \<and>
    sent (io_world p') = (sent (io_world p))(fd := sent (io_world p) fd @ refusal @ [0]) \<and>
    rcvd (io_world p') = rcvd (io_world p)"
proof -
  let ?m = "zero_message\<lparr>msg_kind := ch CHR ''E'', msg_length := 20, msg_data := Some refusal\<rparr>"
  let ?z = "zero_message\<lparr>msg_kind := 0, msg_length := 1, msg_data := Some [0]\<rparr>"
  have ref: "length refusal = 20" by (simp add: refusal_def del: of_char_Char)
  have "do { array \<leftarrow> write_byte (replicate 20 0) 0 (ch CHR ''E'');
      write_string array 1 (bs ''connection refused'') } = Some refusal"
    by (simp add: write_byte_def write_string_def put_def refusal_def zstr_def numeral_eq_Suc
        del: of_char_Char)
  then have 1: "write_connection_refused_old os fuel fd p = write_message os fuel fd ?m p"
    by (simp add: write_connection_refused_old_def Let_def del: of_char_Char)
  have "msg_bytes ?m = Some refusal" "refusal \<noteq> []" "write_fuel k ?m \<le> fuel"
    using ref assms(4) by (auto simp: msg_bytes_def block_prefix_def write_fuel_def)
  from write_message_steady [OF assms(1-3) this(1,2) _ this(3), of fd p] ref obtain q where
    q: "write_message os fuel fd ?m p = Returned (MESSAGE_STATUS_OK, q)" "same_else p q"
    "rcvd (io_world q) = rcvd (io_world p)"
    "sent (io_world q) = (sent (io_world p))(fd := sent (io_world p) fd @ refusal)" by auto
  have "msg_bytes ?z = Some [0]" "write_fuel k ?z \<le> fuel"
    using assms(4) by (auto simp: msg_bytes_def block_prefix_def write_fuel_def)
  from write_message_steady [OF assms(1-3) this(1) _ _ this(2), of fd q] obtain r where
    "write_empty os fuel fd q = Returned (MESSAGE_STATUS_OK, r)" "same_else q r"
    "rcvd (io_world r) = rcvd (io_world q)"
    "sent (io_world r) = (sent (io_world q))(fd := sent (io_world q) fd @ [0])"
    by (auto simp: write_empty_def)
  with 1 q show ?thesis by (auto simp: refuse_old_def same_else_def)
qed


lemma fe_zero_old:
  "read_int32 blk 4 = Some 131072 \<Longrightarrow>
    fe_zero blk len = Some ([line ''FE: 0'', line_d32 ''    Request: '' 131072], Refuse)"
  by (simp add: fe_zero_def)

lemma same_else_proc:
  assumes "same_else p q"
  shows "pr_config q = pr_config p" "pr_logs q = pr_logs p" "pr_data q = pr_data p"
    "pr_data_size q = pr_data_size p" "pr_length q = pr_length p" "pr_kind q = pr_kind p"
    "pr_counters q = pr_counters p"
  using assms by (simp_all add: same_else_def proc.defs) (cases p; cases q; simp)+

text \<open>
  A version 2 client is refused: as soon as its startup message is in the block, the client gets
  the error \<open>connection refused\<close> and a NUL byte, nothing else is sent, and the message is removed.
\<close>

theorem old_protocol_refused:
  assumes "kernel_ok os sent rcvd" "kernel_progress os patience k" "kernel_steady os"
    "20 * (k + 1) + k + 1 \<le> fuel" "ready p" "holds p blk" "hd blk = 0" "8 \<le> length blk"
    "read_int32 blk 0 = Some (word_of_nat n)" "n \<le> length blk" "n < 2 ^ 31"
    "read_int32 blk 4 = Some 131072"
  shows "\<exists>p'. client_step os fuel from_fd to_fd p = Again p' \<and> holds p' (drop n blk) \<and>
    sent (io_world p') = (sent (io_world p))(from_fd := sent (io_world p) from_fd @ refusal @ [0])"
proof -
  let ?p1 = "p\<lparr>pr_kind := 0, pr_length := word_of_nat n, pr_logs := add_log (cfg_log_type (pr_config p))
    (items_text [line ''FE: 0'', line_d32 ''    Request: '' 131072]) (pr_logs p)\<rparr>"
  have log: "log_to [line ''FE: 0'', line_d32 ''    Request: '' 131072]
      (p\<lparr>pr_kind := 0, pr_length := word_of_nat n\<rparr>) = Returned ?p1"
    using assms(5) by (subst log_open) (simp_all add: ready_def)
  from refuse_old_sends [OF assms(1-4), of from_fd ?p1] obtain q where
    q: "refuse_old os fuel from_fd ?p1 = Returned q" "same_else ?p1 q"
    "sent (io_world q) = (sent (io_world p))(from_fd := sent (io_world p) from_fd @ refusal @ [0])" by auto
  note same = same_else_proc [OF q(2)]
  have "holds q (take n blk @ drop n blk)" using assms(6) same by (simp add: holds_def)
  moreover have "length (take n blk) = n" using assms(10) by simp
  ultimately obtain data size where
    r: "remove_front (word_of_nat n) q = Returned (q\<lparr>pr_data := data, pr_data_size := size\<rparr>)"
    "holds (q\<lparr>pr_data := data, pr_data_size := size\<rparr>) (drop n blk)" using holds_remove by metis
  have len: "(scast (word_of_nat n :: i32) :: size_t) = word_of_nat n"
    using assms(11) by (simp add: scast_eq sint_length)
  have "client_zero os fuel from_fd blk (p\<lparr>pr_kind := 0\<rparr>) =
      Returned (q\<lparr>pr_data := data, pr_data_size := size\<rparr>)"
    using log q(1) r(1) same(5) len
    by (simp add: client_zero_def assms(9) fe_zero_old [OF assms(12)] end_of_zero_def)
  with client_step_no_kind [OF assms(6-8)] r(2) q(3) show ?thesis by (simp add: go_on_def)
qed

definition demo_old :: "byte list" where
  "demo_old = [0, 0, 0, 8, 0, 2, 0, 0, 0x51]"

theorem old_protocol_refused_witness:
  "\<exists>p'. client_step wire_os 60 4 5 ((demo_proc (\<lambda>_. []))\<lparr>pr_data := Some demo_old, pr_data_size := 9\<rparr>) = Again p' \<and>
    holds p' (drop 8 demo_old) \<and>
    wire_out (io_world p') = (wire_out (wire_start (\<lambda>_. [])))(4 := wire_out (wire_start (\<lambda>_. [])) 4 @ refusal @ [0])"
proof -
  let ?p = "(demo_proc (\<lambda>_. []))\<lparr>pr_data := Some demo_old, pr_data_size := 9\<rparr>"
  have "read_int32 demo_old 0 = Some (word_of_nat 8)" by code_simp
  moreover have "read_int32 demo_old 4 = Some 131072" by code_simp
  ultimately show ?thesis using old_protocol_refused [OF wire_ok wire_progress wire_steady, where fuel = 60 and p = ?p
      and blk = demo_old and n = 8 and from_fd = 4 and to_fd = 5]
    by (simp add: ready_def demo_can holds_def buffer_ok_def demo_old_def)
qed

text \<open>
  C38. A startup message that arrives in pieces, the first of them at least eight bytes long, is
  undefined behaviour: the loop does not wait for the rest of a message without a kind.
\<close>

theorem startup_in_pieces:
  assumes "start_ok (Startup ps)" "t @ u = enc_start (Startup ps)" "u \<noteq> []" "8 \<le> length t" "holds p t"
  shows "client_step os fuel from_fd to_fd p = Stop Undefined"
proof -
  let ?body = "start_body (Startup ps)"
  have "take 8 t = take 8 (t @ u)" using assms(4) by simp
  then have "take 8 t = be32 (wire_len ?body) @ be32 196608"
    by (simp only: assms(2)) (simp add: enc_start_def)
  then have t: "t = be32 (wire_len ?body) @ be32 196608 @ drop 8 t"
    by (metis append.assoc append_take_drop_id)
  have r0: "read_int32 t 0 = Some (wire_len ?body)"
    by (rule read_int32_there [of _ _ _ "be32 196608 @ drop 8 t"], subst t) (simp add: at_def)
  have r4: "read_int32 t 4 = Some 196608"
    by (rule read_int32_there [of _ _ _ "drop 8 t"], subst t) (simp add: at_def)
  have "read_byte (t @ u) 0 = Some 0" using start_header(1) [OF assms(1), of "[]"] assms(2) by simp
  then have hd: "hd t = 0" using assms(4) by (cases t) (auto simp: read_byte_def)
  have "length t + length u = length (enc_start (Startup ps))"
    using arg_cong [OF assms(2), of length] by simp
  then have less: "length t < length (enc_start (Startup ps))" using assms(3) by (cases u) auto
  have "length ?body < 2 ^ 24 - 4" using assms(1) by (simp add: start_ok_def)
  then have small: "length (enc_start (Startup ps)) < 2 ^ 63" by (simp add: enc_start_def)
  have "data_remove (pr_data q) (pr_data_size q) (scast (wire_len ?body)) = None"
    if "pr_data q = pr_data p" "pr_data_size q = pr_data_size p" for q :: "'a proc"
    unfolding start_header(3) [OF assms(1)]
  proof (rule data_remove_too_much)
    show "buffer_ok (pr_data q) (pr_data_size q)" using assms(5) that by (simp add: holds_def)
    show "pr_data_size q < word_of_nat (length (enc_start (Startup ps)))"
      using holds_less [OF assms(5) small] less that by simp
  qed
  then have "client_zero os fuel from_fd t (p\<lparr>pr_kind := 0\<rparr>) = Undefined"
    using r0 r4 by (cases "startup_params t (wire_len ?body)")
      (auto simp: client_zero_def fe_zero_def log_to_def remove_front_def end_of_zero_def
        Let_def simp del: start_body.simps split: option.splits)
  with client_step_no_kind [OF assms(5) hd assms(4)] show ?thesis by (simp add: go_on_def)
qed

definition demo_startup :: start_msg where
  "demo_startup = Startup [bs ''user'', bs ''ann'']"

theorem startup_in_pieces_witness:
  "client_step wire_os 9 4 5 ((demo_proc (\<lambda>_. []))
     \<lparr>pr_data := Some (take 12 (enc_start demo_startup)), pr_data_size := 12\<rparr>) = Stop Undefined"
proof (rule startup_in_pieces)
  show "start_ok (Startup [bs ''user'', bs ''ann''])"
    by (simp add: start_ok_def ch_not_nul del: of_char_Char)
  show "take 12 (enc_start demo_startup) @ drop 12 (enc_start demo_startup) =
      enc_start (Startup [bs ''user'', bs ''ann''])" by (simp add: demo_startup_def)
qed (simp_all add: demo_startup_def enc_start_def holds_def buffer_ok_def)

text \<open>
  An SSL request whose length field is 0 stops the process for good, as a length of -1 does behind a
  kind: nothing is removed, and the same message is logged in every round.
\<close>

lemma empty_request_loops:
  assumes "holds p (be32 0 @ be32 80877103 @ rest)" "ready p"
  shows "run_loop (client_step os fuel from_fd to_fd) n p = Diverged"
proof -
  let ?blk = "be32 0 @ be32 80877103 @ rest"
  let ?P = "\<lambda>p. holds p ?blk \<and> ready p"
  have "\<exists>q. client_step os fuel from_fd to_fd p = Again q \<and> ?P q" if "?P p" for p :: "'a proc"
  proof -
    from that have p: "holds p ?blk" and r: "ready p" by simp_all
    have hd: "hd ?blk = 0" "8 \<le> length ?blk" by (simp_all add: be32_def)
    have r0: "read_int32 ?blk 0 = Some 0"
      by (rule read_int32_there [of _ _ _ "be32 80877103 @ rest"]) (simp add: at_def)
    have r4: "read_int32 ?blk 4 = Some 80877103"
      by (rule read_int32_there [of _ _ _ rest]) (simp add: at_def)
    let ?items = "[line ''FE: 0'', line_d32 ''    Request: '' 80877103]"
    let ?p1 = "p\<lparr>pr_kind := 0, pr_length := 0,
      pr_logs := add_log (cfg_log_type (pr_config p)) (items_text ?items) (pr_logs p)\<rparr>"
    have "log_to ?items (p\<lparr>pr_kind := 0, pr_length := 0\<rparr>) = Returned ?p1"
      using r by (subst log_open) (simp_all add: ready_def)
    moreover have "fe_zero ?blk 0 = Some (?items, Continue)" using r4 by (simp add: fe_zero_def)
    moreover have "holds ?p1 ([] @ ?blk)" "ready ?p1" using p r by (simp_all add: holds_def ready_def)
    moreover from holds_remove [OF this(1)] obtain data k where
      "remove_front 0 ?p1 = Returned (?p1\<lparr>pr_data := data, pr_data_size := k\<rparr>)"
      "holds (?p1\<lparr>pr_data := data, pr_data_size := k\<rparr>) ?blk" by auto
    ultimately have "client_zero os fuel from_fd ?blk (p\<lparr>pr_kind := 0\<rparr>) =
        Returned (?p1\<lparr>pr_data := data, pr_data_size := k\<rparr>)"
      using r0 by (simp add: client_zero_def end_of_zero_def)
    then show ?thesis
      using client_step_no_kind [OF p hd] \<open>ready ?p1\<close> \<open>holds (?p1\<lparr>pr_data := data, pr_data_size := k\<rparr>) ?blk\<close>
      by (simp add: go_on_def ready_def)
  qed
  then show ?thesis
    using loop_forever [of ?P "client_step os fuel from_fd to_fd" p n] assms by (simp add: run_loop_def)
qed

section \<open>One block for both directions\<close>



end
