(* ===== verification/Malformed.thy ===== *)
theory Malformed
  imports Faults
begin

text \<open>
  What the decoders do with messages that are framed correctly, but whose fields are not what the
  protocol prescribes, or are at the limits of the decoder.
\<close>

section \<open>A text without its end\<close>

lemma framed_undefined:
  assumes "holds p (frame k payload @ rest)" "fits payload" "pr_kind p = k"
    "dispatch k (frame k payload @ rest) (wire_len payload) = None"
  shows "framed dispatch side from_fd to_fd (frame k payload @ rest) p = Stop Undefined"
proof -
  have "\<not> pr_data_size p < word_of_int (int (5 + length payload))"
    using holds_less [OF assms(1), of "5 + length payload"] assms(2) by (simp add: fits_def frame_def)
  with assms(3,4) show ?thesis
    by (simp add: framed_def frame_header frame_total [OF assms(2)] Let_def go_on_def del: One_nat_def)
qed

lemma client_undefined:
  assumes "holds p []" "ready p" "msg_bytes msg = Some (frame k payload @ rest)" "k \<noteq> 0" "fits payload"
    "length (frame k payload @ rest) \<le> 65535" "counter < length (pr_counters p)" "0 < fuel"
    "fe_dispatch k (frame k payload @ rest) (wire_len payload) = None"
  shows "pgprtdbg_client os fuel from_fd to_fd msg counter p = Undefined"
proof -
  let ?blk = "frame k payload @ rest"
  from take_in_chunk [OF assms(1,3,6) _ assms(2,7), where side = "''FE''"
    and count = "count_sent (msg_length msg)"] obtain q where
    q: "take_in ''FE'' (count_sent (msg_length msg)) msg counter p = Returned q" "holds q ?blk"
    by (auto simp: Let_def)
  have "pr_data q = Some ?blk" "5 \<le> pr_data_size q" "pr_data_size q \<noteq> 0"
    using holds_block [OF q(2)] holds_size [OF q(2)] holds_nonempty [OF q(2)]
    by (auto simp: frame_def word_le_nat_alt)
  moreover have "framed fe_dispatch ''C'' from_fd to_fd ?blk (q\<lparr>pr_kind := k\<rparr>) = Stop Undefined"
    by (rule framed_undefined) (use q(2) assms(5,9) in \<open>simp_all add: holds_def\<close>)
  ultimately have "client_step os fuel from_fd to_fd q = Stop Undefined"
    using assms(4) by (simp add: client_step_def frame_header Let_def)
  moreover obtain f where "fuel = Suc f" using assms(8) by (cases fuel) auto
  ultimately show ?thesis by (simp add: pgprtdbg_client_def q(1) run_loop_def)
qed

text \<open>
  C39. A client makes the worker read behind its buffer: a message that begins with a text (a query, a
  statement, a portal, the failure of a copy) and has no NUL byte in it is undefined behaviour when it
  is the last one in the buffer. The length of a message does not limit the search for the NUL.
\<close>

theorem unterminated_text_undefined:
  assumes "holds p []" "ready p" "msg_bytes msg = Some (frame (ch c) payload)" "c \<in> set ''BPQf''"
    "0 \<notin> set payload" "length payload \<le> 65530" "counter < length (pr_counters p)" "0 < fuel"
  shows "pgprtdbg_client os fuel from_fd to_fd msg counter p = Undefined"
proof (rule client_undefined [where rest = "[]"])
  let ?blk = "frame (ch c) payload @ []"
  have "drop 5 ?blk = payload" by (simp add: frame_def)
  then have "take_string ?blk 5 = None" using assms(5) by (simp add: take_string_def read_string_def)
  then show "fe_dispatch (ch c) ?blk (wire_len payload) = None"
    using assms(4) by (auto simp: fe_dispatch_def fe_B_def fe_P_def fe_Q_def fe_f_def)
qed (use assms in \<open>auto simp: frame_def fits_def\<close>)

theorem unterminated_text_undefined_witness:
  "pgprtdbg_client wire_os 1 4 5 (message_of (frame (ch CHR ''Q'') (bs ''SELECT''))) 0 (demo_proc (\<lambda>_. [])) = Undefined"
proof (rule unterminated_text_undefined)
  show "msg_bytes (message_of (frame (ch CHR ''Q'') (bs ''SELECT''))) = Some (frame (ch CHR ''Q'') (bs ''SELECT''))"
    by (rule msg_bytes_message_of) (simp add: frame_def)
  show "0 \<notin> set (bs ''SELECT'')" by (simp add: bs_def del: of_char_Char) (simp add: ch_not_nul)
qed (simp_all add: demo_holds)

section \<open>A row of 32767 columns\<close>

lemma be_columns_wrap: "be_columns data 32767 i off = None"
proof (induction data "32767 :: i16" i off rule: be_columns.induct)
  case (1 data i off)
  have "sint i \<le> sint (32767 :: i16)" using sint_lt [of i] by simp
  then show ?case using 1 by (subst be_columns.simps) (auto split: option.split)
qed

text \<open>
  A row with the greatest number of columns the protocol can express is never decoded: the counter
  of the loop, a 16 bit integer, cannot exceed the bound, so that the loop reads on behind the last
  column until it leaves the block.
\<close>

theorem widest_row_undefined:
  assumes "read_int16 data 5 = Some 32767"
  shows "be_D data = None"
  using assms by (simp add: be_D_def take_int16_def be_columns_wrap)

section \<open>Items at the end of a list\<close>

lemma shown_items_prefix:
  assumes "length (enc x) \<le> k"
  shows "\<exists>m \<le> length xs. shown_items k enc (xs @ [x]) = take m xs"
proof (induction xs)
  case Nil
  with assms show ?case by simp
next
  case (Cons y ys)
  then obtain m where "m \<le> length ys" "shown_items k enc (ys @ [x]) = take m ys" by blast
  then show ?case by (cases "k < length (concat (map enc (y # ys @ [x])))")
      (auto intro: exI [of _ "Suc m"] exI [of _ 0])
qed

text \<open>
  The loop of \<open>be_E\<close> ends four bytes too early: a field of at most two characters at the end of an
  error, such as a position below 100, is not logged. The loop over the mechanisms ends eight bytes
  too early, which the shortest mechanism of the protocol does not reach.
\<close>

theorem last_error_field_hidden:
  assumes "be_ok (ErrorResponse (fs @ [(code, val)]))" "length val \<le> 2"
  shows "\<exists>m \<le> length fs. be_E (enc_be (ErrorResponse (fs @ [(code, val)])) @ rest)
      (wire_len (be_payload (ErrorResponse (fs @ [(code, val)])))) =
    Some ([line ''BE: E''] @ concat (map log_error_field (take m fs)))"
proof -
  let ?m = "ErrorResponse (fs @ [(code, val)])"
  from shown_items_prefix [of enc_error_field "(code, val)" 4 fs] assms(2) obtain n where
    "n \<le> length fs" "shown_items 4 enc_error_field (fs @ [(code, val)]) = take n fs"
    by (auto simp: enc_error_field_def)
  moreover have "be_E (enc_be ?m @ rest) (wire_len (be_payload ?m)) = Some (be_log ?m)"
    using assms(1) by (intro be_E_at) (simp_all add: be_ok_def enc_be_def frame_def at_def)
  ultimately show ?thesis by auto
qed

end
