(* ===== verification/Libev.thy ===== *)
theory Libev
  imports Process
begin

text \<open>
  The choice of the event loop's engine in \<open>src/src/libpgprtdbg/utils.c\<close>. The constants of libev and
  the engines it supports are a parameter. On the supported engines the functions only log.
\<close>

record ev_api =
  ev_supported :: i32
  EVFLAG_AUTO :: i32
  EVBACKEND_SELECT :: i32
  EVBACKEND_POLL :: i32
  EVBACKEND_EPOLL :: i32
  EVBACKEND_LINUXAIO :: i32
  EVBACKEND_IOURING :: i32
  EVBACKEND_KQUEUE :: i32
  EVBACKEND_DEVPOLL :: i32
  EVBACKEND_PORT :: i32

definition has :: "ev_api \<Rightarrow> i32 \<Rightarrow> bool" where
  "has ev backend \<longleftrightarrow> ev_supported ev AND backend \<noteq> 0"

definition libev_engines :: "ev_api \<Rightarrow> 'w act" where
  "libev_engines ev p = log_to (concat (map
     (\<lambda>(backend, name). if has ev backend then [line_s ''libev available: '' (bs name)] else [])
     [(EVBACKEND_SELECT ev, ''select''), (EVBACKEND_POLL ev, ''poll''), (EVBACKEND_EPOLL ev, ''epoll''),
      (EVBACKEND_IOURING ev, ''iouring''), (EVBACKEND_KQUEUE ev, ''kqueue''),
      (EVBACKEND_DEVPOLL ev, ''devpoll''), (EVBACKEND_PORT ev, ''port'')])) p"

text \<open>A line logged under the log lock, and the value returned behind it.\<close>

definition complain :: "i32 \<Rightarrow> log_item \<Rightarrow> 'w proc \<Rightarrow> ('w proc, i32 \<times> 'w proc) outcome" where
  "complain v item p = and_then (log_to [item] (lock_log p)) (\<lambda>p. Returned (v, unlock_log p))"

definition ask :: "ev_api \<Rightarrow> i32 \<Rightarrow> string \<Rightarrow> 'w proc \<Rightarrow> ('w proc, i32 \<times> 'w proc) outcome" where
  "ask ev backend name p =
     (if has ev backend then Returned (backend, p)
      else complain (EVFLAG_AUTO ev) (line_s ''libev not available: '' (bs name)) p)"

definition libev ::
  "ev_api \<Rightarrow> ctext option \<Rightarrow> 'w proc \<Rightarrow> ('w proc, i32 \<times> 'w proc) outcome" where
  "libev ev engine p =
     (case engine of
        None \<Rightarrow> Returned (EVFLAG_AUTO ev, p)
      | Some e \<Rightarrow>
          if e = bs ''select'' then ask ev (EVBACKEND_SELECT ev) ''select'' p
          else if e = bs ''poll'' then ask ev (EVBACKEND_POLL ev) ''poll'' p
          else if e = bs ''epoll'' then ask ev (EVBACKEND_EPOLL ev) ''epoll'' p
          else if e = bs ''linuxaio'' then Returned (EVFLAG_AUTO ev, p)
          else if e = bs ''iouring'' then ask ev (EVBACKEND_IOURING ev) ''iouring'' p
          else if e = bs ''devpoll'' then ask ev (EVBACKEND_DEVPOLL ev) ''devpoll'' p
          else if e = bs ''port'' then ask ev (EVBACKEND_PORT ev) ''port'' p
          else if e = bs ''auto'' \<or> e = [] then Returned (EVFLAG_AUTO ev, p)
          else complain (EVFLAG_AUTO ev) (line_s ''libev unknown option: '' e) p)"

definition libev_engine :: "ev_api \<Rightarrow> i32 \<Rightarrow> ctext" where
  "libev_engine ev v =
     (if v = EVBACKEND_SELECT ev then bs ''select''
      else if v = EVBACKEND_POLL ev then bs ''poll''
      else if v = EVBACKEND_EPOLL ev then bs ''epoll''
      else if v = EVBACKEND_LINUXAIO ev then bs ''linuxaio''
      else if v = EVBACKEND_IOURING ev then bs ''iouring''
      else if v = EVBACKEND_KQUEUE ev then bs ''kqueue''
      else if v = EVBACKEND_DEVPOLL ev then bs ''devpoll''
      else if v = EVBACKEND_PORT ev then bs ''port''
      else bs ''Unknown'')"

lemma complain_open: "can_log (cfg_log_type (pr_config p)) (pr_logs p) \<Longrightarrow> item_ok item \<Longrightarrow>
    complain v item p = Returned (v, p\<lparr>pr_logs := add_log (cfg_log_type (pr_config p)) (item_text item)
      (pr_logs p), pr_config := (pr_config p)\<lparr>cfg_log_lock := STATE_FREE\<rparr>\<rparr>)"
  by (simp add: complain_def lock_log_def unlock_log_def log_to_def log_one_open log_lock_def log_unlock_def)

lemma ask_result:
  assumes "can_log (cfg_log_type (pr_config p)) (pr_logs p)"
  shows "\<exists>v p'. ask ev backend name p = Returned (v, p') \<and> (v = EVFLAG_AUTO ev \<or> has ev v)"
  using assms by (simp add: ask_def complain_open)

text \<open>
  Whatever engine is configured, the choice is one that libev supports, or the automatic choice;
  it is never an error.
\<close>

theorem libev_supported:
  assumes "can_log (cfg_log_type (pr_config p)) (pr_logs p)"
  shows "\<exists>v p'. libev ev engine p = Returned (v, p') \<and> (v = EVFLAG_AUTO ev \<or> has ev v)"
  using ask_result [OF assms] assms by (simp add: libev_def complain_open split: option.split)

definition demo_ev :: ev_api where
  "demo_ev = \<lparr>ev_supported = 5, EVFLAG_AUTO = 0, EVBACKEND_SELECT = 1, EVBACKEND_POLL = 2,
     EVBACKEND_EPOLL = 4, EVBACKEND_LINUXAIO = 64, EVBACKEND_IOURING = 128, EVBACKEND_KQUEUE = 8,
     EVBACKEND_DEVPOLL = 16, EVBACKEND_PORT = 32\<rparr>"

theorem libev_supported_witness:
  "\<exists>v p'. libev demo_ev (Some (bs ''poll'')) (demo_proc (\<lambda>_. [])) = Returned (v, p') \<and>
    (v = EVFLAG_AUTO demo_ev \<or> has demo_ev v)"
  by (rule libev_supported) (simp add: demo_can)

end
