(* ===== verification/Traffic.thy ===== *)
theory Traffic
  imports Process
begin

text \<open>
  The traffic files of \<open>src/src/libpgprtdbg/utils.c\<close>: one file of the client's and one of the server's
  messages per worker process, each message under a header with its number, time and length, and
  markers where a session begins and ends.
\<close>

section \<open>The time of day\<close>

text \<open>
  \<open>gmtime_r\<close> and \<open>strftime\<close> with \<open>%Y-%m-%d %H:%M:%S\<close>, for times from 1970 on: the year and the day in
  the year, then the month and the day in the month.
\<close>

definition leap_year :: "nat \<Rightarrow> bool" where
  "leap_year y \<longleftrightarrow> y mod 4 = 0 \<and> (y mod 100 \<noteq> 0 \<or> y mod 400 = 0)"

definition year_length :: "nat \<Rightarrow> nat" where
  "year_length y = (if leap_year y then 366 else 365)"

function year_and_day :: "nat \<Rightarrow> nat \<Rightarrow> nat \<times> nat" where
  "year_and_day y n = (if n < year_length y then (y, n) else year_and_day (y + 1) (n - year_length y))"
  by pat_completeness auto
termination
  by (relation "measure snd") (auto simp: year_length_def)

declare year_and_day.simps [simp del]

definition month_lengths :: "nat \<Rightarrow> nat list" where
  "month_lengths y = [31, if leap_year y then 29 else 28, 31, 30, 31, 30, 31, 31, 30, 31, 30, 31]"

fun month_and_day :: "nat list \<Rightarrow> nat \<Rightarrow> nat \<Rightarrow> nat \<times> nat" where
  "month_and_day [] m n = (m, n + 1)"
| "month_and_day (l # ls) m n = (if n < l then (m, n + 1) else month_and_day ls (m + 1) (n - l))"

definition show_pad2 :: "nat \<Rightarrow> ctext" where
  "show_pad2 n = (let s = show_nat n in replicate (2 - length s) 48 @ s)"

definition ymds :: "nat \<Rightarrow> ctext" where
  "ymds sec =
     (let (y, yday) = year_and_day 1970 (sec div 86400);
          (m, d) = month_and_day (month_lengths y) 1 yday;
          s = sec mod 86400
      in show_nat y @ bs ''-'' @ show_pad2 m @ bs ''-'' @ show_pad2 d @ bs '' '' @
         show_pad2 (s div 3600) @ bs '':'' @ show_pad2 (s div 60 mod 60) @ bs '':'' @ show_pad2 (s mod 60))"

text \<open>
  \<open>round (tv_nsec / 1.0e6)\<close> rounds half up, so that the last half millisecond of a second shows as
  1000. The text is kept in an array of 256 bytes.
\<close>

definition milliseconds :: "nat \<Rightarrow> nat" where
  "milliseconds nsec = (nsec + 500000) div 1000000"

definition tbuf :: "nat \<times> nat \<Rightarrow> ctext" where
  "tbuf time = snprintf 256 (ymds (fst time) @ bs '','' @ show_pad3 (milliseconds (snd time)))"

section \<open>Writing\<close>

definition traffic_file :: "i32 \<Rightarrow> string \<Rightarrow> ctext" where
  "traffic_file pid suffix = snprintf MISC_LENGTH (show_int (sint pid) @ bs suffix)"

text \<open>\<open>fopen (filename, "a")\<close>, \<open>fprintf\<close> on the result and \<open>fclose\<close>; the file may be a null pointer.\<close>

definition append_file :: "'w os \<Rightarrow> ctext \<Rightarrow> ctext \<Rightarrow> 'w act" where
  "append_file os filename t p =
     (if os_fopen os filename (io_world p)
      then Returned (p\<lparr>pr_files := (pr_files p)(filename := pr_files p filename @ t)\<rparr>)
      else Undefined)"

definition header_line :: "ctext \<Rightarrow> ctext" where
  "header_line t = cstr (snprintf MISC_LENGTH t) @ [newline]"

text \<open>
  \<open>write_traffic\<close>; the dump is that of \<open>pgprtdbg_log_mem\<close>, in an array of the same size and with the
  same line length. Without a message the array stays empty.
\<close>

definition write_traffic :: "'w os \<Rightarrow> ctext \<Rightarrow> i64 \<Rightarrow> message option \<Rightarrow> 'w act" where
  "write_traffic os filename identifier msg p =
     and_then (defined (case msg of
         None \<Rightarrow> Some []
       | Some m \<Rightarrow> Option.bind (msg_bytes m) dump_text)) (\<lambda>buf.
     append_file os filename
       (header_line (bs ''----- '' @ show_int (sint identifier) @ bs '' -----'') @
        header_line (bs ''===== '' @ tbuf (os_clock os (io_world p)) @ bs '' ====='') @
        header_line (bs ''===== '' @ show_int (case msg of None \<Rightarrow> 0 | Some m \<Rightarrow> sint (msg_length m)) @
          bs '' ====='') @
        buf @ [newline]) p)"

definition save_client_traffic :: "'w os \<Rightarrow> i64 \<Rightarrow> message \<Rightarrow> 'w act" where
  "save_client_traffic os identifier msg p =
     write_traffic os (traffic_file (pr_pid p) ''-client.bin'') identifier (Some msg) p"

definition save_server_traffic :: "'w os \<Rightarrow> i64 \<Rightarrow> message \<Rightarrow> 'w act" where
  "save_server_traffic os identifier msg p =
     write_traffic os (traffic_file (pr_pid p) ''-server.bin'') identifier (Some msg) p"

definition save_begin_marker :: "'w os \<Rightarrow> 'w act" where
  "save_begin_marker os p =
     append_file os (traffic_file (pr_pid p) ''-client.bin'')
       (header_line (bs ''| BEGIN: '' @ tbuf (os_clock os (io_world p)) @ bs '' -----'')) p"

definition save_end_marker :: "'w os \<Rightarrow> 'w act" where
  "save_end_marker os p =
     append_file os (traffic_file (pr_pid p) ''-client.bin'')
       (header_line (bs ''| END: '' @ tbuf (os_clock os (io_world p)) @ bs '' -----'')) p"

section \<open>What a record looks like\<close>

lemma year_and_day_bound: "fst (year_and_day y n) \<le> y + n"
proof (induction y n rule: year_and_day.induct)
  case (1 y n)
  have "0 < year_length y" by (simp add: year_length_def)
  with 1 show ?case by (subst year_and_day.simps) auto
qed

lemma show_nat_short: "n < 10 ^ k \<Longrightarrow> 0 < k \<Longrightarrow> length (show_nat n) \<le> k"
  using show_nat_length_less by blast

lemma show_pad_length: "n < 1000 \<Longrightarrow> length (show_pad2 n) \<le> 3" "n < 10000 \<Longrightarrow> length (show_pad3 n) \<le> 4"
  using show_nat_short [of n 3] show_nat_short [of n 4] by (simp_all add: show_pad2_def show_pad3_def Let_def)

lemma show_no_nul: "0 \<notin> set (show_nat n)" "0 \<notin> set (show_pad2 n)" "0 \<notin> set (show_pad3 n)"
  using show_nat_digits [of 0 n] by (auto simp: show_pad2_def show_pad3_def Let_def is_digit_def)

lemma month_and_day_bounds:
  "fst (month_and_day ls m n) \<le> m + length ls" "snd (month_and_day ls m n) \<le> n + 1"
proof -
  show "fst (month_and_day ls m n) \<le> m + length ls"
    by (induction ls m n rule: month_and_day.induct) auto
  show "snd (month_and_day ls m n) \<le> n + 1"
  proof (induction ls m n rule: month_and_day.induct)
    case (2 l ls m n)
    then show ?case by (cases "n < l") simp_all
  qed simp
qed

lemma day_in_year: "snd (year_and_day y n) < 366"
proof (induction y n rule: year_and_day.induct)
  case (1 y n)
  then show ?case by (subst year_and_day.simps) (auto simp: year_length_def split: if_splits)
qed

lemma ymds_shape:
  assumes "sec < 2 ^ 63"
  shows "length (ymds sec) \<le> 40" "0 \<notin> set (ymds sec)"
proof -
  obtain y yday where yd: "year_and_day 1970 (sec div 86400) = (y, yday)" by fastforce
  obtain m d where md: "month_and_day (month_lengths y) 1 yday = (m, d)" by fastforce
  have "y \<le> 1970 + sec div 86400" using year_and_day_bound [of 1970 "sec div 86400"] yd by simp
  also have "\<dots> \<le> 1970 + 2 ^ 63 div 86400" using assms by (intro add_left_mono div_le_mono) simp
  finally have "y < 10 ^ 18" by simp
  then have y: "length (show_nat y) \<le> 18" by (rule show_nat_short) simp
  have "yday < 366" using day_in_year [of 1970 "sec div 86400"] yd by simp
  then have "d < 1000" using month_and_day_bounds(2) [of "month_lengths y" 1 yday] md by simp
  moreover have "m < 1000"
    using month_and_day_bounds(1) [of "month_lengths y" 1 yday] md by (simp add: month_lengths_def)
  moreover have "sec mod 86400 < 86400" by simp
  then have "sec mod 86400 div 3600 < 1000" by (simp add: div_less_iff_less_mult)
  moreover have "sec mod 86400 div 60 mod 60 < 1000" "sec mod 86400 mod 60 < 1000"
    by (simp_all add: less_trans [OF mod_less_divisor])
  ultimately show "length (ymds sec) \<le> 40"
    using y show_pad_length(1) [of d] show_pad_length(1) [of m]
      show_pad_length(1) [of "sec mod 86400 div 3600"] show_pad_length(1) [of "sec mod 86400 div 60 mod 60"]
      show_pad_length(1) [of "sec mod 86400 mod 60"]
    by (simp add: ymds_def yd md Let_def del: One_nat_def)
  have "nul_free (bs ''-'')" "nul_free (bs '' '')" "nul_free (bs '':'')"
    by (simp_all add: ch_not_nul)
  then show "0 \<notin> set (ymds sec)"
    by (simp add: ymds_def yd md Let_def show_no_nul nul_free_def del: bs_facts One_nat_def)
qed

lemma tbuf_whole:
  assumes "fst time < 2 ^ 63" "snd time < 10 ^ 9"
  shows "tbuf time = ymds (fst time) @ bs '','' @ show_pad3 (milliseconds (snd time))"
    "length (tbuf time) \<le> 50" "0 \<notin> set (tbuf time)"
proof -
  have "milliseconds (snd time) < 10000" using assms(2) by (simp add: milliseconds_def)
  then have len: "length (ymds (fst time) @ bs '','' @ show_pad3 (milliseconds (snd time))) \<le> 45"
    using ymds_shape(1) [OF assms(1)] show_pad_length(2) [of "milliseconds (snd time)"] by simp
  then show t: "tbuf time = ymds (fst time) @ bs '','' @ show_pad3 (milliseconds (snd time))"
    by (simp add: tbuf_def snprintf_fits)
  with len show "length (tbuf time) \<le> 50" by simp
  have "nul_free (bs '','')" by (simp add: ch_not_nul)
  then show "0 \<notin> set (tbuf time)"
    using ymds_shape(2) [OF assms(1)] by (simp add: t show_no_nul nul_free_def del: bs_facts)
qed

lemma header_line_whole: "length t < 128 \<Longrightarrow> 0 \<notin> set t \<Longrightarrow> header_line t = t @ [newline]"
  by (simp add: header_line_def snprintf_fits MISC_LENGTH_def cstr_id)

lemma length_show_long: "length (show_int (sint (i :: i64))) \<le> 20"
proof -
  have "- (2 ^ 63) \<le> sint i" "sint i < 2 ^ 63"
    using sint_greater_eq [of i] sint_less [of i] by simp_all
  then have "nat (- sint i) < 10 ^ 19" "nat (sint i) < 10 ^ 19" by simp_all
  then have "length (show_nat (nat (- sint i))) \<le> 19" "length (show_nat (nat (sint i))) \<le> 19"
    by (auto intro: show_nat_short)
  then show ?thesis by (simp add: show_int_def)
qed

text \<open>The record of one message.\<close>

definition traffic_record :: "i64 \<Rightarrow> nat \<times> nat \<Rightarrow> byte list \<Rightarrow> ctext" where
  "traffic_record identifier time bytes =
     bs ''----- '' @ show_int (sint identifier) @ bs '' -----'' @ [newline] @
     bs ''===== '' @ ymds (fst time) @ bs '','' @ show_pad3 (milliseconds (snd time)) @ bs '' ====='' @ [newline] @
     bs ''===== '' @ show_nat (length bytes) @ bs '' ====='' @ [newline] @
     dump_spec bytes @ [newline]"

lemma bs_no_nul: "CHR 0x00 \<notin> set s \<Longrightarrow> 0 \<notin> set (bs s)"
  using ch_not_nul [of s] by (simp add: nul_free_def)

lemma write_traffic_record:
  assumes "msg_bytes msg = Some bytes" "length bytes \<le> 65535"
    "5 \<le> length bytes \<or> (\<forall>b \<in> set bytes. unat b < 128)"
    "os_fopen os filename (io_world p)" "os_clock os (io_world p) = time"
    "fst time < 2 ^ 63" "snd time < 10 ^ 9"
  shows "write_traffic os filename identifier (Some msg) p = Returned (p\<lparr>pr_files :=
    (pr_files p)(filename := pr_files p filename @ traffic_record identifier time bytes)\<rparr>)"
proof -
  have len: "sint (msg_length msg) = int (length bytes)"
    using assms(1) by (auto simp: msg_bytes_def block_prefix_def split: Option.bind_splits if_splits)
  note t = tbuf_whole [OF assms(6,7)]
  have "header_line (bs ''----- '' @ show_int (sint identifier) @ bs '' -----'') =
      bs ''----- '' @ show_int (sint identifier) @ bs '' -----'' @ [newline]"
    using length_show_long [where i = "identifier"] bs_no_nul [of "''----- ''"] bs_no_nul [of "'' -----''"]
      show_int_no_nul by (subst header_line_whole) (simp_all del: bs_facts(4))
  moreover have "header_line (bs ''===== '' @ tbuf time @ bs '' ====='') =
      bs ''===== '' @ tbuf time @ bs '' ====='' @ [newline]"
    using t(2,3) bs_no_nul [of "''===== ''"] bs_no_nul [of "'' =====''"]
    by (subst header_line_whole) (simp_all del: bs_facts(4))
  moreover have "length (show_nat (length bytes)) \<le> 5"
    using assms(2) by (intro show_nat_short) simp_all
  then have "header_line (bs ''===== '' @ show_int (int (length bytes)) @ bs '' ====='') =
      bs ''===== '' @ show_nat (length bytes) @ bs '' ====='' @ [newline]"
    using bs_no_nul [of "''===== ''"] bs_no_nul [of "'' =====''"] show_no_nul(1)
    by (subst header_line_whole) (simp_all add: show_int_def del: bs_facts(4))
  ultimately show ?thesis
    using dump_text_spec [OF assms(2,3)] assms(1,4,5) len t(1)
    by (simp add: write_traffic_def append_file_def traffic_record_def)
qed

text \<open>
  Saving a message of the client appends one record to the client file of this process: the
  message's number, the time, its length and the dump of exactly its bytes; no header line is
  truncated, and no other file changes.
\<close>

theorem save_client_traffic_record:
  assumes "msg_bytes msg = Some bytes" "length bytes \<le> 65535"
    "5 \<le> length bytes \<or> (\<forall>b \<in> set bytes. unat b < 128)"
    "os_fopen os (traffic_file (pr_pid p) ''-client.bin'') (io_world p)"
    "os_clock os (io_world p) = time" "fst time < 2 ^ 63" "snd time < 10 ^ 9"
  shows "save_client_traffic os identifier msg p = Returned (p\<lparr>pr_files := (pr_files p)
    (traffic_file (pr_pid p) ''-client.bin'' := pr_files p (traffic_file (pr_pid p) ''-client.bin'') @
       traffic_record identifier time bytes)\<rparr>)"
  unfolding save_client_traffic_def by (rule write_traffic_record [OF assms])

theorem save_client_traffic_record_witness:
  "save_client_traffic wire_os 1 (message_of [0x51, 0, 0, 0, 5, 0]) (demo_proc (\<lambda>_. [])) =
    Returned ((demo_proc (\<lambda>_. []))\<lparr>pr_files := (pr_files (demo_proc (\<lambda>_. [])))
      (traffic_file (pr_pid (demo_proc (\<lambda>_. []))) ''-client.bin'' :=
        pr_files (demo_proc (\<lambda>_. [])) (traffic_file (pr_pid (demo_proc (\<lambda>_. []))) ''-client.bin'') @
        traffic_record 1 (0, 0) [0x51, 0, 0, 0, 5, 0])\<rparr>)"
  by (rule save_client_traffic_record) (simp_all add: msg_bytes_message_of wire_os_def)

end
