(* ===== verification/Frame.thy ===== *)
theory Frame
  imports ClientStream ServerStream Traffic "HOL-Library.Sublist"
begin

text \<open>
  What decoding never does, whatever the stream holds and however the call ends: it neither touches
  the worker's buffer nor the sockets, apart from the refusal that a version 2 client gets on the
  socket its bytes came from.
\<close>

text \<open>The configuration but for the trace file and the log lock.\<close>

definition settings :: "configuration \<Rightarrow> configuration" where
  "settings c = c\<lparr>cfg_file := None, cfg_log_lock := 0\<rparr>"

lemma settings_upd [simp]: "settings (c\<lparr>cfg_file := f\<rparr>) = settings c" "settings (c\<lparr>cfg_log_lock := l\<rparr>) = settings c"
  "settings (log_lock c) = settings c" "settings (log_unlock c) = settings c" "settings (add_trace t c) = settings c"
  by (simp_all add: settings_def log_lock_def log_unlock_def add_trace_def)

lemma settings_eqD:
  assumes "settings c = settings d"
  shows "cfg_pids c = cfg_pids d" "cfg_active_connections c = cfg_active_connections d"
    "cfg_save_traffic c = cfg_save_traffic d" "cfg_log_type c = cfg_log_type d"
  using assms by (cases c; cases d; simp add: settings_def)+

text \<open>The same process with the same settings.\<close>

definition same_seat :: "'w proc \<Rightarrow> 'w proc \<Rightarrow> bool" where
  "same_seat p q \<longleftrightarrow> settings (pr_config q) = settings (pr_config p) \<and> pr_pid q = pr_pid p"

lemma same_seat_refl [simp]: "same_seat p p"
  and same_seat_trans: "same_seat p q \<Longrightarrow> same_seat q r \<Longrightarrow> same_seat p r"
  by (simp_all add: same_seat_def)

lemma same_seat_upd [simp]:
  "same_seat p (q\<lparr>io_errno := e\<rparr>) = same_seat p q" "same_seat p (q\<lparr>pr_exit_code := c\<rparr>) = same_seat p q"
  "same_seat p (q\<lparr>pr_running := b\<rparr>) = same_seat p q" "same_seat p (q\<lparr>io_world := w\<rparr>) = same_seat p q"
  by (simp_all add: same_seat_def)

text \<open>What has been sent stays sent.\<close>

definition grows :: "('w \<Rightarrow> i32 \<Rightarrow> byte list) \<Rightarrow> 'w \<Rightarrow> 'w \<Rightarrow> bool" where
  "grows sent w w' \<longleftrightarrow> (\<forall>f. prefix (sent w f) (sent w' f))"

lemma grows_refl [simp]: "grows sent w w"
  and grows_trans: "grows sent w w' \<Longrightarrow> grows sent w' w'' \<Longrightarrow> grows sent w w''"
  and grows_same: "sent w' = sent w \<Longrightarrow> grows sent w w'"
  and grows_sent: "sent w' = (sent w)(fd := sent w fd @ bytes) \<Longrightarrow> grows sent w w'"
  by (auto simp: grows_def intro: prefix_order.trans)

definition quiet :: "i32 set \<Rightarrow> ('w \<Rightarrow> i32 \<Rightarrow> byte list) \<Rightarrow> ('w \<Rightarrow> i32 \<Rightarrow> byte list) \<Rightarrow>
    'w proc \<Rightarrow> 'w proc \<Rightarrow> bool" where
  "quiet fds sent rcvd p p' \<longleftrightarrow> io_memory p' = io_memory p \<and> rcvd (io_world p') = rcvd (io_world p) \<and>
     (\<forall>f. f \<notin> fds \<longrightarrow> sent (io_world p') f = sent (io_world p) f) \<and>
     grows sent (io_world p) (io_world p') \<and>
     pr_running p' = pr_running p \<and> pr_exit_code p' = pr_exit_code p \<and> same_seat p p'"

lemma quiet_refl: "quiet fds sent rcvd p p"
  by (simp add: quiet_def)

lemma quiet_upd [frame_simps]:
  "quiet fds sent rcvd p0 (p\<lparr>pr_kind := k\<rparr>) = quiet fds sent rcvd p0 p"
  "quiet fds sent rcvd p0 (p\<lparr>pr_length := len\<rparr>) = quiet fds sent rcvd p0 p"
  "quiet fds sent rcvd p0 (p\<lparr>pr_data := data\<rparr>) = quiet fds sent rcvd p0 p"
  "quiet fds sent rcvd p0 (p\<lparr>pr_data_size := n\<rparr>) = quiet fds sent rcvd p0 p"
  "quiet fds sent rcvd p0 (p\<lparr>pr_counters := cs\<rparr>) = quiet fds sent rcvd p0 p"
  "quiet fds sent rcvd p0 (p\<lparr>pr_logs := lg\<rparr>) = quiet fds sent rcvd p0 p"
  "settings c = settings (pr_config p) \<Longrightarrow>
    quiet fds sent rcvd p0 (p\<lparr>pr_config := c\<rparr>) = quiet fds sent rcvd p0 p"
  "quiet fds sent rcvd p0 (p\<lparr>pr_files := fs\<rparr>) = quiet fds sent rcvd p0 p"
  "quiet fds sent rcvd p0 (p\<lparr>pr_identifier := i\<rparr>) = quiet fds sent rcvd p0 p"
  by (simp_all add: quiet_def same_seat_def)

abbreviation hushed :: "i32 set \<Rightarrow> ('w \<Rightarrow> i32 \<Rightarrow> byte list) \<Rightarrow> ('w \<Rightarrow> i32 \<Rightarrow> byte list) \<Rightarrow>
    'w proc \<Rightarrow> ('w proc, 'w proc) outcome \<Rightarrow> bool" where
  "hushed fds sent rcvd p0 \<equiv> ends (quiet fds sent rcvd p0) (quiet fds sent rcvd p0)"

text \<open>
  The interface of a property that decoding keeps: it does not look at the statics of \<open>protocol.c\<close>, the
  log and the traffic files, nor at the trace file and the log lock. The client lemmas carry it through
  a round of either loop; \<open>decoding_refusal\<close> adds what the refusal of an old protocol does.
\<close>

named_theorems keeps \<open>the laws of such a property\<close>

locale decoding =
  fixes P :: "'w proc \<Rightarrow> bool"
  assumes statics [keeps]: "P (p\<lparr>pr_kind := k\<rparr>) = P p" "P (p\<lparr>pr_length := len\<rparr>) = P p"
      "P (p\<lparr>pr_data := data\<rparr>) = P p" "P (p\<lparr>pr_data_size := n\<rparr>) = P p"
    and written [keeps]: "P (p\<lparr>pr_logs := lg\<rparr>) = P p" "P (p\<lparr>pr_files := fs\<rparr>) = P p"
      "P (p\<lparr>pr_identifier := i\<rparr>) = P p"
    and configured [keeps]: "settings c = settings (pr_config p) \<Longrightarrow> P (p\<lparr>pr_config := c\<rparr>) = P p"
begin

abbreviation kept :: "('w proc, 'w proc) outcome \<Rightarrow> bool" where
  "kept \<equiv> ends P P"

lemma log_to_keeps: "P p \<Longrightarrow> kept (log_to items p)"
  by (auto simp: log_to_def keeps split: option.splits)

lemma remove_front_keeps: "P p \<Longrightarrow> kept (remove_front n p)"
  by (auto simp: remove_front_def keeps split: option.splits prod.splits)

lemma output_write_keeps: "P p \<Longrightarrow> kept (output_write side from_fd to_fd k t p)"
  by (auto simp: output_write_def Let_def keeps split: option.splits)

lemma append_file_keeps: "P p \<Longrightarrow> kept (append_file os name t p)"
  by (simp add: append_file_def keeps)

lemma write_traffic_keeps: "P p \<Longrightarrow> kept (write_traffic os name i msg p)"
  unfolding write_traffic_def
  by (rule ends_then [where P = "\<lambda>_. True"]) (simp_all add: ends_defined append_file_keeps)

lemma say_keeps: "P p \<Longrightarrow> kept (and_then (log_to items (lock_log p)) (\<lambda>p. Returned (unlock_log p)))"
  by (rule ends_then [OF log_to_keeps]) (simp_all add: lock_log_def unlock_log_def keeps)

lemmas calls = log_to_keeps remove_front_keeps output_write_keeps append_file_keeps write_traffic_keeps

text \<open>A round of either loop.\<close>

abbreviation round_kept :: "('w proc, ('w proc, 'w proc) outcome) iter \<Rightarrow> bool" where
  "round_kept it \<equiv> (case it of Again q \<Rightarrow> P q | Stop r \<Rightarrow> kept r)"

lemma go_on_keeps: "kept r \<Longrightarrow> round_kept (go_on r)"
  by (cases r) (simp_all add: go_on_def)

lemma framed_keeps:
  assumes "P p"
  shows "round_kept (framed dispatch side from_fd to_fd blk p)"
proof -
  have "kept (and_then (defined d) (\<lambda>items.
      and_then (log_to items q) (\<lambda>p.
      and_then (output_write side from_fd to_fd (f p) None p) (\<lambda>p. remove_front n p))))"
    if "P q" for d q f n
    using that by (auto intro!: ends_then [where P = "\<lambda>_. True"] ends_then [where P = P] ends_defined calls)
  with assms show ?thesis
    by (auto simp: framed_def Let_def keeps split: option.split intro!: go_on_keeps)
qed

lemma server_step_keeps:
  assumes "P p"
  shows "round_kept (server_step from_fd to_fd p)"
  using assms
  by (auto simp: server_step_def Let_def keeps split: option.split
      intro!: go_on_keeps framed_keeps ends_then [where P = "\<lambda>_. True"]
        ends_then [where P = P] ends_defined calls simp del: of_char_Char)

lemma loop_keeps: "P p \<Longrightarrow> (\<And>q. P q \<Longrightarrow> round_kept (step q)) \<Longrightarrow> kept (run_loop step fuel p)"
  by (rule ends_run_loop [where J = P])

lemma rest_keeps: "P p \<Longrightarrow> (\<And>q. P q \<Longrightarrow> round_kept (step q)) \<Longrightarrow>
    kept (and_then (run_loop step fuel p) (\<lambda>p. Returned (unlock_log p)))"
  by (rule ends_then [OF loop_keeps]) (auto simp: unlock_log_def keeps)

end

locale decoding_refusal = decoding P
  for P :: "'w proc \<Rightarrow> bool" +
  fixes os :: "'w os" and fuel :: nat and fd :: i32
  assumes write_keeps: "P p \<Longrightarrow> msg_bytes msg = Some bytes \<Longrightarrow> length bytes < 2 ^ 31 \<Longrightarrow>
    ends (\<lambda>(status, q). P q) P (write_message os fuel fd msg p)"
begin

lemma refuse_old_keeps:
  assumes "P p"
  shows "kept (refuse_old os fuel fd p)"
proof -
  have "ends (\<lambda>(status, q). P q) P (write_connection_refused_old os fuel fd p)"
    unfolding write_connection_refused_old_def Let_def
    by (auto split: option.split intro!: write_keeps [OF assms]
        simp: msg_bytes_def block_prefix_def write_byte_def write_string_def put_def
        split: if_splits Option.bind_splits)
  then show ?thesis
    unfolding refuse_old_def
  proof (rule ends_then)
    fix r :: "int \<times> 'w proc"
    obtain status q where r: "r = (status, q)" by (cases r)
    assume "case r of (status, q) \<Rightarrow> P q"
    then have q: "P q" by (simp add: r)
    have "ends (\<lambda>(status, q). P q) P (write_empty os fuel fd q)"
      unfolding write_empty_def
      by (rule write_keeps [OF q, of _ "[0]"]) (simp_all add: msg_bytes_def block_prefix_def)
    then show "kept (case r of (_, p) \<Rightarrow> and_then (write_empty os fuel fd p) (\<lambda>(_, p). Returned p))"
      unfolding r prod.case by (rule ends_then) auto
  qed
qed

lemma client_zero_keeps: "P p \<Longrightarrow> kept (client_zero os fuel fd blk p)"
proof -
  have "kept (end_of_zero os fuel fd res q)" if "P q" for res q
    using that refuse_old_keeps [OF that] by (simp add: end_of_zero_def split: zero_result.split)
  then show "P p \<Longrightarrow> kept (client_zero os fuel fd blk p)"
    unfolding client_zero_def
    by (auto intro!: ends_then [where P = "\<lambda>_. True"] ends_then [where P = P] ends_defined calls
        simp: keeps split: prod.split)
qed

lemma client_step_keeps:
  assumes "P p"
  shows "round_kept (client_step os fuel fd to_fd p)"
  using assms
  by (auto simp: client_step_def Let_def keeps split: option.split
      intro!: go_on_keeps client_zero_keeps framed_keeps)

end

interpretation quiet: decoding "quiet fds sent rcvd p0" for fds sent rcvd p0
  by unfold_locales (simp_all add: frame_simps)

text \<open>Sending, when the length of the message is known to be small: only this socket is written to.\<close>

lemma write_message_ends:
  assumes "kernel_ok os sent rcvd" "msg_bytes msg = Some bytes" "length bytes < 2 ^ 31"
  shows "ends (write_done socket msg sent rcvd st) E (write_message os fuel socket msg st)"
proof -
  have "sint (msg_length msg) = int (length bytes)"
    using assms(2) by (auto simp: msg_bytes_def block_prefix_def split: Option.bind_splits if_splits)
  with assms have inv: "write_inv os socket msg sent rcvd st (0, 0, sint (msg_length msg), st)"
    by (simp add: write_inv_def)
  show ?thesis
    unfolding write_message_def
    by (rule ends_run_loop [where J = "write_inv os socket msg sent rcvd st", OF _ inv])
      (use write_step_cases in \<open>fastforce split: iter.splits\<close>)
qed

lemma write_done_quiet:
  assumes "write_done fd msg sent rcvd p (status, p')"
  shows "quiet {fd} sent rcvd p p'"
  using assms by (auto simp: write_done_def quiet_def same_else_def proc.defs same_seat_def intro: grows_sent)
    (cases p; cases p'; simp)+

lemma quiet_mono: "quiet {fd} sent rcvd p q \<Longrightarrow> fd \<in> fds \<Longrightarrow> quiet fds sent rcvd p q"
  by (auto simp: quiet_def)

lemma quiet_trans:
  "quiet fds sent rcvd p q \<Longrightarrow> quiet fds sent rcvd q r \<Longrightarrow> quiet fds sent rcvd p r"
  using same_seat_trans grows_trans by (auto simp: quiet_def)

lemma write_small_quiet:
  assumes "kernel_ok os sent rcvd" "msg_bytes msg = Some bytes" "length bytes < 2 ^ 31"
    "quiet fds sent rcvd p0 p" "fd \<in> fds"
  shows "ends (\<lambda>(status, p'). quiet fds sent rcvd p0 p') (quiet fds sent rcvd p0)
    (write_message os fuel fd msg p)"
  by (rule ends_mono [OF write_message_ends [OF assms(1-3), where E = "\<lambda>_. False"]])
    (auto intro: quiet_trans [OF assms(4)] quiet_mono [OF write_done_quiet assms(5)])

text \<open>The client's loop may write to \<open>fd\<close>, which \<open>fds\<close> has to allow.\<close>

definition quiet_at :: "'w os \<Rightarrow> i32 \<Rightarrow> i32 set \<Rightarrow> ('w \<Rightarrow> i32 \<Rightarrow> byte list) \<Rightarrow> ('w \<Rightarrow> i32 \<Rightarrow> byte list) \<Rightarrow>
    'w proc \<Rightarrow> 'w proc \<Rightarrow> bool" where
  "quiet_at os fd fds sent rcvd p0 p \<longleftrightarrow> kernel_ok os sent rcvd \<and> fd \<in> fds \<and> quiet fds sent rcvd p0 p"

interpretation quiet_at: decoding_refusal "quiet_at os fd fds sent rcvd p0" os fuel fd
  for os :: "'w os" and fd fds sent rcvd p0 fuel
proof unfold_locales
  fix p msg bytes assume "quiet_at os fd fds sent rcvd p0 p" "msg_bytes msg = Some bytes" "length bytes < 2 ^ 31"
  then show "ends (\<lambda>(status, q). quiet_at os fd fds sent rcvd p0 q) (quiet_at os fd fds sent rcvd p0)
      (write_message os fuel fd msg p)"
    unfolding quiet_at_def by (intro ends_mono [OF write_small_quiet]) auto
qed (simp_all add: quiet_at_def frame_simps)

lemma take_in_quiet:
  "quiet fds sent rcvd p0 p \<Longrightarrow> hushed fds sent rcvd p0 (take_in side count msg counter p)"
  unfolding take_in_def
  by (auto intro!: ends_then [where P = "\<lambda>_. True"] ends_then [where P = "quiet fds sent rcvd p0"]
      ends_defined quiet.calls simp: lock_log_def frame_simps split: prod.split)

lemma client_quiet:
  assumes "kernel_ok os sent rcvd"
  shows "hushed {fd} sent rcvd p (pgprtdbg_client os fuel fd to_fd msg counter p)"
  unfolding pgprtdbg_client_def
proof (rule ends_then [OF take_in_quiet [OF quiet_refl]])
  fix q assume "quiet {fd} sent rcvd p q"
  then have "quiet_at os fd {fd} sent rcvd p q" using assms by (simp add: quiet_at_def)
  from quiet_at.rest_keeps [OF this quiet_at.client_step_keeps]
  show "hushed {fd} sent rcvd p (and_then (run_loop (client_step os fuel fd to_fd) fuel q) (\<lambda>p. Returned (unlock_log p)))"
    by (rule ends_mono) (simp_all add: quiet_at_def)
qed

lemma server_quiet: "hushed {} sent rcvd p (pgprtdbg_server fuel from_fd to_fd msg counter p)"
  unfolding pgprtdbg_server_def
  by (rule ends_then [OF take_in_quiet [OF quiet_refl]]) (rule quiet.rest_keeps [OF _ quiet.server_step_keeps])

section \<open>What decoding counts\<close>

text \<open>The counters are \<open>cs\<close>, and \<open>R\<close> is what has been received. Sending changes neither.\<close>

definition steady :: "'w os \<Rightarrow> ('w \<Rightarrow> i32 \<Rightarrow> byte list) \<Rightarrow> ('w \<Rightarrow> i32 \<Rightarrow> byte list) \<Rightarrow>
    event_counter list \<Rightarrow> (i32 \<Rightarrow> byte list) \<Rightarrow> 'w proc \<Rightarrow> bool" where
  "steady os sent rcvd cs R p \<longleftrightarrow> kernel_ok os sent rcvd \<and> pr_counters p = cs \<and> rcvd (io_world p) = R"

lemma write_stays_steady:
  fixes p :: "'w proc"
  assumes "steady os sent rcvd cs R p" "msg_bytes msg = Some bytes" "length bytes < 2 ^ 31"
  shows "ends (\<lambda>(status, q). steady os sent rcvd cs R q) E (write_message os fuel fd msg p)"
proof (rule ends_mono [OF write_message_ends [OF _ assms(2,3), where E = E]])
  show "kernel_ok os sent rcvd" using assms(1) by (simp add: steady_def)
  fix r :: "int \<times> 'w proc"
  assume r: "write_done fd msg sent rcvd p r"
  have "pr_counters (snd r) = pr_counters p"
    using r by (cases p; cases "snd r"; cases r) (auto simp: write_done_def same_else_def proc.defs)
  then show "case r of (status, q) \<Rightarrow> steady os sent rcvd cs R q"
    using r assms(1) by (auto simp: write_done_def steady_def)
qed simp

interpretation steady: decoding_refusal "steady os sent rcvd cs R" os fuel fd
  for os :: "'w os" and sent rcvd cs R fuel fd
proof unfold_locales
  fix p msg bytes assume "steady os sent rcvd cs R p" "msg_bytes msg = Some bytes" "length bytes < 2 ^ 31"
  from write_stays_steady [OF this]
  show "ends (\<lambda>(status, q). steady os sent rcvd cs R q) (steady os sent rcvd cs R) (write_message os fuel fd msg p)" .
qed (simp_all add: steady_def)

text \<open>A call counts the whole chunk, once.\<close>

definition tallied :: "('w \<Rightarrow> i32 \<Rightarrow> byte list) \<Rightarrow> (event_counter \<Rightarrow> event_counter) \<Rightarrow> nat \<Rightarrow>
    'w proc \<Rightarrow> 'w proc \<Rightarrow> bool" where
  "tallied rcvd count counter p q \<longleftrightarrow>
     update_counter count counter (pr_counters p) = Some (pr_counters q) \<and>
     rcvd (io_world q) = rcvd (io_world p)"

lemma tallied_steady:
  "kernel_ok os sent rcvd \<Longrightarrow> tallied rcvd count counter p q \<Longrightarrow>
    steady os sent rcvd (pr_counters q) (rcvd (io_world p)) q"
  by (simp add: steady_def tallied_def)

lemma steady_tallied:
  "tallied rcvd count counter p q \<Longrightarrow> steady os sent rcvd (pr_counters q) (rcvd (io_world p)) r \<Longrightarrow>
    tallied rcvd count counter p r"
  by (simp add: steady_def tallied_def)

lemma take_in_tallies: "ends (tallied rcvd count counter p) E (take_in side count msg counter p)"
proof -
  have "ends (\<lambda>q. pr_counters q = pr_counters p \<and> io_world q = io_world p) E (log_to items (lock_log p))" for items
    by (auto simp: log_to_def lock_log_def split: option.split)
  then show ?thesis
    unfolding take_in_def
    by (intro ends_then [OF ends_defined [where P = "\<lambda>_. True"]]
        ends_then [where P = "\<lambda>q. pr_counters q = pr_counters p \<and> io_world q = io_world p"]
        ends_then [OF ends_defined [where P = "\<lambda>cs. update_counter count counter (pr_counters p) = Some cs"]])
      (auto simp: tallied_def intro!: ends_then [OF ends_defined [where P = "\<lambda>_. True"]])
qed

lemma client_tallies:
  assumes "kernel_ok os sent rcvd"
  shows "ends (tallied rcvd (count_sent (msg_length msg)) counter p) (\<lambda>_. True)
    (pgprtdbg_client os fuel fd to_fd msg counter p)"
  unfolding pgprtdbg_client_def
proof (rule ends_then [OF take_in_tallies])
  fix q assume q: "tallied rcvd (count_sent (msg_length msg)) counter p q"
  from steady.rest_keeps [OF tallied_steady [OF assms q] steady.client_step_keeps]
  show "ends (tallied rcvd (count_sent (msg_length msg)) counter p) (\<lambda>_. True)
      (and_then (run_loop (client_step os fuel fd to_fd) fuel q) (\<lambda>p. Returned (unlock_log p)))"
    by (rule ends_mono) (simp_all add: steady_tallied [OF q])
qed

lemma server_tallies:
  fixes os :: "'w os" and p :: "'w proc"
  assumes "kernel_ok os sent rcvd"
  shows "ends (tallied rcvd (count_rcvd (msg_length msg)) counter p) (\<lambda>_. True)
    (pgprtdbg_server fuel from_fd to_fd msg counter p)"
  unfolding pgprtdbg_server_def
proof (rule ends_then [OF take_in_tallies])
  fix q assume q: "tallied rcvd (count_rcvd (msg_length msg)) counter p q"
  from steady.rest_keeps [OF tallied_steady [OF assms q] steady.server_step_keeps]
  show "ends (tallied rcvd (count_rcvd (msg_length msg)) counter p) (\<lambda>_. True)
      (and_then (run_loop (server_step from_fd to_fd) fuel q) (\<lambda>p. Returned (unlock_log p)))"
    by (rule ends_mono) (simp_all add: steady_tallied [OF q])
qed

end
