(* ===== verification/Pipeline.thy ===== *)
theory Pipeline
  imports Frame
begin

text \<open>
  The two callbacks of \<open>src/src/libpgprtdbg/pipeline.c\<close>: what arrives on one socket is decoded, saved
  and sent on the other one, and the end of either connection ends the worker's session.
\<close>

section \<open>Exit codes of a worker\<close>

definition WORKER_SUCCESS :: int where "WORKER_SUCCESS = 0"
definition WORKER_FAILURE :: int where "WORKER_FAILURE = 1"
definition WORKER_CLIENT_FAILURE :: int where "WORKER_CLIENT_FAILURE = 2"
definition WORKER_SERVER_FAILURE :: int where "WORKER_SERVER_FAILURE = 3"
definition WORKER_SERVER_FATAL :: int where "WORKER_SERVER_FATAL = 4"

lemmas worker_codes = WORKER_SUCCESS_def WORKER_FAILURE_def WORKER_CLIENT_FAILURE_def
  WORKER_SERVER_FAILURE_def WORKER_SERVER_FATAL_def

section \<open>The end of a session\<close>

text \<open>
  A callback ends with \<open>ev_break\<close> in one of its two forms. What ends the session also leaves the
  loop of \<open>pgprtdbg_worker\<close>, by \<open>running = 0\<close>; \<open>server_done\<close> leaves the exit code as it is.
\<close>

datatype ev_break = EVBREAK_ONE | EVBREAK_ALL

type_synonym 'w callback = "'w proc \<Rightarrow> ('w proc, ev_break \<times> 'w proc) outcome"

definition say :: "log_item \<Rightarrow> 'w act" where
  "say item p = and_then (log_to [item] (lock_log p)) (\<lambda>p. Returned (unlock_log p))"

definition leave :: "int option \<Rightarrow> 'w callback" where
  "leave code p = Returned (EVBREAK_ALL, p\<lparr>io_errno := 0, pr_exit_code :=
     (case code of None \<Rightarrow> pr_exit_code p | Some c \<Rightarrow> c), pr_running := False\<rparr>)"

text \<open>The line \<open>[C] client_error: client_fd 7 - reason (2)\<close>, and the one without a reason.\<close>

definition done_line :: "string \<Rightarrow> string \<Rightarrow> i32 \<Rightarrow> int \<Rightarrow> log_item" where
  "done_line what fd_name fd status = Line (bs what @ bs '': '' @ bs fd_name @ bs '' '' @
     show_int (sint fd) @ bs '' ('' @ show_int status @ bs '')'')"

definition error_line :: "'w os \<Rightarrow> string \<Rightarrow> string \<Rightarrow> i32 \<Rightarrow> int \<Rightarrow> int \<Rightarrow> log_item" where
  "error_line os what fd_name fd errno status =
     (if errno \<noteq> 0
      then Line (bs what @ bs '': '' @ bs fd_name @ bs '' '' @ show_int (sint fd) @ bs '' - '' @
        os_strerror os errno @ bs '' ('' @ show_int status @ bs '')'')
      else done_line what fd_name fd status)"

definition session_done :: "string \<Rightarrow> string \<Rightarrow> i32 \<Rightarrow> int \<Rightarrow> int option \<Rightarrow> 'w callback" where
  "session_done what fd_name fd status code p =
     and_then (say (done_line what fd_name fd status) p) (leave code)"

definition session_error :: "'w os \<Rightarrow> string \<Rightarrow> string \<Rightarrow> i32 \<Rightarrow> int \<Rightarrow> int \<Rightarrow> 'w callback" where
  "session_error os what fd_name fd status code p =
     and_then (say (error_line os what fd_name fd (io_errno p) status) p) (leave (Some code))"

section \<open>The client's callback\<close>

text \<open>
  The part behind \<open>pgprtdbg_read_message\<close> when it gave a message. The number of the last message of the
  client, a \<open>long\<close>, is counted only while the traffic is saved.
\<close>

definition client_save :: "'w os \<Rightarrow> message \<Rightarrow> 'w act" where
  "client_save os msg p =
     (if cfg_save_traffic (pr_config p)
      then (let p = p\<lparr>pr_identifier := pr_identifier p + 1\<rparr>
            in save_client_traffic os (pr_identifier p) msg p)
      else Returned p)"

definition client_message :: "'w os \<Rightarrow> nat \<Rightarrow> i32 \<Rightarrow> i32 \<Rightarrow> nat \<Rightarrow> message \<Rightarrow> 'w callback" where
  "client_message os fuel client_fd server_fd counter msg p =
     and_then (pgprtdbg_client os fuel client_fd server_fd msg counter p) (\<lambda>p.
     and_then (client_save os msg p) (\<lambda>p.
     and_then (pgprtdbg_write_message os fuel server_fd msg p) (\<lambda>(status, p).
       if status \<noteq> MESSAGE_STATUS_OK
       then session_error os ''[C] server_error'' ''server_fd'' server_fd status WORKER_SERVER_FAILURE p
       else Returned (EVBREAK_ONE,
         if msg_kind msg = ch CHR ''X''
         then p\<lparr>pr_exit_code := WORKER_SUCCESS, pr_running := False\<rparr> else p))))"

definition pipeline_client :: "'w os \<Rightarrow> nat \<Rightarrow> i32 \<Rightarrow> i32 \<Rightarrow> nat \<Rightarrow> 'w callback" where
  "pipeline_client os fuel client_fd server_fd counter p =
     and_then (pgprtdbg_read_message os fuel client_fd p) (\<lambda>(status, m, p).
       if status = MESSAGE_STATUS_OK
       then (case m of
               None \<Rightarrow> Undefined
             | Some msg \<Rightarrow> client_message os fuel client_fd server_fd counter msg p)
       else if status = MESSAGE_STATUS_ZERO
       then session_done ''[C] client_done'' ''client_fd'' client_fd status (Some WORKER_CLIENT_FAILURE) p
       else session_error os ''[C] client_error'' ''client_fd'' client_fd status WORKER_CLIENT_FAILURE p)"

section \<open>The server's callback\<close>

text \<open>
  \<open>strncmp\<close> of a place in the block with a literal: the bytes are compared up to the first difference,
  and those beyond the block cannot be read. The block is the process's whole buffer, not only the
  message.
\<close>

fun same_text :: "byte list \<Rightarrow> ctext \<Rightarrow> bool option" where
  "same_text blk [] = Some True"
| "same_text [] (c # cs) = None"
| "same_text (b # blk) (c # cs) = (if b = c then same_text blk cs else Some False)"

definition is_fatal :: "byte list \<Rightarrow> bool option" where
  "is_fatal blk = do {
     fatal \<leftarrow> same_text (drop 6 blk) (bs ''FATAL'');
     fatal \<leftarrow> (if fatal then Some True else same_text (drop 6 blk) (bs ''PANIC''));
     unsupported \<leftarrow> same_text (drop 20 blk) (bs ''0A000'');
     Some (if unsupported then False else fatal) }"

definition server_save :: "'w os \<Rightarrow> message \<Rightarrow> 'w act" where
  "server_save os msg p =
     (if cfg_save_traffic (pr_config p) then save_server_traffic os (pr_identifier p) msg p else Returned p)"

definition server_message :: "'w os \<Rightarrow> nat \<Rightarrow> i32 \<Rightarrow> i32 \<Rightarrow> nat \<Rightarrow> message \<Rightarrow> 'w callback" where
  "server_message os fuel client_fd server_fd counter msg p =
     and_then (pgprtdbg_server fuel server_fd client_fd msg counter p) (\<lambda>p.
     and_then (server_save os msg p) (\<lambda>p.
     and_then (pgprtdbg_write_message os fuel client_fd msg p) (\<lambda>(status, p).
       if status \<noteq> MESSAGE_STATUS_OK
       then session_error os ''[S] client_error'' ''client_fd'' client_fd status WORKER_CLIENT_FAILURE p
       else if msg_kind msg = ch CHR ''E''
       then and_then (defined (Option.bind (msg_data msg) is_fatal)) (\<lambda>fatal.
         Returned (EVBREAK_ONE,
           if fatal then p\<lparr>pr_exit_code := WORKER_SERVER_FATAL, pr_running := False\<rparr> else p))
       else Returned (EVBREAK_ONE, p))))"

definition pipeline_server :: "'w os \<Rightarrow> nat \<Rightarrow> i32 \<Rightarrow> i32 \<Rightarrow> nat \<Rightarrow> 'w callback" where
  "pipeline_server os fuel client_fd server_fd counter p =
     and_then (pgprtdbg_read_message os fuel server_fd p) (\<lambda>(status, m, p).
       if status = MESSAGE_STATUS_OK
       then (case m of
               None \<Rightarrow> Undefined
             | Some msg \<Rightarrow> server_message os fuel client_fd server_fd counter msg p)
       else if status = MESSAGE_STATUS_ZERO
       then session_done ''[C] server_done'' ''server_fd'' server_fd status None p
       else session_error os ''[S] server_error'' ''server_fd'' server_fd status WORKER_SERVER_FAILURE p)"

section \<open>What a callback does to the two sockets\<close>

text \<open>
  \<open>new\<close> arrived on \<open>from_fd\<close>, and the first \<open>k\<close> bytes of it were sent on \<open>to_fd\<close>; besides, only the
  sockets \<open>fds\<close> may have been written to, and only more was sent.
\<close>

definition passed :: "i32 set \<Rightarrow> i32 \<Rightarrow> i32 \<Rightarrow> ('w \<Rightarrow> i32 \<Rightarrow> byte list) \<Rightarrow> ('w \<Rightarrow> i32 \<Rightarrow> byte list) \<Rightarrow>
    byte list \<Rightarrow> nat \<Rightarrow> 'w \<Rightarrow> 'w \<Rightarrow> bool" where
  "passed fds from_fd to_fd sent rcvd new k w w' \<longleftrightarrow> k \<le> length new \<and>
     rcvd w' = (rcvd w)(from_fd := rcvd w from_fd @ new) \<and>
     sent w' to_fd = sent w to_fd @ take k new \<and> (\<forall>f. f \<notin> insert to_fd fds \<longrightarrow> sent w' f = sent w f) \<and>
     grows sent w w'"

text \<open>
  After a callback that returned, the buffer is ready for the next one, and if the session goes on,
  something has arrived, and all of it was passed.
\<close>

definition relayed :: "nat \<Rightarrow> i32 set \<Rightarrow> i32 \<Rightarrow> i32 \<Rightarrow> ('w \<Rightarrow> i32 \<Rightarrow> byte list) \<Rightarrow>
    ('w \<Rightarrow> i32 \<Rightarrow> byte list) \<Rightarrow> 'w proc \<Rightarrow> 'w proc \<Rightarrow> bool" where
  "relayed n fds from_fd to_fd sent rcvd p p' \<longleftrightarrow> memory_ok n (io_memory p') \<and>
     same_seat p p' \<and>
     (\<exists>new k. passed fds from_fd to_fd sent rcvd new k (io_world p) (io_world p') \<and>
        (pr_running p' \<longrightarrow> pr_running p \<and> k = length new \<and> new \<noteq> []))"

definition cut_off :: "i32 set \<Rightarrow> i32 \<Rightarrow> i32 \<Rightarrow> ('w \<Rightarrow> i32 \<Rightarrow> byte list) \<Rightarrow>
    ('w \<Rightarrow> i32 \<Rightarrow> byte list) \<Rightarrow> 'w proc \<Rightarrow> 'w proc \<Rightarrow> bool" where
  "cut_off fds from_fd to_fd sent rcvd p p' \<longleftrightarrow>
     same_seat p p' \<and>
     (\<exists>new k. passed fds from_fd to_fd sent rcvd new k (io_world p) (io_world p'))"

text \<open>The message \<open>bytes\<close> has been taken from \<open>from_fd\<close>, and nothing else has been done.\<close>

definition taken :: "nat \<Rightarrow> i32 \<Rightarrow> ('w \<Rightarrow> i32 \<Rightarrow> byte list) \<Rightarrow> ('w \<Rightarrow> i32 \<Rightarrow> byte list) \<Rightarrow>
    byte list \<Rightarrow> 'w proc \<Rightarrow> 'w proc \<Rightarrow> bool" where
  "taken n from_fd sent rcvd bytes p q \<longleftrightarrow> bytes \<noteq> [] \<and> memory_ok n (io_memory q) \<and> pr_running q = pr_running p \<and>
     same_seat p q \<and>
     sent (io_world q) = sent (io_world p) \<and>
     rcvd (io_world q) = (rcvd (io_world p))(from_fd := rcvd (io_world p) from_fd @ bytes)"

lemma taken_quiet: "taken n from_fd sent rcvd bytes p q \<Longrightarrow> quiet fds sent rcvd q r \<Longrightarrow> to_fd \<notin> fds \<Longrightarrow>
    memory_ok n (io_memory r) \<and> pr_running r = pr_running p \<and>
    same_seat p r \<and>
    passed fds from_fd to_fd sent rcvd bytes 0 (io_world p) (io_world r)"
  using same_seat_trans by (auto simp: taken_def quiet_def passed_def grows_def)

lemma taken_cut: "taken n from_fd sent rcvd bytes p q \<Longrightarrow> quiet fds sent rcvd q r \<Longrightarrow> to_fd \<notin> fds \<Longrightarrow>
    cut_off fds from_fd to_fd sent rcvd p r"
  by (auto simp: cut_off_def dest: taken_quiet)

text \<open>The end of a session leaves sockets and buffer alone.\<close>

lemma say_quiet: "quiet fds sent rcvd p0 p \<Longrightarrow> hushed fds sent rcvd p0 (say item p)"
  unfolding say_def by (rule quiet.say_keeps)

lemma leave_ends: "(\<And>e c. P (EVBREAK_ALL, p\<lparr>io_errno := e, pr_exit_code := c, pr_running := False\<rparr>)) \<Longrightarrow>
    ends P E (leave code p)"
  by (simp add: leave_def)

lemma passed_quiet:
  assumes "passed fds from_fd to_fd sent rcvd new k w (io_world p)" "quiet {} sent rcvd p q"
  shows "passed fds from_fd to_fd sent rcvd new k w (io_world q)"
  using assms grows_trans [of sent w "io_world p" "io_world q"] by (auto simp: passed_def quiet_def)

lemma session_end:
  assumes "memory_ok n (io_memory p)"
    "passed fds from_fd to_fd sent rcvd new k (io_world p0) (io_world p)" "same_seat p0 p"
  shows "ends (\<lambda>(b, p'). relayed n fds from_fd to_fd sent rcvd p0 p') (cut_off fds from_fd to_fd sent rcvd p0)
    (and_then (say item p) (leave code))"
proof (rule ends_then)
  have "hushed {} sent rcvd p (say item p)" by (rule say_quiet [OF quiet_refl])
  then show "ends (quiet {} sent rcvd p) (cut_off fds from_fd to_fd sent rcvd p0) (say item p)"
    by (rule ends_mono) (use passed_quiet [OF assms(2)] assms(3) same_seat_trans in \<open>auto simp: quiet_def cut_off_def\<close>)
next
  fix q assume "quiet {} sent rcvd p q"
  then show "ends (\<lambda>(b, p'). relayed n fds from_fd to_fd sent rcvd p0 p')
      (cut_off fds from_fd to_fd sent rcvd p0) (leave code q)"
    using passed_quiet [OF assms(2)] assms(1,3) same_seat_trans by (intro leave_ends) (auto simp: relayed_def quiet_def)
qed

text \<open>Sending a message that has been taken.\<close>

lemma sent_on:
  fixes p :: "'w proc"
  assumes "kernel_ok os sent rcvd" "msg_bytes msg = Some bytes" "length bytes < 2 ^ 31"
    "memory_ok n (io_memory p)" "passed fds from_fd to_fd sent rcvd bytes 0 (io_world p0) (io_world p)"
  shows "ends (\<lambda>(status, q). memory_ok n (io_memory q) \<and> pr_running q = pr_running p \<and> same_seat p q \<and>
      (\<exists>k. passed fds from_fd to_fd sent rcvd bytes k (io_world p0) (io_world q) \<and>
        (status = MESSAGE_STATUS_OK \<longrightarrow> k = length bytes))) E
    (write_message os fuel to_fd msg p)"
proof (rule ends_mono [OF write_message_ends [OF assms(1-3), where E = E]])
  fix r :: "int \<times> 'w proc"
  obtain status q where r: "r = (status, q)" by (cases r)
  assume "write_done to_fd msg sent rcvd p r"
  with assms(2) obtain k where k: "status = MESSAGE_STATUS_OK \<and> k = length bytes \<or> status = MESSAGE_STATUS_ERROR \<and> k \<le> length bytes"
    "sent (io_world q) = (sent (io_world p))(to_fd := sent (io_world p) to_fd @ take k bytes)"
    "rcvd (io_world q) = rcvd (io_world p)" "same_else p q" unfolding r by (auto simp: write_done_def)
  have "pr_running q = pr_running p" "same_seat p q"
    using k(4) by (cases p; cases q; simp add: same_else_def proc.defs same_seat_def)+
  moreover have "grows sent (io_world p) (io_world q)" by (rule grows_sent) (rule k(2))
  then have "passed fds from_fd to_fd sent rcvd bytes k (io_world p0) (io_world q)"
    using assms(5) k(1-3) grows_trans [of sent "io_world p0" "io_world p" "io_world q"] by (auto simp: passed_def)
  ultimately show "case r of (status, q) \<Rightarrow> memory_ok n (io_memory q) \<and> pr_running q = pr_running p \<and> same_seat p q \<and>
      (\<exists>k. passed fds from_fd to_fd sent rcvd bytes k (io_world p0) (io_world q) \<and>
        (status = MESSAGE_STATUS_OK \<longrightarrow> k = length bytes))"
    using k(1,4) assms(4) unfolding r
    by (auto simp: same_else_def MESSAGE_STATUS_OK_def MESSAGE_STATUS_ERROR_def)
qed simp

text \<open>Decoding, saving and sending, and what either callback does behind that.\<close>

lemma message_relays:
  assumes "kernel_ok os sent rcvd" "msg_bytes msg = Some bytes" "length bytes < 2 ^ 31"
    "taken n from_fd sent rcvd bytes p q" "to_fd \<notin> fds"
    "hushed fds sent rcvd q decode" "\<And>r. quiet fds sent rcvd q r \<Longrightarrow> hushed fds sent rcvd q (save r)"
    "\<And>status r k. memory_ok n (io_memory r) \<Longrightarrow> pr_running r = pr_running p \<Longrightarrow> same_seat p r \<Longrightarrow>
      passed fds from_fd to_fd sent rcvd bytes k (io_world p) (io_world r) \<Longrightarrow>
      (status = MESSAGE_STATUS_OK \<longrightarrow> k = length bytes) \<Longrightarrow>
      ends (\<lambda>(b, p'). relayed n fds from_fd to_fd sent rcvd p p') (cut_off fds from_fd to_fd sent rcvd p)
        (rest status r)"
  shows "ends (\<lambda>(b, p'). relayed n fds from_fd to_fd sent rcvd p p') (cut_off fds from_fd to_fd sent rcvd p)
    (and_then decode (\<lambda>p. and_then (save p) (\<lambda>p.
       and_then (write_message os fuel to_fd msg p) (\<lambda>(status, p). rest status p))))"
proof (rule ends_then [where P = "quiet fds sent rcvd q"])
  show "ends (quiet fds sent rcvd q) (cut_off fds from_fd to_fd sent rcvd p) decode"
    using assms(6) by (rule ends_mono) (use taken_cut [OF assms(4) _ assms(5)] in blast)+
next
  fix r assume "quiet fds sent rcvd q r"
  note save = assms(7) [OF this]
  show "ends (\<lambda>(b, p'). relayed n fds from_fd to_fd sent rcvd p p') (cut_off fds from_fd to_fd sent rcvd p)
    (and_then (save r) (\<lambda>p.
       and_then (write_message os fuel to_fd msg p) (\<lambda>(status, p). rest status p)))"
  proof (rule ends_then [where P = "quiet fds sent rcvd q"])
    show "ends (quiet fds sent rcvd q) (cut_off fds from_fd to_fd sent rcvd p) (save r)"
      using save by (rule ends_mono) (use taken_cut [OF assms(4) _ assms(5)] in blast)+
  next
    fix s assume "quiet fds sent rcvd q s"
    with taken_quiet [OF assms(4) _ assms(5)] have s: "memory_ok n (io_memory s)"
      "pr_running s = pr_running p" "same_seat p s" "passed fds from_fd to_fd sent rcvd bytes 0 (io_world p) (io_world s)"
      by blast+
    show "ends (\<lambda>(b, p'). relayed n fds from_fd to_fd sent rcvd p p') (cut_off fds from_fd to_fd sent rcvd p)
       (and_then (write_message os fuel to_fd msg s) (\<lambda>(status, p). rest status p))"
      by (rule ends_then [OF sent_on [OF assms(1-3) s(1,4)]]) (use s(2) same_seat_trans [OF s(3)] assms(8) in auto)
  qed
qed

lemma session_error_relayed:
  "memory_ok n (io_memory p) \<Longrightarrow> passed fds from_fd to_fd sent rcvd new k (io_world p0) (io_world p) \<Longrightarrow>
    same_seat p0 p \<Longrightarrow> ends (\<lambda>(b, p'). relayed n fds from_fd to_fd sent rcvd p0 p') (cut_off fds from_fd to_fd sent rcvd p0)
      (session_error os what fd_name fd status code p)"
  unfolding session_error_def by (rule session_end)

lemma client_message_relays:
  fixes p :: "'w proc"
  assumes "kernel_ok os sent rcvd" "msg_bytes msg = Some bytes" "length bytes < 2 ^ 31"
    "taken n client_fd sent rcvd bytes p q" "server_fd \<noteq> client_fd"
  shows "ends (\<lambda>(b, p'). relayed n {client_fd} client_fd server_fd sent rcvd p p')
    (cut_off {client_fd} client_fd server_fd sent rcvd p)
    (client_message os fuel client_fd server_fd counter msg q)"
  unfolding client_message_def
proof (rule message_relays [OF assms(1-4)])
  fix status :: int and r :: "'w proc" and k
  assume r: "memory_ok n (io_memory r)" "pr_running r = pr_running p" "same_seat p r"
    "passed {client_fd} client_fd server_fd sent rcvd bytes k (io_world p) (io_world r)"
    "status = MESSAGE_STATUS_OK \<longrightarrow> k = length bytes"
  show "ends (\<lambda>(b, p'). relayed n {client_fd} client_fd server_fd sent rcvd p p')
      (cut_off {client_fd} client_fd server_fd sent rcvd p)
      (if status \<noteq> MESSAGE_STATUS_OK
       then session_error os ''[C] server_error'' ''server_fd'' server_fd status WORKER_SERVER_FAILURE r
       else Returned (EVBREAK_ONE,
         if msg_kind msg = ch CHR ''X''
         then r\<lparr>pr_exit_code := WORKER_SUCCESS, pr_running := False\<rparr> else r))"
    using r session_error_relayed [OF r(1,4,3)] assms(4) by (auto simp: relayed_def taken_def)
qed (use assms(5) client_quiet [OF assms(1)] in
    \<open>auto simp: client_save_def save_client_traffic_def Let_def frame_simps intro!: quiet.calls\<close>)

lemma server_message_relays:
  fixes p :: "'w proc"
  assumes "kernel_ok os sent rcvd" "msg_bytes msg = Some bytes" "length bytes < 2 ^ 31"
    "taken n server_fd sent rcvd bytes p q"
  shows "ends (\<lambda>(b, p'). relayed n {} server_fd client_fd sent rcvd p p')
    (cut_off {} server_fd client_fd sent rcvd p)
    (server_message os fuel client_fd server_fd counter msg q)"
  unfolding server_message_def
proof (rule message_relays [OF assms(1-4)])
  fix status :: int and r :: "'w proc" and k
  assume r: "memory_ok n (io_memory r)" "pr_running r = pr_running p" "same_seat p r"
    "passed {} server_fd client_fd sent rcvd bytes k (io_world p) (io_world r)"
    "status = MESSAGE_STATUS_OK \<longrightarrow> k = length bytes"
  show "ends (\<lambda>(b, p'). relayed n {} server_fd client_fd sent rcvd p p')
      (cut_off {} server_fd client_fd sent rcvd p)
      (if status \<noteq> MESSAGE_STATUS_OK
       then session_error os ''[S] client_error'' ''client_fd'' client_fd status WORKER_CLIENT_FAILURE r
       else if msg_kind msg = ch CHR ''E''
       then and_then (defined (Option.bind (msg_data msg) is_fatal)) (\<lambda>fatal.
         Returned (EVBREAK_ONE,
           if fatal then r\<lparr>pr_exit_code := WORKER_SERVER_FATAL, pr_running := False\<rparr> else r))
       else Returned (EVBREAK_ONE, r))"
    using r session_error_relayed [OF r(1,4,3)] assms(4)
    by (auto simp: relayed_def taken_def intro!: ends_then [where P = "\<lambda>_. True"] ends_defined simp del: of_char_Char)
      blast+
qed (use server_quiet in \<open>auto simp: server_save_def save_server_traffic_def intro!: quiet.calls\<close>)

text \<open>Reading, and what follows it.\<close>

lemma read_message_ends:
  assumes "kernel_ok os sent rcvd" "memory_ok n (io_memory st)" "n < 2 ^ 31"
  shows "ends (read_done n socket sent rcvd st) E (read_message os fuel socket False st)"
proof (cases fuel)
  case (Suc f)
  with read_message_done [OF assms, of fuel socket] show ?thesis by auto
qed (simp add: read_message_def run_loop_def)

lemma callback_relays:
  fixes p :: "'w proc"
  assumes "kernel_ok os sent rcvd" "memory_ok n (io_memory p)" "n < 2 ^ 31"
    "\<And>msg bytes q. msg_bytes msg = Some bytes \<Longrightarrow> length bytes < 2 ^ 31 \<Longrightarrow>
      taken n from_fd sent rcvd bytes p q \<Longrightarrow>
      ends (\<lambda>(b, p'). relayed n fds from_fd to_fd sent rcvd p p') (cut_off fds from_fd to_fd sent rcvd p)
        (message_part msg q)"
  shows "ends (\<lambda>(b, p'). relayed n fds from_fd to_fd sent rcvd p p') (cut_off fds from_fd to_fd sent rcvd p)
    (and_then (read_message os fuel from_fd False p) (\<lambda>(status, m, p).
       if status = MESSAGE_STATUS_OK
       then (case m of None \<Rightarrow> Undefined | Some msg \<Rightarrow> message_part msg p)
       else if status = MESSAGE_STATUS_ZERO
       then session_done what fd_name fd status code p
       else session_error os what' fd_name fd status code' p))"
proof (rule ends_then [OF read_message_ends [OF assms(1-3), of from_fd "cut_off fds from_fd to_fd sent rcvd p" fuel]])
  fix r :: "int \<times> message option \<times> 'w proc"
  obtain status m q where r: "r = (status, m, q)" by (cases r)
  assume rd: "read_done n from_fd sent rcvd p r"
  then have more: "io.more q = io.more p" unfolding r by (simp add: read_done_def)
  have running: "pr_running q = pr_running p" "same_seat p q"
    using more by (cases p; cases q; simp add: proc.defs same_seat_def)+
  show "ends (\<lambda>(b, p'). relayed n fds from_fd to_fd sent rcvd p p') (cut_off fds from_fd to_fd sent rcvd p)
    (case r of (status, m, p) \<Rightarrow>
       if status = MESSAGE_STATUS_OK
       then (case m of None \<Rightarrow> Undefined | Some msg \<Rightarrow> message_part msg p)
       else if status = MESSAGE_STATUS_ZERO
       then session_done what fd_name fd status code p
       else session_error os what' fd_name fd status code' p)"
  proof (cases "status = MESSAGE_STATUS_OK")
    case True
    with rd running assms(3) show ?thesis
      unfolding r by (auto simp: read_done_def taken_def MESSAGE_STATUS_OK_def MESSAGE_STATUS_ZERO_def
        MESSAGE_STATUS_ERROR_def intro!: assms(4))
  next
    case False
    with rd have "memory_ok n (io_memory q)" "passed fds from_fd to_fd sent rcvd [] 0 (io_world p) (io_world q)"
      unfolding r by (auto simp: read_done_def passed_def intro: grows_same)
    note session_end [OF this running(2)]
    with False show ?thesis unfolding r by (simp add: session_done_def session_error_def)
  qed
qed

lemma pipeline_client_relays:
  assumes "kernel_ok os sent rcvd" "memory_ok n (io_memory p)" "n < 2 ^ 31" "server_fd \<noteq> client_fd"
  shows "ends (\<lambda>(b, p'). relayed n {client_fd} client_fd server_fd sent rcvd p p')
    (cut_off {client_fd} client_fd server_fd sent rcvd p)
    (pipeline_client os fuel client_fd server_fd counter p)"
  unfolding pipeline_client_def
  by (rule callback_relays [OF assms(1-3)]) (rule client_message_relays [OF assms(1) _ _ _ assms(4)])

lemma pipeline_server_relays:
  assumes "kernel_ok os sent rcvd" "memory_ok n (io_memory p)" "n < 2 ^ 31"
  shows "ends (\<lambda>(b, p'). relayed n {} server_fd client_fd sent rcvd p p')
    (cut_off {} server_fd client_fd sent rcvd p)
    (pipeline_server os fuel client_fd server_fd counter p)"
  unfolding pipeline_server_def
  by (rule callback_relays [OF assms]) (rule server_message_relays [OF assms(1)])

end
