(* ===== verification/Relay.thy ===== *)
theory Relay
  imports Pipeline
begin

text \<open>
  What the callbacks of \<open>pipeline.c\<close> do on connections that work: every chunk is decoded and sent on
  unchanged, and which messages end the session. Then the ways a session ends otherwise, and what a
  callback keeps in all cases.
\<close>

section \<open>Reading a chunk\<close>

lemma read_message_got:
  assumes "kernel_ok os sent rcvd" "memory_ok n (io_memory p)" "n < 2 ^ 31"
    "mem_data (io_memory p) = Some blk" "os_read os fd (length blk) (io_world p) = (Got bytes, w)"
    "bytes \<noteq> []" "0 < fuel"
  shows "\<exists>msg mem. read_message os fuel fd False p =
      Returned (MESSAGE_STATUS_OK, Some msg, p\<lparr>io_world := w, io_memory := mem\<rparr>) \<and>
    msg_bytes msg = Some bytes \<and> msg_kind msg = hd bytes \<and> msg_length msg = word_of_nat (length bytes) \<and>
    msg_data msg = Some (bytes @ drop (length bytes) blk) \<and> mem_data mem = msg_data msg \<and>
    memory_ok n mem \<and> length bytes \<le> length blk \<and> length bytes \<le> n"
proof -
  from assms(2,4) obtain m where m: "mem_message (io_memory p) = Some m"
    "length blk = unat (msg_max_length m)" "length blk \<le> n" by (auto simp: memory_ok_def)
  note k = kernel_read [OF assms(1,5)]
  obtain b bs where b: "bytes = b # bs" using assms(6) by (cases bytes) auto
  obtain f where f: "fuel = Suc f" using assms(7) by (cases fuel) auto
  let ?blk = "bytes @ drop (length bytes) blk"
  let ?msg = "m\<lparr>msg_data := Some blk, msg_kind := b, msg_length := word_of_nat (length bytes),
    msg_data := Some ?blk\<rparr>"
  have put: "put blk 0 bytes = Some ?blk" using k(1) by (simp add: put_def)
  have len: "sint (word_of_nat (length bytes) :: i64) = int (length bytes)"
    using k(1) m(3) assms(3) by (simp add: signed_of_nat signed_take_bit_int_eq_self)
  have "read_message os fuel fd False p = Returned (MESSAGE_STATUS_OK, Some ?msg,
      p\<lparr>io_world := w, io_memory := \<lparr>mem_message = Some ?msg, mem_data = Some ?blk\<rparr>\<rparr>)"
    using m assms(4,5) put b f by (simp add: read_message_def run_loop_def read_step_def Let_def)
  moreover have "msg_bytes ?msg = Some bytes"
    using len by (simp add: msg_bytes_def block_prefix_def)
  moreover have "memory_ok n \<lparr>mem_message = Some ?msg, mem_data = Some ?blk\<rparr>"
    using m k(1) by (simp add: memory_ok_def)
  ultimately show ?thesis using b k(1) m(3) by fastforce
qed

section \<open>Saving the traffic\<close>

definition can_save :: "'w os \<Rightarrow> configuration \<Rightarrow> bool" where
  "can_save os config \<longleftrightarrow> (cfg_save_traffic config \<longrightarrow> (\<forall>name w. os_fopen os name w))"

lemma can_save_simps [simp]: "can_save os (add_trace t c) = can_save os c"
  "can_save os (c\<lparr>cfg_log_lock := l\<rparr>) = can_save os c"
  by (simp_all add: can_save_def add_trace_def)

lemma write_traffic_ok:
  assumes "msg_bytes msg = Some bytes" "length bytes \<le> 65535" "os_fopen os name (io_world p)"
  shows "\<exists>files. write_traffic os name i (Some msg) p = Returned (p\<lparr>pr_files := files\<rparr>)"
  using dump_text_defined [OF assms(2)] assms by (auto simp: write_traffic_def append_file_def)

lemma client_save_ok:
  assumes "can_save os (pr_config p)" "msg_bytes msg = Some bytes" "length bytes \<le> 65535"
  shows "\<exists>i files. client_save os msg p = Returned (p\<lparr>pr_identifier := i, pr_files := files\<rparr>)"
proof (cases "cfg_save_traffic (pr_config p)")
  case True
  from write_traffic_ok [OF assms(2,3), of os "traffic_file (pr_pid p) ''-client.bin''"
      "p\<lparr>pr_identifier := pr_identifier p + 1\<rparr>" "pr_identifier p + 1"] True assms(1)
  show ?thesis by (auto simp: can_save_def client_save_def save_client_traffic_def)
next
  case False
  then show ?thesis
    by (intro exI [of _ "pr_identifier p"] exI [of _ "pr_files p"]) (simp add: client_save_def)
qed

lemma server_save_ok:
  assumes "can_save os (pr_config p)" "msg_bytes msg = Some bytes" "length bytes \<le> 65535"
  shows "\<exists>files. server_save os msg p = Returned (p\<lparr>pr_files := files\<rparr>)"
proof (cases "cfg_save_traffic (pr_config p)")
  case True
  from write_traffic_ok [OF assms(2,3), of os "traffic_file (pr_pid p) ''-server.bin''" p "pr_identifier p"]
    True assms(1) show ?thesis by (simp add: can_save_def server_save_def save_server_traffic_def)
next
  case False
  then show ?thesis by (intro exI [of _ "pr_files p"]) (simp add: server_save_def)
qed

text \<open>Worlds that differ by calls of \<open>write\<close>.\<close>

inductive written :: "'w os \<Rightarrow> 'w \<Rightarrow> 'w \<Rightarrow> bool" for os where
  written_none: "written os w w"
| written_more: "written os w v \<Longrightarrow> os_write os fd bytes v = (res, w') \<Longrightarrow> written os w w'"

lemma written_keeps:
  assumes "written os w w'" "\<And>fd bytes v res v'. os_write os fd bytes v = (res, v') \<Longrightarrow> f v' = f v"
  shows "f w' = f w"
  using assms(1) by (induction rule: written.induct) (use assms(2) in fastforce)+

lemma write_message_written:
  "ends (\<lambda>(status, q). written os (io_world p) (io_world q)) E (write_message os fuel fd msg p)"
  unfolding write_message_def
proof (rule ends_run_loop [where J = "\<lambda>(_, _, _, st). written os (io_world p) (io_world st)"])
  fix x :: "('a, 'b) write_locals"
  obtain offset total remaining st where x: "x = (offset, total, remaining, st)" by (cases x)
  assume "case x of (_, _, _, st) \<Rightarrow> written os (io_world p) (io_world st)"
  then have st: "written os (io_world p) (io_world st)" by (simp add: x)
  show "case write_step os fd msg x of
      Again y \<Rightarrow> (case y of (_, _, _, st) \<Rightarrow> written os (io_world p) (io_world st))
    | Stop r \<Rightarrow> ends (\<lambda>(status, q). written os (io_world p) (io_world q)) E r"
    using written_more [OF st]
    by (auto simp: x write_step_def Let_def split: option.split prod.split write_result.split)
qed (simp add: written_none)

text \<open>Sending on a connection that works leaves everything of the process but the world and \<open>errno\<close>.\<close>

lemma forward_ok:
  assumes "kernel_ok os sent rcvd" "kernel_progress os patience k" "kernel_steady os"
    "msg_bytes msg = Some bytes" "bytes \<noteq> []" "length bytes \<le> 65535"
    "msg_length msg = word_of_nat (length bytes)" "length bytes * (k + 1) + k + 1 \<le> fuel"
  shows "\<exists>e w. write_message os fuel fd msg (p :: 'w proc) =
      Returned (MESSAGE_STATUS_OK, p\<lparr>io_errno := e, io_world := w\<rparr>) \<and>
    rcvd w = rcvd (io_world p) \<and> sent w = (sent (io_world p))(fd := sent (io_world p) fd @ bytes) \<and>
    written os (io_world p) w"
proof -
  have "sint (word_of_nat (length bytes) :: i64) = int (length bytes)"
    using assms(6) by (simp add: signed_of_nat signed_take_bit_int_eq_self)
  then have "write_fuel k msg \<le> fuel" using assms(7,8) by (simp add: write_fuel_def)
  from write_message_steady [OF assms(1-5) _ this, of fd p] assms(6) obtain p' where
    w: "write_message os fuel fd msg p = Returned (MESSAGE_STATUS_OK, p')" "same_else p p'"
    "rcvd (io_world p') = rcvd (io_world p)"
    "sent (io_world p') = (sent (io_world p))(fd := sent (io_world p) fd @ bytes)" by auto
  have "p' = p\<lparr>io_errno := io_errno p', io_world := io_world p'\<rparr>"
    using w(2) by (cases p; cases p') (simp add: same_else_def proc.defs)
  moreover have "written os (io_world p) (io_world p')"
    using write_message_written [of os p "\<lambda>_. True" fuel fd msg] by (simp add: w(1))
  ultimately show ?thesis using w by metis
qed

section \<open>The client's direction\<close>

lemma processed_untouched:
  assumes "processed side count counter bytes text trace tail p p'"
  shows "io_memory p' = io_memory p" "io_world p' = io_world p" "pr_running p' = pr_running p"
    "pr_exit_code p' = pr_exit_code p" "holds p' tail" "pr_pid p' = pr_pid p"
  using assms by (simp_all add: processed_def untouched_def)

lemma holds_frame [frame_simps]:
  "holds (p\<lparr>io_errno := e\<rparr>) bytes = holds p bytes" "holds (p\<lparr>io_world := w\<rparr>) bytes = holds p bytes"
  "holds (p\<lparr>io_memory := m\<rparr>) bytes = holds p bytes" "holds (p\<lparr>pr_files := fs\<rparr>) bytes = holds p bytes"
  "holds (p\<lparr>pr_identifier := i\<rparr>) bytes = holds p bytes" "holds (p\<lparr>pr_exit_code := c\<rparr>) bytes = holds p bytes"
  "holds (p\<lparr>pr_running := r\<rparr>) bytes = holds p bytes"
  by (simp_all add: holds_def)

lemma ready_frame [frame_simps]:
  "ready (p\<lparr>io_errno := e\<rparr>) = ready p" "ready (p\<lparr>io_world := w\<rparr>) = ready p"
  "ready (p\<lparr>io_memory := m\<rparr>) = ready p" "ready (p\<lparr>pr_files := fs\<rparr>) = ready p"
  "ready (p\<lparr>pr_identifier := i\<rparr>) = ready p" "ready (p\<lparr>pr_exit_code := c\<rparr>) = ready p"
  "ready (p\<lparr>pr_running := r\<rparr>) = ready p"
  by (simp_all add: ready_def)

text \<open>
  What a callback has done that has sent on what arrived: \<open>w\<close> is the world behind the read, \<open>tail\<close> is
  kept, \<open>trace\<close> was written to the trace file, and the process can go on as before.
\<close>

definition forwarded :: "'w os \<Rightarrow> ('w \<Rightarrow> i32 \<Rightarrow> byte list) \<Rightarrow> ('w \<Rightarrow> i32 \<Rightarrow> byte list) \<Rightarrow> i32 \<Rightarrow> i32 \<Rightarrow>
    'w \<Rightarrow> byte list \<Rightarrow> byte list \<Rightarrow> ctext \<Rightarrow> 'w proc \<Rightarrow> 'w proc \<Rightarrow> bool" where
  "forwarded os sent rcvd from_fd to_fd w bytes tail trace p p' \<longleftrightarrow>
     holds p' tail \<and> memory_ok 65535 (io_memory p') \<and>
     map_option length (mem_data (io_memory p')) = map_option length (mem_data (io_memory p)) \<and>
     ready p' \<and> same_seat p p' \<and> length (pr_counters p') = length (pr_counters p) \<and>
     cfg_output_sockets (pr_config p') = cfg_output_sockets (pr_config p) \<and>
     rcvd (io_world p') = (rcvd (io_world p))(from_fd := rcvd (io_world p) from_fd @ bytes) \<and>
     sent (io_world p') = (sent (io_world p))(to_fd := sent (io_world p) to_fd @ bytes) \<and>
     cfg_file (pr_config p') = map_option (\<lambda>file. file @ trace) (cfg_file (pr_config p)) \<and>
     written os w (io_world p')"

lemma processed_seat: "processed side count counter bytes text trace tail p p' \<Longrightarrow> same_seat p p'"
  by (simp add: processed_def same_seat_def untouched_def)

lemma client_forwards:
  assumes "kernel_ok os sent rcvd" "kernel_progress os patience k" "kernel_steady os"
    "memory_ok 65535 (io_memory p)" "mem_data (io_memory p) = Some blk"
    "os_read os client_fd (length blk) (io_world p) = (Got bytes, w)" "bytes \<noteq> []"
    "holds p old" "length old < 2 ^ 62" "ready p" "counter < length (pr_counters p)"
    "old @ bytes = concat (map enc_item xs) @ tail" "list_all item_fine xs" "client_waits tail"
    "can_save os (pr_config p)" "length xs < fuel" "length bytes * (k + 1) + k + 1 \<le> fuel"
  shows "\<exists>p'. pipeline_client os fuel client_fd server_fd counter p = Returned (EVBREAK_ONE, p') \<and>
    forwarded os sent rcvd client_fd server_fd w bytes tail (concat (map (item_trace client_fd server_fd
      (cfg_output_sockets (pr_config p))) xs)) p p' \<and>
    (if hd bytes = ch CHR ''X'' then \<not> pr_running p' \<and> pr_exit_code p' = WORKER_SUCCESS
     else pr_running p' = pr_running p \<and> pr_exit_code p' = pr_exit_code p)"
proof -
  have fuel: "0 < fuel" using assms(16) by simp
  from read_message_got [OF assms(1,4) _ assms(5-7) fuel] obtain msg mem where
    rd: "read_message os fuel client_fd False p =
      Returned (MESSAGE_STATUS_OK, Some msg, p\<lparr>io_world := w, io_memory := mem\<rparr>)"
    and msg: "msg_bytes msg = Some bytes" "msg_kind msg = hd bytes" "msg_length msg = word_of_nat (length bytes)"
    and mem: "memory_ok 65535 mem" "mem_data mem = Some (bytes @ drop (length bytes) blk)"
    and len: "length bytes \<le> 65535" "length bytes \<le> length blk" by auto
  let ?q = "p\<lparr>io_world := w, io_memory := mem\<rparr>"
  have "holds ?q old" "ready ?q" "counter < length (pr_counters ?q)"
    using assms(8,10,11) by (simp_all add: frame_simps)
  from client_stream.chunk [OF this(1) msg(1) len(1) assms(9) this(2,3) assms(12-14,16),
    folded pgprtdbg_client_def] obtain r where
    dec: "pgprtdbg_client os fuel client_fd server_fd msg counter ?q = Returned r"
    and r: "processed ''FE'' (count_sent (msg_length msg)) counter bytes
      (items_text (concat (map item_log xs)))
      (concat (map (item_trace client_fd server_fd (cfg_output_sockets (pr_config ?q))) xs)) tail ?q r"
    unfolding pgprtdbg_client_def by blast
  note same = processed_untouched [OF r] and keeps = processed_keeps [OF r]
  have config: "can_save os (pr_config r)" using r assms(15) by (simp add: processed_def)
  from client_save_ok [OF config msg(1) len(1)] obtain i files where
    save: "client_save os msg r = Returned (r\<lparr>pr_identifier := i, pr_files := files\<rparr>)" by blast
  let ?s = "r\<lparr>pr_identifier := i, pr_files := files\<rparr>"
  from forward_ok [OF assms(1-3) msg(1) assms(7) len(1) msg(3) assms(17), of server_fd ?s] obtain e w' where
    wr: "write_message os fuel server_fd msg ?s =
      Returned (MESSAGE_STATUS_OK, ?s\<lparr>io_errno := e, io_world := w'\<rparr>)"
    and w': "rcvd w' = rcvd w" "sent w' = (sent w)(server_fd := sent w server_fd @ bytes)"
      "written os w w'"
    using same(2) by auto
  have "client_message os fuel client_fd server_fd counter msg ?q = Returned (EVBREAK_ONE,
      if msg_kind msg = ch CHR ''X''
      then ?s\<lparr>io_errno := e, io_world := w', pr_exit_code := WORKER_SUCCESS, pr_running := False\<rparr>
      else ?s\<lparr>io_errno := e, io_world := w'\<rparr>)"
    by (simp add: client_message_def dec save wr del: of_char_Char)
  then have "pipeline_client os fuel client_fd server_fd counter p = Returned (EVBREAK_ONE,
      if hd bytes = ch CHR ''X''
      then ?s\<lparr>io_errno := e, io_world := w', pr_exit_code := WORKER_SUCCESS, pr_running := False\<rparr>
      else ?s\<lparr>io_errno := e, io_world := w'\<rparr>)"
    by (simp add: pipeline_client_def rd msg(2) del: of_char_Char)
  moreover note kernel_read(2,3) [OF assms(1,6)] w' same keeps(1-4) processed_seat [OF r] mem
  ultimately show ?thesis
    using len(2) assms(5,10)
    by (cases "hd bytes = ch CHR ''X''")
      (simp_all add: forwarded_def same_seat_def frame_simps del: of_char_Char)
qed

text \<open>
  C3. On connections that work, one call of \<open>pipeline_client\<close> sends to the server exactly the bytes
  that arrived from the client, whether they complete messages or not, after the messages they
  complete have been traced, and keeps the incomplete rest. The session goes on, unless the chunk
  begins with \<open>X\<close>: then it ends with exit code 0.
\<close>

theorem pipeline_client_forwards:
  assumes "kernel_ok os sent rcvd" "kernel_progress os patience k" "kernel_steady os"
    "memory_ok 65535 (io_memory p)" "mem_data (io_memory p) = Some blk"
    "os_read os client_fd (length blk) (io_world p) = (Got bytes, w)" "bytes \<noteq> []"
    "holds p old" "length old < 2 ^ 62" "ready p" "counter < length (pr_counters p)"
    "old @ bytes = concat (map enc_item xs) @ tail" "list_all item_fine xs" "client_waits tail"
    "can_save os (pr_config p)" "length xs < fuel" "length bytes * (k + 1) + k + 1 \<le> fuel"
  shows "\<exists>p'. pipeline_client os fuel client_fd server_fd counter p = Returned (EVBREAK_ONE, p') \<and>
    holds p' tail \<and> memory_ok 65535 (io_memory p') \<and>
    rcvd (io_world p') = (rcvd (io_world p))(client_fd := rcvd (io_world p) client_fd @ bytes) \<and>
    sent (io_world p') = (sent (io_world p))(server_fd := sent (io_world p) server_fd @ bytes) \<and>
    cfg_file (pr_config p') = map_option (\<lambda>file. file @ concat (map (item_trace client_fd server_fd
      (cfg_output_sockets (pr_config p))) xs)) (cfg_file (pr_config p)) \<and>
    (if hd bytes = ch CHR ''X'' then \<not> pr_running p' \<and> pr_exit_code p' = WORKER_SUCCESS
     else pr_running p' = pr_running p \<and> pr_exit_code p' = pr_exit_code p)"
  using client_forwards [OF assms, of server_fd] unfolding forwarded_def by blast

text \<open>A process whose buffer holds \<open>blk\<close> from before.\<close>

definition demo_buffer :: "byte list \<Rightarrow> (i32 \<Rightarrow> byte list list) \<Rightarrow> wire proc" where
  "demo_buffer blk chunks = (demo_proc chunks)\<lparr>io_memory :=
     \<lparr>mem_message = Some (zero_message\<lparr>msg_max_length := word_of_nat (length blk)\<rparr>), mem_data = Some blk\<rparr>\<rparr>"

lemma demo_buffer_simps [simp]:
  "pr_config (demo_buffer blk chunks) = demo_configuration"
  "pr_counters (demo_buffer blk chunks) = [zero_counter]"
  "mem_data (io_memory (demo_buffer blk chunks)) = Some blk"
  "io_world (demo_buffer blk chunks) = wire_start chunks" "pr_running (demo_buffer blk chunks) = True"
  "pr_exit_code (demo_buffer blk chunks) = 1"
  by (simp_all add: demo_buffer_def demo_proc_def io.defs wire_io_def)

lemma demo_buffer_ok: "length blk < 2 ^ 31 \<Longrightarrow> length blk \<le> n \<Longrightarrow> memory_ok n (io_memory (demo_buffer blk chunks))"
  "holds (demo_buffer blk chunks) []" "ready (demo_buffer blk chunks)"
  using demo_holds [of chunks]
  by (simp_all add: demo_buffer_def memory_ok_def zero_message_def unat_of_nat frame_simps)

lemma demo_can_save: "can_save os demo_configuration" "cfg_file demo_configuration = Some []"
  by (simp_all add: can_save_def demo_configuration_def zero_configuration_def)

theorem pipeline_client_forwards_witness:
  "\<exists>p'. pipeline_client wire_os 60 7 8 0 (demo_buffer (replicate 9 0) ((\<lambda>_. [])(7 := [enc_fe Terminate]))) =
      Returned (EVBREAK_ONE, p') \<and> holds p' [] \<and> memory_ok 65535 (io_memory p') \<and>
    wire_seen (io_world p') = (\<lambda>_. [])(7 := enc_fe Terminate) \<and>
    wire_out (io_world p') = (\<lambda>_. [])(8 := enc_fe Terminate) \<and>
    cfg_file (pr_config p') = Some (item_trace 7 8 False (Kinded Terminate)) \<and>
    \<not> pr_running p' \<and> pr_exit_code p' = WORKER_SUCCESS"
proof -
  let ?p = "demo_buffer (replicate 9 0) ((\<lambda>_. [])(7 := [enc_fe Terminate]))"
  have len: "length (enc_fe Terminate) = 5" "hd (enc_fe Terminate) = ch CHR ''X''"
    by (simp_all add: enc_fe_def frame_def be32_def del: of_char_Char)
  then have rd: "os_read wire_os 7 (length (replicate 9 (0 :: byte))) (io_world ?p) = (Got (enc_fe Terminate),
      (io_world ?p)\<lparr>wire_in := (wire_in (io_world ?p))(7 := []),
        wire_seen := (wire_seen (io_world ?p))(7 := wire_seen (io_world ?p) 7 @ enc_fe Terminate)\<rparr>)"
    by (simp add: wire_os_def wire_start_def)
  have "item_fine (Kinded Terminate)" by (simp add: fe_ok_def fits_def)
  from pipeline_client_forwards [OF wire_ok wire_progress wire_steady demo_buffer_ok(1) _ rd _ demo_buffer_ok(2)
    _ demo_buffer_ok(3), of 0 "[Kinded Terminate]" "[]" 60 8] this show ?thesis
    using len by (simp add: client_waits_def demo_can_save demo_can enc_fe_nonempty wire_start_def
        del: of_char_Char)
qed

section \<open>The server's direction\<close>

lemma server_forwards:
  assumes "kernel_ok os sent rcvd" "kernel_progress os patience k" "kernel_steady os"
    "memory_ok 65535 (io_memory p)" "mem_data (io_memory p) = Some blk"
    "os_read os server_fd (length blk) (io_world p) = (Got bytes, w)" "bytes \<noteq> []"
    "holds p old" "length old < 2 ^ 62" "ready p" "counter < length (pr_counters p)"
    "old @ bytes = concat (map enc_be xs) @ tail" "list_all be_ok xs" "server_waits tail"
    "can_save os (pr_config p)" "length xs < fuel" "length bytes * (k + 1) + k + 1 \<le> fuel"
    "is_fatal (bytes @ drop (length bytes) blk) = Some fatal"
  shows "\<exists>p'. pipeline_server os fuel client_fd server_fd counter p = Returned (EVBREAK_ONE, p') \<and>
    forwarded os sent rcvd server_fd client_fd w bytes tail (concat (map (be_trace server_fd client_fd
      (cfg_output_sockets (pr_config p))) xs)) p p' \<and>
    (if hd bytes = ch CHR ''E'' \<and> fatal then \<not> pr_running p' \<and> pr_exit_code p' = WORKER_SERVER_FATAL
     else pr_running p' = pr_running p \<and> pr_exit_code p' = pr_exit_code p)"
proof -
  have fuel: "0 < fuel" using assms(16) by simp
  from read_message_got [OF assms(1,4) _ assms(5-7) fuel] obtain msg mem where
    rd: "read_message os fuel server_fd False p =
      Returned (MESSAGE_STATUS_OK, Some msg, p\<lparr>io_world := w, io_memory := mem\<rparr>)"
    and msg: "msg_bytes msg = Some bytes" "msg_kind msg = hd bytes" "msg_length msg = word_of_nat (length bytes)"
      "msg_data msg = Some (bytes @ drop (length bytes) blk)"
    and mem: "memory_ok 65535 mem" "mem_data mem = Some (bytes @ drop (length bytes) blk)"
    and len: "length bytes \<le> 65535" "length bytes \<le> length blk" by auto
  let ?q = "p\<lparr>io_world := w, io_memory := mem\<rparr>"
  have "holds ?q old" "ready ?q" "counter < length (pr_counters ?q)"
    using assms(8,10,11) by (simp_all add: frame_simps)
  from server_stream.chunk [OF this(1) msg(1) len(1) assms(9) this(2,3) assms(12-14,16)] obtain r where
    dec: "pgprtdbg_server fuel server_fd client_fd msg counter ?q = Returned r"
    and r: "processed ''BE'' (count_rcvd (msg_length msg)) counter bytes (items_text (concat (map be_log xs)))
      (concat (map (be_trace server_fd client_fd (cfg_output_sockets (pr_config ?q))) xs)) tail ?q r"
    unfolding pgprtdbg_server_def by blast
  note same = processed_untouched [OF r] and keeps = processed_keeps [OF r]
  have config: "can_save os (pr_config r)" using r assms(15) by (simp add: processed_def)
  from server_save_ok [OF config msg(1) len(1)] obtain files where
    save: "server_save os msg r = Returned (r\<lparr>pr_files := files\<rparr>)" by blast
  let ?s = "r\<lparr>pr_files := files\<rparr>"
  from forward_ok [OF assms(1-3) msg(1) assms(7) len(1) msg(3) assms(17), of client_fd ?s] obtain e w' where
    wr: "write_message os fuel client_fd msg ?s =
      Returned (MESSAGE_STATUS_OK, ?s\<lparr>io_errno := e, io_world := w'\<rparr>)"
    and w': "rcvd w' = rcvd w" "sent w' = (sent w)(client_fd := sent w client_fd @ bytes)"
      "written os w w'"
    using same(2) by auto
  have "server_message os fuel client_fd server_fd counter msg ?q = Returned (EVBREAK_ONE,
      if msg_kind msg = ch CHR ''E'' \<and> fatal
      then ?s\<lparr>io_errno := e, io_world := w', pr_exit_code := WORKER_SERVER_FATAL, pr_running := False\<rparr>
      else ?s\<lparr>io_errno := e, io_world := w'\<rparr>)"
    using assms(18) by (simp add: server_message_def dec save wr msg(4) del: of_char_Char)
  then have "pipeline_server os fuel client_fd server_fd counter p = Returned (EVBREAK_ONE,
      if hd bytes = ch CHR ''E'' \<and> fatal
      then ?s\<lparr>io_errno := e, io_world := w', pr_exit_code := WORKER_SERVER_FATAL, pr_running := False\<rparr>
      else ?s\<lparr>io_errno := e, io_world := w'\<rparr>)"
    by (simp add: pipeline_server_def rd msg(2) del: of_char_Char)
  moreover note kernel_read(2,3) [OF assms(1,6)] w' same keeps(1-4) processed_seat [OF r] mem
  ultimately show ?thesis
    using len(2) assms(5,10)
    by (cases "hd bytes = ch CHR ''E''"; cases fatal)
      (simp_all add: forwarded_def same_seat_def frame_simps del: of_char_Char)
qed


text \<open>
  C19. On connections that work, one call of \<open>pipeline_server\<close> sends to the client exactly the bytes
  that arrived from the server. The session goes on, unless the chunk begins with \<open>E\<close> and the buffer,
  the chunk and what is left of earlier ones behind it, has a fatal severity in the place where an
  error response has one: then it ends with the exit code for a fatal server error.
\<close>

theorem pipeline_server_forwards:
  assumes "kernel_ok os sent rcvd" "kernel_progress os patience k" "kernel_steady os"
    "memory_ok 65535 (io_memory p)" "mem_data (io_memory p) = Some blk"
    "os_read os server_fd (length blk) (io_world p) = (Got bytes, w)" "bytes \<noteq> []"
    "holds p old" "length old < 2 ^ 62" "ready p" "counter < length (pr_counters p)"
    "old @ bytes = concat (map enc_be xs) @ tail" "list_all be_ok xs" "server_waits tail"
    "can_save os (pr_config p)" "length xs < fuel" "length bytes * (k + 1) + k + 1 \<le> fuel"
    "is_fatal (bytes @ drop (length bytes) blk) = Some fatal"
  shows "\<exists>p'. pipeline_server os fuel client_fd server_fd counter p = Returned (EVBREAK_ONE, p') \<and>
    holds p' tail \<and> memory_ok 65535 (io_memory p') \<and>
    rcvd (io_world p') = (rcvd (io_world p))(server_fd := rcvd (io_world p) server_fd @ bytes) \<and>
    sent (io_world p') = (sent (io_world p))(client_fd := sent (io_world p) client_fd @ bytes) \<and>
    cfg_file (pr_config p') = map_option (\<lambda>file. file @ concat (map (be_trace server_fd client_fd
      (cfg_output_sockets (pr_config p))) xs)) (cfg_file (pr_config p)) \<and>
    (if hd bytes = ch CHR ''E'' \<and> fatal then \<not> pr_running p' \<and> pr_exit_code p' = WORKER_SERVER_FATAL
     else pr_running p' = pr_running p \<and> pr_exit_code p' = pr_exit_code p)"
  using server_forwards [OF assms, of client_fd] unfolding forwarded_def by blast

text \<open>
  For the witness: the buffer still holds the text \<open>FATAL\<close> in its sixth place when the first byte of
  an error response arrives alone.
\<close>

definition demo_stale :: "byte list" where
  "demo_stale = replicate 6 0 @ bs ''FATAL'' @ replicate 19 0"

lemma stale_fatal: "is_fatal ([ch CHR ''E''] @ drop 1 demo_stale) = Some True"
  by code_simp

theorem pipeline_server_forwards_witness:
  "\<exists>p'. pipeline_server wire_os 60 7 8 0 (demo_buffer demo_stale ((\<lambda>_. [])(8 := [[ch CHR ''E'']]))) =
      Returned (EVBREAK_ONE, p') \<and> holds p' [ch CHR ''E''] \<and> memory_ok 65535 (io_memory p') \<and>
    wire_seen (io_world p') = (\<lambda>_. [])(8 := [ch CHR ''E'']) \<and>
    wire_out (io_world p') = (\<lambda>_. [])(7 := [ch CHR ''E'']) \<and> cfg_file (pr_config p') = Some [] \<and>
    \<not> pr_running p' \<and> pr_exit_code p' = WORKER_SERVER_FATAL"
proof -
  let ?p = "demo_buffer demo_stale ((\<lambda>_. [])(8 := [[ch CHR ''E'']]))"
  have len: "length demo_stale = 30" by (simp add: demo_stale_def)
  have rd: "os_read wire_os 8 (length demo_stale) (io_world ?p) = (Got [ch CHR ''E''],
      (io_world ?p)\<lparr>wire_in := (wire_in (io_world ?p))(8 := []),
        wire_seen := (wire_seen (io_world ?p))(8 := wire_seen (io_world ?p) 8 @ [ch CHR ''E''])\<rparr>)"
    by (simp add: wire_os_def wire_start_def len)
  have "[ch CHR ''E''] @ tl (enc_be (ErrorResponse [])) = enc_be (ErrorResponse [])"
    by (simp add: enc_be_def frame_def)
  moreover have "be_ok (ErrorResponse [])" "tl (enc_be (ErrorResponse [])) \<noteq> []"
    by (simp_all add: be_ok_def fits_def enc_be_def frame_def be32_def)
  ultimately have "server_waits [ch CHR ''E'']"
    unfolding server_waits_def by (intro disjI2 conjI exI [of _ "ErrorResponse []"]) auto
  from pipeline_server_forwards [OF wire_ok wire_progress wire_steady demo_buffer_ok(1) _ rd _ demo_buffer_ok(2)
    _ demo_buffer_ok(3), of 0 "[]" "[ch CHR ''E'']" 60 True 7] this show ?thesis
    using stale_fatal len by (simp add: demo_can_save demo_can wire_start_def del: of_char_Char)
qed






section \<open>Connections that end\<close>

lemma read_message_none:
  assumes "memory_ok n (io_memory p)" "mem_data (io_memory p) = Some blk"
    "os_read os fd (length blk) (io_world p) = (res, w)" "res = Got [] \<or> res = Read_failed e" "0 < fuel"
  shows "\<exists>mem. read_message os fuel fd False p =
      Returned (if res = Got [] then MESSAGE_STATUS_ZERO else MESSAGE_STATUS_ERROR, None,
        p\<lparr>io_world := w, io_errno := if res = Got [] then io_errno p else e, io_memory := mem\<rparr>) \<and>
    memory_ok n mem"
proof -
  from assms(1,2) obtain m where m: "mem_message (io_memory p) = Some m"
    "length blk = unat (msg_max_length m)" "length blk \<le> n" by (auto simp: memory_ok_def)
  obtain f where f: "fuel = Suc f" using assms(5) by (cases fuel) auto
  let ?mem = "(io_memory p)\<lparr>mem_message := Some (m\<lparr>msg_data := Some blk\<rparr>)\<rparr>"
  have "memory_ok n ?mem" using assms(2) m by (simp add: memory_ok_def)
  from memory_free_ok [OF this] obtain mem where
    "memory_free ?mem = Some mem" "memory_ok n mem" by blast
  with assms m f show ?thesis
    by (auto simp: read_message_def run_loop_def read_step_def read_retry_def Let_def)
qed

lemma session_ended:
  assumes "ready p"
  shows "and_then (say (Line t) p) (leave code) = Returned (EVBREAK_ALL, p\<lparr>
    pr_logs := add_log (cfg_log_type (pr_config p)) (t @ [newline]) (pr_logs p),
    pr_config := (pr_config p)\<lparr>cfg_log_lock := STATE_FREE\<rparr>, io_errno := 0,
    pr_exit_code := (case code of None \<Rightarrow> pr_exit_code p | Some c \<Rightarrow> c), pr_running := False\<rparr>)"
  using assms
  by (cases code) (simp_all add: say_def leave_def lock_log_def unlock_log_def log_to_def log_one_open
      log_lock_def log_unlock_def ready_def item_ok_def item_text_def)

lemma session_done_ended:
  assumes "ready p"
  shows "\<exists>p'. session_done what fd_name fd status code p = Returned (EVBREAK_ALL, p') \<and>
    \<not> pr_running p' \<and> io_errno p' = 0 \<and> io_world p' = io_world p \<and>
    pr_exit_code p' = (case code of None \<Rightarrow> pr_exit_code p | Some c \<Rightarrow> c) \<and>
    pr_logs p' = add_log (cfg_log_type (pr_config p)) (item_text (done_line what fd_name fd status)) (pr_logs p)"
  using session_ended [OF assms] by (simp add: session_done_def done_line_def item_text_def)

lemma session_error_ended:
  assumes "ready p"
  shows "\<exists>p'. session_error os what fd_name fd status code p = Returned (EVBREAK_ALL, p') \<and>
    \<not> pr_running p' \<and> io_errno p' = 0 \<and> io_world p' = io_world p \<and> pr_exit_code p' = code \<and>
    pr_logs p' = add_log (cfg_log_type (pr_config p))
      (item_text (error_line os what fd_name fd (io_errno p) status)) (pr_logs p)"
  using session_ended [OF assms] by (simp add: session_error_def error_line_def done_line_def item_text_def)

lemma client_end:
  assumes "memory_ok n (io_memory p)" "mem_data (io_memory p) = Some blk" "ready p" "0 < fuel"
    "os_read os client_fd (length blk) (io_world p) = (res, w)" "res = Got [] \<or> res = Read_failed e"
  shows "\<exists>p'. pipeline_client os fuel client_fd server_fd counter p = Returned (EVBREAK_ALL, p') \<and>
      \<not> pr_running p' \<and> io_errno p' = 0 \<and> io_world p' = w \<and> pr_exit_code p' = WORKER_CLIENT_FAILURE \<and>
      pr_logs p' = add_log (cfg_log_type (pr_config p)) (item_text
        (if res = Got [] then done_line ''[C] client_done'' ''client_fd'' client_fd MESSAGE_STATUS_ZERO
         else error_line os ''[C] client_error'' ''client_fd'' client_fd e MESSAGE_STATUS_ERROR))
        (pr_logs p)"
proof -
  from read_message_none [OF assms(1,2,5,6,4)] obtain mem where
    rd: "read_message os fuel client_fd False p =
      Returned (if res = Got [] then MESSAGE_STATUS_ZERO else MESSAGE_STATUS_ERROR, None,
        p\<lparr>io_world := w, io_errno := if res = Got [] then io_errno p else e, io_memory := mem\<rparr>)" by blast
  let ?q = "p\<lparr>io_world := w, io_errno := if res = Got [] then io_errno p else e, io_memory := mem\<rparr>"
  have "ready ?q" using assms(3) by (simp add: frame_simps)
  note ended = session_done_ended [OF this] session_error_ended [OF this]
  show ?thesis
    using ended(1) [where code = "Some WORKER_CLIENT_FAILURE"] ended(2)
    by (cases "res = Got []") (simp_all add: pipeline_client_def rd message_status)
qed

lemma server_end:
  assumes "memory_ok n (io_memory p)" "mem_data (io_memory p) = Some blk" "ready p" "0 < fuel"
    "os_read os server_fd (length blk) (io_world p) = (res, w)" "res = Got [] \<or> res = Read_failed e"
  shows "\<exists>p'. pipeline_server os fuel client_fd server_fd counter p = Returned (EVBREAK_ALL, p') \<and>
      \<not> pr_running p' \<and> io_errno p' = 0 \<and> io_world p' = w \<and>
      pr_exit_code p' = (if res = Got [] then pr_exit_code p else WORKER_SERVER_FAILURE) \<and>
      pr_logs p' = add_log (cfg_log_type (pr_config p)) (item_text
        (if res = Got [] then done_line ''[C] server_done'' ''server_fd'' server_fd MESSAGE_STATUS_ZERO
         else error_line os ''[S] server_error'' ''server_fd'' server_fd e MESSAGE_STATUS_ERROR))
        (pr_logs p)"
proof -
  from read_message_none [OF assms(1,2,5,6,4)] obtain mem where
    rd: "read_message os fuel server_fd False p =
      Returned (if res = Got [] then MESSAGE_STATUS_ZERO else MESSAGE_STATUS_ERROR, None,
        p\<lparr>io_world := w, io_errno := if res = Got [] then io_errno p else e, io_memory := mem\<rparr>)" by blast
  let ?q = "p\<lparr>io_world := w, io_errno := if res = Got [] then io_errno p else e, io_memory := mem\<rparr>"
  have "ready ?q" using assms(3) by (simp add: frame_simps)
  note ended = session_done_ended [OF this] session_error_ended [OF this]
  show ?thesis
    using ended(1) [where code = None] ended(2)
    by (cases "res = Got []") (simp_all add: pipeline_server_def rd message_status)
qed

text \<open>
  A read that gives nothing or fails ends the session, whatever the state of the stream: \<open>errno\<close>
  is cleared, the loop of the worker ends, the exit code says on which side it happened, and the log
  gets one line with the reason. The exception is the end of the server's stream, which leaves the
  exit code as it was and is logged as one of the client's lines.
\<close>

theorem connection_end:
  assumes "memory_ok n (io_memory p)" "mem_data (io_memory p) = Some blk" "ready p" "0 < fuel"
    "os_read os client_fd (length blk) (io_world p) = (res, w)" "res = Got [] \<or> res = Read_failed e"
    "os_read os server_fd (length blk) (io_world p) = (res', w')" "res' = Got [] \<or> res' = Read_failed e'"
  shows "(\<exists>p'. pipeline_client os fuel client_fd server_fd counter p = Returned (EVBREAK_ALL, p') \<and>
      \<not> pr_running p' \<and> io_errno p' = 0 \<and> io_world p' = w \<and> pr_exit_code p' = WORKER_CLIENT_FAILURE \<and>
      pr_logs p' = add_log (cfg_log_type (pr_config p)) (item_text
        (if res = Got [] then done_line ''[C] client_done'' ''client_fd'' client_fd MESSAGE_STATUS_ZERO
         else error_line os ''[C] client_error'' ''client_fd'' client_fd e MESSAGE_STATUS_ERROR))
        (pr_logs p)) \<and>
    (\<exists>p'. pipeline_server os fuel client_fd server_fd counter p = Returned (EVBREAK_ALL, p') \<and>
      \<not> pr_running p' \<and> io_errno p' = 0 \<and> io_world p' = w' \<and>
      pr_exit_code p' = (if res' = Got [] then pr_exit_code p else WORKER_SERVER_FAILURE) \<and>
      pr_logs p' = add_log (cfg_log_type (pr_config p)) (item_text
        (if res' = Got [] then done_line ''[C] server_done'' ''server_fd'' server_fd MESSAGE_STATUS_ZERO
         else error_line os ''[S] server_error'' ''server_fd'' server_fd e' MESSAGE_STATUS_ERROR))
        (pr_logs p))"
  using client_end [OF assms(1-6)] server_end [OF assms(1-4,7,8)] by blast

theorem connection_end_witness:
  "(\<exists>p'. pipeline_client wire_os 1 7 8 0 (demo_proc (\<lambda>_. [])) = Returned (EVBREAK_ALL, p') \<and>
      \<not> pr_running p' \<and> io_errno p' = 0 \<and> io_world p' = wire_start (\<lambda>_. []) \<and>
      pr_exit_code p' = WORKER_CLIENT_FAILURE \<and>
      pr_logs p' = add_log (cfg_log_type demo_configuration) (item_text
        (if Got [] = Got [] then done_line ''[C] client_done'' ''client_fd'' 7 MESSAGE_STATUS_ZERO
         else error_line wire_os ''[C] client_error'' ''client_fd'' 7 0 MESSAGE_STATUS_ERROR))
        (pr_logs (demo_proc (\<lambda>_. [])))) \<and>
    (\<exists>p'. pipeline_server wire_os 1 7 8 0 (demo_proc (\<lambda>_. [])) = Returned (EVBREAK_ALL, p') \<and>
      \<not> pr_running p' \<and> io_errno p' = 0 \<and> io_world p' = wire_start (\<lambda>_. []) \<and>
      pr_exit_code p' = (if Got [] = Got [] then pr_exit_code (demo_proc (\<lambda>_. [])) else WORKER_SERVER_FAILURE) \<and>
      pr_logs p' = add_log (cfg_log_type demo_configuration) (item_text
        (if Got [] = Got [] then done_line ''[C] server_done'' ''server_fd'' 8 MESSAGE_STATUS_ZERO
         else error_line wire_os ''[S] server_error'' ''server_fd'' 8 0 MESSAGE_STATUS_ERROR))
        (pr_logs (demo_proc (\<lambda>_. []))))"
  using connection_end [where n = 4 and blk = "[0, 0, 0, 0]" and p = "demo_proc (\<lambda>_. [])" and
      os = wire_os and fuel = 1 and client_fd = 7 and server_fd = 8 and res = "Got []" and
      res' = "Got []" and w = "wire_start (\<lambda>_. [])" and w' = "wire_start (\<lambda>_. [])" and
      e = 0 and e' = 0 and counter = 0]
  by (simp add: demo_holds wire_os_def wire_start_def wire_io_def memory_ok_def del: of_char_Char)

end
