(* ===== verification/Network.thy ===== *)
theory Network
  imports Pipeline
begin

text \<open>
  \<open>src/src/libpgprtdbg/network.c\<close>: connecting to the server, and the sockets on which clients are
  accepted. The system calls are a parameter, as those of \<open>message.c\<close> are.
\<close>

section \<open>System calls\<close>

text \<open>
  An address is what \<open>getaddrinfo\<close> gives, or the path of a Unix Domain Socket. \<open>net_socket\<close> takes the
  address whose family, type and protocol the socket gets, \<open>None\<close> for \<open>AF_UNIX\<close>. A call fails with
  an error number (\<open>Inl\<close>), for \<open>getaddrinfo\<close> one that \<open>gai_strerror\<close> explains. An interface has an
  address or not, with its text, and is up or not.
\<close>

datatype sockaddr = Resolved nat | Unix_path ctext
datatype sockopt = SO_KEEPALIVE | TCP_NODELAY | SO_RCVBUF | SO_SNDBUF | SO_REUSEADDR
datatype family = AF_INET | AF_INET6 | AF_OTHER

record ifaddr =
  ifa_addr :: "(family \<times> ctext) option"
  ifa_up :: bool

type_synonym ('w, 'r) syscall = "'w \<Rightarrow> (int + 'r) \<times> 'w"

record 'w net =
  net_getaddrinfo :: "ctext \<Rightarrow> ctext \<Rightarrow> bool \<Rightarrow> ('w, sockaddr list) syscall"
  net_gai_strerror :: "int \<Rightarrow> ctext"
  net_getifaddrs :: "('w, ifaddr list) syscall"
  net_socket :: "sockaddr option \<Rightarrow> ('w, i32) syscall"
  net_setsockopt :: "i32 \<Rightarrow> sockopt \<Rightarrow> i32 \<Rightarrow> ('w, unit) syscall"
  net_connect :: "i32 \<Rightarrow> sockaddr \<Rightarrow> ('w, unit) syscall"
  net_bind :: "i32 \<Rightarrow> sockaddr \<Rightarrow> ('w, unit) syscall"
  net_listen :: "i32 \<Rightarrow> i32 \<Rightarrow> ('w, unit) syscall"
  net_close :: "i32 \<Rightarrow> ('w, unit) syscall"
  net_accept :: "i32 \<Rightarrow> ('w, i32) syscall"
  net_stat :: "ctext \<Rightarrow> ('w, unit) syscall"
  net_mkdir :: "ctext \<Rightarrow> ('w, unit) syscall"
  net_unlink :: "ctext \<Rightarrow> ('w, unit) syscall"

text \<open>A call sets \<open>errno\<close> when it fails.\<close>

definition call :: "('w, 'r) syscall \<Rightarrow> 'w proc \<Rightarrow> 'r option \<times> 'w proc" where
  "call f p =
     (case f (io_world p) of
        (Inl e, w) \<Rightarrow> (None, p\<lparr>io_world := w, io_errno := e\<rparr>)
      | (Inr r, w) \<Rightarrow> (Some r, p\<lparr>io_world := w\<rparr>))"

definition errno_text :: "'w os \<Rightarrow> 'w proc \<Rightarrow> ctext" where
  "errno_text os p = os_strerror os (io_errno p)"

section \<open>Closing\<close>

definition disconnect :: "'w net \<Rightarrow> i32 \<Rightarrow> 'w proc \<Rightarrow> int \<times> 'w proc" where
  "disconnect net fd p =
     (if fd = - 1 then (1, p)
      else case call (net_close net fd) p of
             (None, p) \<Rightarrow> (- 1, p)
           | (Some _, p) \<Rightarrow> (0, p))"

section \<open>Socket options\<close>

definition tcp_nodelay :: "'w net \<Rightarrow> i32 \<Rightarrow> 'w proc \<Rightarrow> int \<times> 'w proc" where
  "tcp_nodelay net fd p =
     (if cfg_nodelay (pr_config p)
      then (case call (net_setsockopt net fd TCP_NODELAY 1) p of
              (None, p) \<Rightarrow> (1, p)
            | (Some _, p) \<Rightarrow> (0, p))
      else (0, p))"

definition socket_buffers :: "'w net \<Rightarrow> i32 \<Rightarrow> 'w proc \<Rightarrow> int \<times> 'w proc" where
  "socket_buffers net fd p =
     (let n = cfg_buffer_size (pr_config p)
      in case call (net_setsockopt net fd SO_RCVBUF n) p of
           (None, p) \<Rightarrow> (1, p)
         | (Some _, p) \<Rightarrow>
             (case call (net_setsockopt net fd SO_SNDBUF n) p of
                (None, p) \<Rightarrow> (1, p)
              | (Some _, p) \<Rightarrow> (0, p)))"

section \<open>Connecting\<close>

text \<open>
  The text of a port is printed into a block of five bytes, NUL included. What a failed
  \<open>getaddrinfo\<close> prints on the standard error is not kept.
\<close>

definition sport :: "i32 \<Rightarrow> ctext option" where
  "sport port =
     (let t = show_int (sint port) in if length t < 5 then Some t else None)"

type_synonym 'w connected = "('w proc, int \<times> i32 \<times> 'w proc) outcome"

text \<open>The options of a connection, set one after the other, each with the text of its log line.\<close>

definition connect_options :: "configuration \<Rightarrow> (sockopt \<times> i32 \<times> string) list" where
  "connect_options config =
     (if cfg_keep_alive config then [(SO_KEEPALIVE, 1, ''so_keep_alive: '')] else []) @
     (if cfg_nodelay config then [(TCP_NODELAY, 1, ''tcp_nodelay: '')] else []) @
     [(SO_RCVBUF, cfg_buffer_size config, ''so_rcvbuf: ''),
      (SO_SNDBUF, cfg_buffer_size config, ''so_sndbuf: '')]"

text \<open>A step of setting up the connection that failed: it is logged, and the socket is closed.\<close>

definition give_up :: "'w os \<Rightarrow> 'w net \<Rightarrow> string \<Rightarrow> i32 \<Rightarrow> 'w proc \<Rightarrow> 'w connected" where
  "give_up os net what fd p =
     and_then (say (Line (bs ''pgprtdbg_connect: '' @ bs what @ errno_text os p)) p) (\<lambda>p.
       Returned (1, fd, snd (disconnect net fd p)))"

fun set_options :: "'w os \<Rightarrow> 'w net \<Rightarrow> i32 \<Rightarrow> (sockopt \<times> i32 \<times> string) list \<Rightarrow> 'w proc \<Rightarrow>
    ('w proc \<Rightarrow> 'w connected) \<Rightarrow> 'w connected" where
  "set_options os net fd [] p rest = rest p"
| "set_options os net fd ((opt, v, what) # opts) p rest =
     (case call (net_setsockopt net fd opt v) p of
        (None, p) \<Rightarrow> give_up os net what fd p
      | (Some _, p) \<Rightarrow> set_options os net fd opts p rest)"

text \<open>
  The loop over the addresses. \<open>fd\<close> is \<open>*fd\<close>, which keeps the last socket also when it was closed.
  Every branch of the body returns or leaves the loop.
\<close>

fun connect_loop :: "'w os \<Rightarrow> 'w net \<Rightarrow> i32 \<Rightarrow> sockaddr list \<Rightarrow> 'w proc \<Rightarrow> 'w connected" where
  "connect_loop os net fd [] p =
     and_then (say (line ''pgprtdbg_connect: failed to connect'') p) (\<lambda>p. Returned (1, fd, p))"
| "connect_loop os net fd (a # as) p =
     (case call (net_socket net (Some a)) p of
        (None, p) \<Rightarrow>
          and_then (say (Line (bs ''pgprtdbg_connect: socket: '' @ errno_text os p)) p) (\<lambda>p.
            Returned (1, - 1, p))
      | (Some fd, p) \<Rightarrow>
          set_options os net fd (connect_options (pr_config p)) p (\<lambda>p.
            (case call (net_connect net fd a) p of
               (None, p) \<Rightarrow> give_up os net '''' fd p
             | (Some _, p) \<Rightarrow> Returned (0, fd, p))))"

definition connect :: "'w os \<Rightarrow> 'w net \<Rightarrow> ctext \<Rightarrow> i32 \<Rightarrow> i32 \<Rightarrow> 'w proc \<Rightarrow> 'w connected" where
  "connect os net hostname port fd p =
     (case sport port of
        None \<Rightarrow> Undefined
      | Some service \<Rightarrow>
          (case net_getaddrinfo net hostname service False (io_world p) of
             (Inl rv, w) \<Rightarrow> Returned (1, fd, p\<lparr>io_world := w\<rparr>)
           | (Inr servinfo, w) \<Rightarrow> connect_loop os net fd servinfo (p\<lparr>io_world := w\<rparr>)))"

section \<open>Binding\<close>

text \<open>
  One address: the steps up to \<open>listen\<close>, the first that fails closes the socket. The result is the
  socket that listens, or none.
\<close>

type_synonym 'w bound = "('w proc, int \<times> i32 list \<times> 'w proc) outcome"

definition bind_failed :: "'w os \<Rightarrow> 'w net \<Rightarrow> string \<Rightarrow> ctext \<Rightarrow> i32 \<Rightarrow> i32 \<Rightarrow> 'w proc \<Rightarrow>
    ('w proc, i32 option \<times> 'w proc) outcome" where
  "bind_failed os net what hostname port sockfd p =
     (let p = snd (disconnect net sockfd p)
      in and_then (say (Line (bs ''server: '' @ bs what @ bs '': '' @ hostname @ bs '':'' @
           show_int (sint port) @ bs '' ('' @ errno_text os p @ bs '')'')) p) (\<lambda>p. Returned (None, p)))"

definition bind_address :: "'w os \<Rightarrow> 'w net \<Rightarrow> ctext \<Rightarrow> i32 \<Rightarrow> sockaddr \<Rightarrow> 'w proc \<Rightarrow>
    ('w proc, i32 option \<times> 'w proc) outcome" where
  "bind_address os net hostname port a p =
     (case call (net_socket net (Some a)) p of
        (None, p) \<Rightarrow> bind_failed os net ''socket'' hostname port (- 1) p
      | (Some sockfd, p) \<Rightarrow>
          (let (reuse, p) = call (net_setsockopt net sockfd SO_REUSEADDR 1) p
           in if reuse = None then Returned (None, snd (disconnect net sockfd p))
           else let (rv, p) = socket_buffers net sockfd p
           in if rv \<noteq> 0 then Returned (None, snd (disconnect net sockfd p))
           else let (rv, p) = tcp_nodelay net sockfd p
           in if rv \<noteq> 0 then Returned (None, snd (disconnect net sockfd p))
           else case call (net_bind net sockfd a) p of
             (None, p) \<Rightarrow> bind_failed os net ''bind'' hostname port sockfd p
           | (Some _, p) \<Rightarrow>
               (case call (net_listen net sockfd (cfg_backlog (pr_config p))) p of
                  (None, p) \<Rightarrow> bind_failed os net ''listen'' hostname port sockfd p
                | (Some _, p) \<Rightarrow> Returned (Some sockfd, p))))"

text \<open>The loop over the addresses, \<open>result\<close> being the sockets found so far.\<close>

fun bind_loop :: "'w os \<Rightarrow> 'w net \<Rightarrow> ctext \<Rightarrow> i32 \<Rightarrow> i32 list \<Rightarrow> sockaddr list \<Rightarrow> 'w proc \<Rightarrow>
    ('w proc, i32 list \<times> 'w proc) outcome" where
  "bind_loop os net hostname port result [] p = Returned (result, p)"
| "bind_loop os net hostname port result (a # as) p =
     and_then (bind_address os net hostname port a p) (\<lambda>(fd, p).
       bind_loop os net hostname port
         (case fd of None \<Rightarrow> result | Some sockfd \<Rightarrow> result @ [sockfd]) as p)"

definition bind_host :: "'w os \<Rightarrow> 'w net \<Rightarrow> ctext \<Rightarrow> i32 \<Rightarrow> 'w proc \<Rightarrow> 'w bound" where
  "bind_host os net hostname port p =
     (case sport port of
        None \<Rightarrow> Undefined
      | Some service \<Rightarrow>
          (case net_getaddrinfo net hostname service True (io_world p) of
             (Inl rv, w) \<Rightarrow>
               and_then (say (Line (bs ''getaddrinfo: '' @ hostname @ bs '':'' @ show_int (sint port) @
                 bs '' ('' @ net_gai_strerror net rv @ bs '')'')) (p\<lparr>io_world := w\<rparr>)) (\<lambda>p.
                 Returned (1, [], p))
           | (Inr servinfo, w) \<Rightarrow>
               and_then (bind_loop os net hostname port [] servinfo (p\<lparr>io_world := w\<rparr>))
                 (\<lambda>(result, p). if result = [] then Returned (1, [], p) else Returned (0, result, p))))"

text \<open>The loop over the interfaces of the host \<open>*\<close>.\<close>

definition usable :: "ifaddr \<Rightarrow> ctext option" where
  "usable ifa =
     (case ifa_addr ifa of
        None \<Rightarrow> None
      | Some (fam, addr) \<Rightarrow> if (fam = AF_INET \<or> fam = AF_INET6) \<and> ifa_up ifa then Some addr else None)"

fun bind_interfaces :: "'w os \<Rightarrow> 'w net \<Rightarrow> i32 \<Rightarrow> i32 list \<Rightarrow> ifaddr list \<Rightarrow> 'w proc \<Rightarrow> 'w bound" where
  "bind_interfaces os net port star_fds [] p = Returned (0, star_fds, p)"
| "bind_interfaces os net port star_fds (ifa # ifas) p =
     (case usable ifa of
        None \<Rightarrow> bind_interfaces os net port star_fds ifas p
      | Some addr \<Rightarrow>
          and_then (bind_host os net addr port p) (\<lambda>(rv, new_fds, p).
            bind_interfaces os net port (if rv \<noteq> 0 then star_fds else star_fds @ new_fds) ifas p))"

text \<open>\<open>pgprtdbg_bind\<close>, with the sockets in \<open>*fds\<close>.\<close>

definition bind_all :: "'w os \<Rightarrow> 'w net \<Rightarrow> ctext \<Rightarrow> i32 \<Rightarrow> 'w proc \<Rightarrow> 'w bound" where
  "bind_all os net hostname port p =
     (if hostname = bs ''*'' then
        (case call (net_getifaddrs net) p of
           (None, p) \<Rightarrow>
             and_then (say (Line (bs ''getifaddrs: '' @ errno_text os p)) p) (\<lambda>p. Returned (1, [], p))
         | (Some ifas, p) \<Rightarrow> bind_interfaces os net port [] ifas p)
      else bind_host os net hostname port p)"

section \<open>Unix Domain Sockets\<close>

text \<open>
  The path is built in an array of 107 bytes, so that it fits \<open>sun_path\<close>, when the socket is bound,
  and in one of 128 bytes when it is removed. A failure leaves the socket open.
\<close>

definition unix_failed :: "ctext \<Rightarrow> i32 \<Rightarrow> 'w proc \<Rightarrow> 'w connected" where
  "unix_failed t fd p = and_then (say (Line (bs ''pgprtdbg_bind_unix_socket: '' @ t)) p) (\<lambda>p.
     Returned (1, fd, p\<lparr>io_errno := 0\<rparr>))"

definition bind_unix_socket :: "'w os \<Rightarrow> 'w net \<Rightarrow> ctext \<Rightarrow> ctext \<Rightarrow> 'w proc \<Rightarrow> 'w connected" where
  "bind_unix_socket os net directory sock_name p =
     (case call (net_socket net None) p of
        (None, p) \<Rightarrow> unix_failed (bs ''socket: '' @ directory @ bs '' '' @ errno_text os p) (- 1) p
      | (Some fd, p) \<Rightarrow>
          (let buf = snprintf 107 directory; (exists, p) = call (net_stat net buf) p;
               (made, p) = (if exists = None then call (net_mkdir net buf) p else (Some (), p))
           in if made = None
              then unix_failed (bs ''permission defined for '' @ directory @ bs '' ('' @ errno_text os p @ bs '')'') fd p
           else let buf = snprintf 107 (directory @ bs ''/'' @ sock_name); (_, p) = call (net_unlink net buf) p
           in case call (net_bind net fd (Unix_path buf)) p of
                (None, p) \<Rightarrow>
                  unix_failed (bs ''bind: '' @ directory @ bs ''/'' @ sock_name @ bs '' '' @ errno_text os p) fd p
              | (Some _, p) \<Rightarrow>
                  (case call (net_listen net fd (cfg_backlog (pr_config p))) p of
                     (None, p) \<Rightarrow>
                       unix_failed (bs ''listen: '' @ directory @ bs ''/'' @ sock_name @ bs '' '' @ errno_text os p) fd p
                   | (Some _, p) \<Rightarrow> Returned (0, fd, p))))"

definition remove_unix_socket :: "'w net \<Rightarrow> ctext \<Rightarrow> ctext \<Rightarrow> 'w proc \<Rightarrow> int \<times> 'w proc" where
  "remove_unix_socket net directory sock_name p =
     (let buf = snprintf MISC_LENGTH (directory @ bs ''/'' @ sock_name)
      in (0, snd (call (net_unlink net buf) p)))"

section \<open>What these functions keep\<close>

text \<open>Only the world, \<open>errno\<close>, the log and the log lock change, and logging stays possible.\<close>

definition only_net :: "'w proc \<Rightarrow> 'w proc \<Rightarrow> bool" where
  "only_net p p' \<longleftrightarrow> (\<exists>w e lg l. p' = p\<lparr>io_world := w, io_errno := e, pr_logs := lg,
     pr_config := (pr_config p)\<lparr>cfg_log_lock := l\<rparr>\<rparr> \<and>
     can_log (cfg_log_type (pr_config p)) lg = can_log (cfg_log_type (pr_config p)) (pr_logs p))"

definition loggable :: "'w proc \<Rightarrow> bool" where
  "loggable p \<longleftrightarrow> can_log (cfg_log_type (pr_config p)) (pr_logs p)"

lemma only_net_refl: "only_net p p"
  unfolding only_net_def
  by (intro exI [of _ "io_world p"] exI [of _ "io_errno p"] exI [of _ "pr_logs p"]
      exI [of _ "cfg_log_lock (pr_config p)"]) simp

lemma only_net_trans: "only_net p q \<Longrightarrow> only_net q r \<Longrightarrow> only_net p r"
  unfolding only_net_def by fastforce

lemma only_net_keeps:
  assumes "only_net p p'"
  shows "loggable p' = loggable p" "cfg_keep_alive (pr_config p') = cfg_keep_alive (pr_config p)"
    "cfg_nodelay (pr_config p') = cfg_nodelay (pr_config p)" "connect_options (pr_config p') = connect_options (pr_config p)"
    "ready p' = ready p" "holds p' bytes = holds p bytes" "io_memory p' = io_memory p"
    "pr_running p' = pr_running p" "pr_exit_code p' = pr_exit_code p" "pr_counters p' = pr_counters p"
    "pr_pid p' = pr_pid p" "cfg_pids (pr_config p') = cfg_pids (pr_config p)"
    "cfg_active_connections (pr_config p') = cfg_active_connections (pr_config p)"
    "cfg_save_traffic (pr_config p') = cfg_save_traffic (pr_config p)"
  using assms by (auto simp: only_net_def loggable_def connect_options_def ready_def holds_def can_trace_def)

lemma only_net_call: "only_net p (p\<lparr>io_world := w, io_errno := e\<rparr>)" "only_net p (p\<lparr>io_world := w\<rparr>)"
  "only_net p (p\<lparr>io_errno := e\<rparr>)"
proof -
  show 1: "only_net p (p\<lparr>io_world := w, io_errno := e\<rparr>)" for w :: 'a and e
    unfolding only_net_def
    by (intro exI [of _ w] exI [of _ e] exI [of _ "pr_logs p"] exI [of _ "cfg_log_lock (pr_config p)"]) simp
  show "only_net p (p\<lparr>io_world := w\<rparr>)" using 1 [where w = w and e = "io_errno p"] by simp
  show "only_net p (p\<lparr>io_errno := e\<rparr>)" using 1 [where w = "io_world p" and e = e] by simp
qed

lemma call_only: "call f p = (r, q) \<Longrightarrow> only_net p q"
  by (auto simp: call_def only_net_call split: prod.splits sum.splits)

lemma say_gives:
  assumes "loggable p" "item_ok item"
  shows "gives (\<lambda>p'. only_net p p' \<and> io_world p' = io_world p \<and> io_errno p' = io_errno p) (say item p)"
proof -
  let ?lg = "add_log (cfg_log_type (pr_config p)) (item_text item) (pr_logs p)"
  have "say item p = Returned (p\<lparr>pr_logs := ?lg, pr_config := (pr_config p)\<lparr>cfg_log_lock := STATE_FREE\<rparr>\<rparr>)"
    using assms by (simp add: say_def lock_log_def unlock_log_def log_to_def log_one_open log_lock_def
        log_unlock_def loggable_def)
  moreover have "only_net p (p\<lparr>pr_logs := ?lg, pr_config := (pr_config p)\<lparr>cfg_log_lock := STATE_FREE\<rparr>\<rparr>)"
    unfolding only_net_def
    by (intro exI [of _ "io_world p"] exI [of _ "io_errno p"] exI [of _ ?lg] exI [of _ STATE_FREE]) simp
  ultimately show ?thesis by simp
qed

section \<open>What is relied on of the sockets\<close>

text \<open>
  The documented behaviour, stated with the set of descriptors that are open: \<open>socket\<close> and \<open>accept\<close>
  open a new one, \<open>close\<close> closes its argument, and no other call opens or closes any.
\<close>

definition keeps_open :: "('w \<Rightarrow> i32 set) \<Rightarrow> ('w, 'r) syscall \<Rightarrow> bool" where
  "keeps_open fds f \<longleftrightarrow> (\<forall>w. fds (snd (f w)) = fds w)"

definition opens_new :: "('w \<Rightarrow> i32 set) \<Rightarrow> ('w, i32) syscall \<Rightarrow> bool" where
  "opens_new fds f \<longleftrightarrow> (\<forall>w. case f w of
     (Inl e, w') \<Rightarrow> fds w' = fds w
   | (Inr fd, w') \<Rightarrow> fd \<noteq> - 1 \<and> fd \<notin> fds w \<and> fds w' = insert fd (fds w))"

definition net_ok :: "'w net \<Rightarrow> ('w \<Rightarrow> i32 set) \<Rightarrow> bool" where
  "net_ok net fds \<longleftrightarrow>
     (\<forall>a. opens_new fds (net_socket net a)) \<and> (\<forall>fd. opens_new fds (net_accept net fd)) \<and>
     (\<forall>fd w. fds (snd (net_close net fd w)) = fds w - {fd}) \<and>
     (\<forall>h s b. keeps_open fds (net_getaddrinfo net h s b)) \<and> keeps_open fds (net_getifaddrs net) \<and>
     (\<forall>fd opt v. keeps_open fds (net_setsockopt net fd opt v)) \<and>
     (\<forall>fd a. keeps_open fds (net_connect net fd a)) \<and> (\<forall>fd a. keeps_open fds (net_bind net fd a)) \<and>
     (\<forall>fd n. keeps_open fds (net_listen net fd n)) \<and> (\<forall>path. keeps_open fds (net_stat net path)) \<and>
     (\<forall>path. keeps_open fds (net_mkdir net path)) \<and> (\<forall>path. keeps_open fds (net_unlink net path))"

lemma call_cases:
  assumes "call f p = (r, q)"
  obtains (fails) e w where "f (io_world p) = (Inl e, w)" "r = None" "q = p\<lparr>io_world := w, io_errno := e\<rparr>"
    | (works) x w where "f (io_world p) = (Inr x, w)" "r = Some x" "q = p\<lparr>io_world := w\<rparr>"
proof (cases "f (io_world p)")
  case (Pair a w)
  then show thesis using assms fails works by (cases a) (simp_all add: call_def)
qed

lemma call_keeps_open:
  assumes "keeps_open fds f" "call f p = (r, q)"
  shows "fds (io_world q) = fds (io_world p)"
  using assms(2)
proof (cases rule: call_cases)
  case (fails e w)
  then show ?thesis using assms(1) by (simp add: keeps_open_def) (metis snd_conv)
next
  case (works x w)
  then show ?thesis using assms(1) by (simp add: keeps_open_def) (metis snd_conv)
qed

lemma call_opens:
  assumes "opens_new fds f" "call f p = (r, q)"
  shows "case r of None \<Rightarrow> fds (io_world q) = fds (io_world p)
    | Some fd \<Rightarrow> fd \<noteq> - 1 \<and> fd \<notin> fds (io_world p) \<and> fds (io_world q) = insert fd (fds (io_world p))"
proof -
  have new: "case f (io_world p) of (Inl e, w') \<Rightarrow> fds w' = fds (io_world p)
    | (Inr fd, w') \<Rightarrow> fd \<noteq> - 1 \<and> fd \<notin> fds (io_world p) \<and> fds w' = insert fd (fds (io_world p))"
    using assms(1) unfolding opens_new_def by (rule spec)
  show ?thesis using assms(2) by (cases rule: call_cases) (use new in simp_all)
qed

lemma disconnect_closes:
  assumes "net_ok net fds" "disconnect net fd p = (rv, q)" "fd \<noteq> - 1"
  shows "only_net p q \<and> fds (io_world q) = fds (io_world p) - {fd}"
proof -
  have closes: "fds (snd (net_close net fd (io_world p))) = fds (io_world p) - {fd}"
    using assms(1) by (simp add: net_ok_def)
  obtain r p' where c: "call (net_close net fd) p = (r, p')" by fastforce
  then have "q = p'" using assms(2,3) by (simp add: disconnect_def split: option.splits)
  with c show ?thesis by (cases rule: call_cases) (use closes in \<open>simp_all add: only_net_call\<close>)
qed

section \<open>Connecting leaks no socket\<close>

text \<open>The states between the steps: the new socket is open, and nothing but the log has changed.\<close>

definition holding :: "('w \<Rightarrow> i32 set) \<Rightarrow> 'w proc \<Rightarrow> i32 \<Rightarrow> 'w proc \<Rightarrow> bool" where
  "holding fds p0 fd p \<longleftrightarrow> only_net p0 p \<and> fd \<noteq> - 1 \<and> fd \<notin> fds (io_world p0) \<and>
     fds (io_world p) = insert fd (fds (io_world p0))"

definition connect_done :: "('w \<Rightarrow> i32 set) \<Rightarrow> 'w proc \<Rightarrow> int \<times> i32 \<times> 'w proc \<Rightarrow> bool" where
  "connect_done fds p0 = (\<lambda>(rv, fd, p).
     rv = 0 \<and> holding fds p0 fd p \<or> rv = 1 \<and> only_net p0 p \<and> fds (io_world p) = fds (io_world p0))"

lemma net_okD:
  assumes "net_ok net fds"
  shows "opens_new fds (net_socket net a)" "opens_new fds (net_accept net fd)"
    "keeps_open fds (net_getaddrinfo net h s b)" "keeps_open fds (net_getifaddrs net)"
    "keeps_open fds (net_setsockopt net fd opt v)" "keeps_open fds (net_connect net fd addr)"
    "keeps_open fds (net_bind net fd addr)" "keeps_open fds (net_listen net fd n)"
    "keeps_open fds (net_stat net path)" "keeps_open fds (net_mkdir net path)"
    "keeps_open fds (net_unlink net path)"
  using assms by (simp_all add: net_ok_def)

lemma holding_call:
  assumes "holding fds p0 fd p" "keeps_open fds f" "call f p = (r, q)"
  shows "holding fds p0 fd q"
  using assms call_keeps_open [OF assms(2,3)] only_net_trans [OF _ call_only [OF assms(3)]]
  by (simp add: holding_def)

lemma holding_say:
  assumes "holding fds p0 fd p" "loggable p0"
  shows "gives (holding fds p0 fd) (say (Line t) p)"
proof -
  have "loggable p" using assms only_net_keeps(1) [of p0 p] by (simp add: holding_def)
  from say_gives [OF this, of "Line t"] assms(1) show ?thesis
    by (auto simp: gives_def holding_def intro: only_net_trans)
qed

lemma holding_disconnect:
  assumes "net_ok net fds" "holding fds p0 fd p"
  shows "only_net p0 (snd (disconnect net fd p)) \<and>
    fds (io_world (snd (disconnect net fd p))) = fds (io_world p0)"
proof -
  obtain rv q where d: "disconnect net fd p = (rv, q)" by fastforce
  have "fd \<noteq> - 1" using assms(2) by (simp add: holding_def)
  from disconnect_closes [OF assms(1) d this] assms(2) d show ?thesis
    by (auto simp: holding_def intro: only_net_trans)
qed

lemma give_up_done:
  assumes "net_ok net fds" "holding fds p0 fd p" "loggable p0"
  shows "gives (connect_done fds p0) (give_up os net what fd p)"
  unfolding give_up_def
  by (rule gives_then [OF holding_say [OF assms(2,3)]])
    (use holding_disconnect [OF assms(1)] in \<open>simp add: connect_done_def\<close>)

lemma set_options_done:
  assumes "net_ok net fds" "loggable p0"
    "\<And>p. holding fds p0 fd p \<Longrightarrow> gives (connect_done fds p0) (rest p)"
  shows "holding fds p0 fd p \<Longrightarrow> gives (connect_done fds p0) (set_options os net fd opts p rest)"
proof (induction opts arbitrary: p)
  case Nil
  with assms(3) show ?case by simp
next
  case (Cons opt_v opts)
  obtain opt v what where o: "opt_v = (opt, v, what)" by (cases opt_v)
  obtain r q where c: "call (net_setsockopt net fd opt v) p = (r, q)" by fastforce
  note q = holding_call [OF Cons.prems net_okD(5) [OF assms(1)] c]
  show ?case
    using c Cons.IH [OF q] give_up_done [OF assms(1) q assms(2)] by (simp add: o split: option.split)
qed

lemma connect_loop_done:
  assumes "net_ok net fds" "loggable p"
  shows "gives (connect_done fds p) (connect_loop os net fd addrs p)"
proof (cases addrs)
  case Nil
  from say_gives [OF assms(2), of "line ''pgprtdbg_connect: failed to connect''"] show ?thesis
    by (auto simp: Nil connect_done_def gives_def)
next
  case (Cons a as)
  obtain r q where c: "call (net_socket net (Some a)) p = (r, q)" by fastforce
  have q: "only_net p q" by (rule call_only [OF c])
  show ?thesis
  proof (cases r)
    case None
    have "loggable q" using only_net_keeps(1) [OF q] assms(2) by simp
    from say_gives [OF this, of "Line (bs ''pgprtdbg_connect: socket: '' @ errno_text os q)"]
      call_opens [OF net_okD(1) [OF assms(1)] c] None q c Cons show ?thesis
      by (auto simp: connect_done_def gives_def intro: only_net_trans)
  next
    case (Some s)
    have "holding fds p s q"
      using call_opens [OF net_okD(1) [OF assms(1)] c] Some q by (simp add: holding_def)
    then have "gives (connect_done fds p) (set_options os net s (connect_options (pr_config q)) q (\<lambda>p.
            (case call (net_connect net s a) p of
               (None, p) \<Rightarrow> give_up os net '''' s p
             | (Some _, p) \<Rightarrow> Returned (0, s, p))))"
    proof (rule set_options_done [OF assms, rotated])
      fix r assume r: "holding fds p s r"
      obtain x t where c': "call (net_connect net s a) r = (x, t)" by fastforce
      note t = holding_call [OF r net_okD(6) [OF assms(1)] c']
      show "gives (connect_done fds p) (case call (net_connect net s a) r of
               (None, p) \<Rightarrow> give_up os net '''' s p
             | (Some _, p) \<Rightarrow> Returned (0, s, p))"
        using c' t give_up_done [OF assms(1) t assms(2)] by (simp add: connect_done_def split: option.split)
    qed
    with Some c Cons show ?thesis by simp
  qed
qed

lemma sport_text: "sport port =
    (if sint port < 10000 \<and> - 1000 < sint port then Some (show_int (sint port)) else None)"
proof -
  have "length (show_nat (nat (sint port))) \<le> 4 \<longleftrightarrow> nat (sint port) < 10 ^ 4" by (rule show_nat_length_less) simp
  moreover have "length (show_nat (nat (- sint port))) \<le> 3 \<longleftrightarrow> nat (- sint port) < 10 ^ 3"
    by (rule show_nat_length_less) simp
  ultimately show ?thesis by (auto simp: sport_def show_int_def Let_def)
qed

text \<open>
  C6. Connecting to the server returns for every port of at most four digits: with 0 and a new open
  socket, or with 1 and no socket left open. A port of five digits or more overruns the block its
  text is printed into.
\<close>

theorem connect_no_leak:
  assumes "net_ok net fds" "loggable p"
  shows "if sint port < 10000 \<and> - 1000 < sint port
    then (\<exists>rv fd' p'. connect os net hostname port fd p = Returned (rv, fd', p') \<and> only_net p p' \<and>
      (rv = 0 \<and> fd' \<noteq> - 1 \<and> fd' \<notin> fds (io_world p) \<and> fds (io_world p') = insert fd' (fds (io_world p)) \<or>
       rv = 1 \<and> fds (io_world p') = fds (io_world p)))
    else connect os net hostname port fd p = Undefined"
proof (cases "sint port < 10000 \<and> - 1000 < sint port")
  case True
  obtain x w where g: "net_getaddrinfo net hostname (show_int (sint port)) False (io_world p) = (x, w)"
    by fastforce
  with net_okD(3) [OF assms(1), of hostname "show_int (sint port)" False]
  have w: "fds w = fds (io_world p)" unfolding keeps_open_def by (metis snd_conv)
  let ?q = "p\<lparr>io_world := w\<rparr>"
  have q: "only_net p ?q" by (rule only_net_call)
  have "gives (connect_done fds p) (connect os net hostname port fd p)"
  proof (cases x)
    case (Inl rv)
    with True g w q show ?thesis by (simp add: connect_def sport_text connect_done_def)
  next
    case (Inr addrs)
    have "loggable ?q" using only_net_keeps(1) [OF q] assms(2) by simp
    from connect_loop_done [OF assms(1) this, of os fd addrs]
    have "gives (connect_done fds p) (connect_loop os net fd addrs ?q)"
      by (rule gives_mono) (use w q in \<open>auto simp: connect_done_def holding_def intro: only_net_trans\<close>)
    with Inr True g show ?thesis by (simp add: connect_def sport_text)
  qed
  with True show ?thesis by (fastforce simp: gives_def connect_done_def holding_def)
qed (auto simp: connect_def sport_text)

text \<open>
  For the witnesses: a host whose world adds the list of the open descriptors to that of the reads
  and writes; there are six descriptors, every name has two addresses, and all else succeeds.
\<close>

definition host_os :: "'w os \<Rightarrow> ('w \<times> 'a) os" where
  "host_os os = \<lparr>os_read = (\<lambda>fd n (w, l). let (r, w) = os_read os fd n w in (r, (w, l))),
     os_write = (\<lambda>fd bytes (w, l). let (r, w) = os_write os fd bytes w in (r, (w, l))),
     os_fopen = (\<lambda>name (w, l). os_fopen os name w), os_clock = (\<lambda>(w, l). os_clock os w),
     os_strerror = os_strerror os\<rparr>"

definition host_new :: "('w \<times> i32 list, i32) syscall" where
  "host_new = (\<lambda>(w, l). case find (\<lambda>fd. fd \<notin> set l) [3, 4, 5, 6, 7, 8] of
     None \<Rightarrow> (Inl 24, (w, l)) | Some fd \<Rightarrow> (Inr fd, (w, fd # l)))"

definition host_net :: "('w \<times> i32 list) net" where
  "host_net = \<lparr>net_getaddrinfo = (\<lambda>_ _ _ w. (Inr [Resolved 1, Resolved 2], w)),
     net_gai_strerror = (\<lambda>_. []), net_getifaddrs = (\<lambda>w. (Inr [], w)),
     net_socket = (\<lambda>_. host_new), net_setsockopt = (\<lambda>_ _ _ w. (Inr (), w)),
     net_connect = (\<lambda>_ _ w. (Inr (), w)), net_bind = (\<lambda>_ _ w. (Inr (), w)),
     net_listen = (\<lambda>_ _ w. (Inr (), w)), net_close = (\<lambda>fd (w, l). (Inr (), (w, removeAll fd l))),
     net_accept = (\<lambda>_. host_new), net_stat = (\<lambda>_ w. (Inr (), w)), net_mkdir = (\<lambda>_ w. (Inr (), w)),
     net_unlink = (\<lambda>_ w. (Inr (), w))\<rparr>"

definition host_fds :: "'w \<times> i32 list \<Rightarrow> i32 set" where
  "host_fds w = set (snd w)"

lemma host_opens: "opens_new host_fds host_new"
  by (auto simp: opens_new_def host_fds_def host_new_def find_Some_iff split: option.splits)

lemma host_net_ok: "net_ok host_net host_fds"
  using host_opens by (auto simp: net_ok_def host_net_def keeps_open_def host_fds_def split: prod.splits)

definition proc_on :: "'w \<Rightarrow> 'w proc" where
  "proc_on w = io.extend \<lparr>io_errno = 0, io_memory = io_memory (wire_io (\<lambda>_. [])), io_world = w\<rparr>
     \<lparr>pr_pid = 4711, pr_config = demo_configuration, pr_counters = [zero_counter],
      pr_logs = \<lparr>log_stdout = [], log_file = None\<rparr>, pr_kind = 0, pr_length = 0, pr_data = None,
      pr_data_size = 0, pr_identifier = 0, pr_running = True, pr_exit_code = 1, pr_files = (\<lambda>_. []), pr_unclosed = []\<rparr>"

definition host_proc :: "(i32 \<Rightarrow> byte list list) \<Rightarrow> i32 list \<Rightarrow> (wire \<times> i32 list) proc" where
  "host_proc chunks l = proc_on (wire_start chunks, l)"

lemma proc_on_simps [simp]:
  "pr_config (proc_on w) = demo_configuration" "io_world (proc_on w) = w"
  "pr_logs (proc_on w) = \<lparr>log_stdout = [], log_file = None\<rparr>"
  by (simp_all add: proc_on_def io.defs)

lemma host_proc_simps [simp]:
  "pr_config (host_proc chunks l) = demo_configuration" "io_world (host_proc chunks l) = (wire_start chunks, l)"
  "pr_logs (host_proc chunks l) = \<lparr>log_stdout = [], log_file = None\<rparr>"
  by (simp_all add: host_proc_def)

lemma host_loggable: "loggable (host_proc chunks l)"
  by (simp add: loggable_def demo_can)

theorem connect_no_leak_witness:
  "if sint (5432 :: i32) < 10000 \<and> - 1000 < sint (5432 :: i32)
   then (\<exists>rv fd' p'. connect (host_os wire_os) host_net (bs ''localhost'') 5432 (- 1) (host_proc (\<lambda>_. []) [3]) =
        Returned (rv, fd', p') \<and> only_net (host_proc (\<lambda>_. []) [3]) p' \<and>
      (rv = 0 \<and> fd' \<noteq> - 1 \<and> fd' \<notin> host_fds (wire_start (\<lambda>_. []), [3]) \<and>
        host_fds (io_world p') = insert fd' (host_fds (wire_start (\<lambda>_. []), [3])) \<or>
       rv = 1 \<and> host_fds (io_world p') = host_fds (wire_start (\<lambda>_. []), [3])))
   else connect (host_os wire_os) host_net (bs ''localhost'') 5432 (- 1) (host_proc (\<lambda>_. []) [3]) = Undefined"
  using connect_no_leak [OF host_net_ok host_loggable, where hostname = "bs ''localhost''" and port = 5432
    and fd = "- 1" and chunks1 = "\<lambda>_. []" and l1 = "[3]" and os = "host_os wire_os"] by simp

section \<open>Binding leaks no socket\<close>

text \<open>The sockets found so far are open, and no other new ones.\<close>

definition listening :: "('w \<Rightarrow> i32 set) \<Rightarrow> 'w proc \<Rightarrow> i32 list \<Rightarrow> 'w proc \<Rightarrow> bool" where
  "listening fds p0 result p \<longleftrightarrow> only_net p0 p \<and> distinct result \<and> - 1 \<notin> set result \<and>
     set result \<inter> fds (io_world p0) = {} \<and> fds (io_world p) = fds (io_world p0) \<union> set result"

lemma listening_trans:
  "listening fds p0 xs p \<Longrightarrow> listening fds p ys q \<Longrightarrow> listening fds p0 (xs @ ys) q"
  by (auto simp: listening_def intro: only_net_trans)

lemma listening_refl: "listening fds p [] p"
  by (simp add: listening_def only_net_refl)

lemma bind_failed_done:
  assumes "only_net p0 (snd (disconnect net fd p))"
    "fds (io_world (snd (disconnect net fd p))) = fds (io_world p0)" "loggable p0"
  shows "gives (\<lambda>(r, q). listening fds p0 (case r of None \<Rightarrow> [] | Some s \<Rightarrow> [s]) q)
    (bind_failed os net what hostname port fd p)"
proof -
  have "loggable (snd (disconnect net fd p))" using only_net_keeps(1) [OF assms(1)] assms(3) by simp
  note said = say_gives [OF this]
  from assms(1,2) show ?thesis
    unfolding bind_failed_def Let_def
    by (intro gives_then [OF said]) (auto simp: listening_def intro: only_net_trans)
qed

lemma holding_listening: "holding fds p0 fd p \<Longrightarrow> listening fds p0 [fd] p"
  by (auto simp: holding_def listening_def)

lemma bind_steps_hold:
  assumes "net_ok net fds" "holding fds p0 fd p"
  shows "holding fds p0 fd (snd (socket_buffers net fd p))" "holding fds p0 fd (snd (tcp_nodelay net fd p))"
proof -
  note set_opt = net_okD(5) [OF assms(1)]
  show "holding fds p0 fd (snd (tcp_nodelay net fd p))"
  proof (cases "call (net_setsockopt net fd TCP_NODELAY 1) p")
    case (Pair r q)
    with holding_call [OF assms(2) set_opt Pair] assms(2) show ?thesis
      by (simp add: tcp_nodelay_def split: option.split)
  qed
  let ?n = "cfg_buffer_size (pr_config p)"
  obtain r q where q: "call (net_setsockopt net fd SO_RCVBUF ?n) p = (r, q)" by fastforce
  note q' = holding_call [OF assms(2) set_opt q]
  obtain s t where t: "call (net_setsockopt net fd SO_SNDBUF ?n) q = (s, t)" by fastforce
  note t' = holding_call [OF q' set_opt t]
  show "holding fds p0 fd (snd (socket_buffers net fd p))"
    using q q' t t' by (simp add: socket_buffers_def Let_def split: option.split)
qed

lemma bind_address_done:
  assumes "net_ok net fds" "loggable p"
  shows "gives (\<lambda>(r, q). listening fds p (case r of None \<Rightarrow> [] | Some s \<Rightarrow> [s]) q)
    (bind_address os net hostname port a p)"
proof -
  let ?P = "\<lambda>(r, q). listening fds p (case r of None \<Rightarrow> [] | Some s \<Rightarrow> [s]) q"
  obtain r q where c: "call (net_socket net (Some a)) p = (r, q)" by fastforce
  have q: "only_net p q" by (rule call_only [OF c])
  show ?thesis
  proof (cases r)
    case None
    have "disconnect net (- 1) q = (1, q)" by (simp add: disconnect_def)
    with bind_failed_done [of p net "- 1" q fds] q None assms(2) c call_opens [OF net_okD(1) [OF assms(1)] c]
    show ?thesis by (simp add: bind_address_def)
  next
    case (Some s)
    have h: "holding fds p s q"
      using call_opens [OF net_okD(1) [OF assms(1)] c] Some q by (simp add: holding_def)
    have failed: "gives ?P (bind_failed os net what hostname port s t)" if "holding fds p s t" for what t
      using bind_failed_done [where net = net and fd = s and p = t] holding_disconnect [OF assms(1) that]
        assms(2) by blast
    have closed: "?P (None, snd (disconnect net s t))" if "holding fds p s t" for t
      using holding_disconnect [OF assms(1) that] by (simp add: listening_def)
    obtain reuse q1 where c1: "call (net_setsockopt net s SO_REUSEADDR 1) q = (reuse, q1)" by fastforce
    note h1 = holding_call [OF h net_okD(5) [OF assms(1)] c1]
    obtain rv q2 where c2: "socket_buffers net s q1 = (rv, q2)" by fastforce
    note h2 = bind_steps_hold(1) [OF assms(1) h1, unfolded c2 snd_conv]
    obtain rv' q3 where c3: "tcp_nodelay net s q2 = (rv', q3)" by fastforce
    note h3 = bind_steps_hold(2) [OF assms(1) h2, unfolded c3 snd_conv]
    obtain b q4 where c4: "call (net_bind net s a) q3 = (b, q4)" by fastforce
    note h4 = holding_call [OF h3 net_okD(7) [OF assms(1)] c4]
    obtain l q5 where c5: "call (net_listen net s (cfg_backlog (pr_config q4))) q4 = (l, q5)" by fastforce
    note h5 = holding_call [OF h4 net_okD(8) [OF assms(1)] c5]
    show ?thesis
      using c Some c1 c2 c3 c4 c5 closed [OF h1] closed [OF h2] closed [OF h3] failed [OF h4] failed [OF h5]
        holding_listening [OF h5]
      by (auto simp: bind_address_def Let_def split: option.split)
  qed
qed

lemma bind_loop_done:
  assumes "net_ok net fds" "loggable p0"
  shows "listening fds p0 result p \<Longrightarrow>
    gives (\<lambda>(result, q). listening fds p0 result q) (bind_loop os net hostname port result addrs p)"
proof (induction addrs arbitrary: result p)
  case (Cons a as)
  then have "only_net p0 p" by (simp add: listening_def)
  with assms(2) have "loggable p" using only_net_keeps(1) [of p0 p] by simp
  from gives_then [OF bind_address_done [OF assms(1) this]] show ?case
    by (auto intro!: gives_then [OF bind_address_done [OF assms(1) \<open>loggable p\<close>]] Cons.IH
        dest: listening_trans [OF Cons.prems] split: option.splits)
qed simp

lemma bind_host_done:
  assumes "net_ok net fds" "loggable p" "sint port < 10000" "- 1000 < sint port"
  shows "gives (\<lambda>(rv, result, q). listening fds p result q \<and> (rv = 0 \<and> result \<noteq> [] \<or> rv = 1 \<and> result = []))
    (bind_host os net hostname port p)"
proof -
  let ?P = "\<lambda>(rv, result, q). listening fds p result q \<and> (rv = 0 \<and> result \<noteq> [] \<or> rv = (1 :: int) \<and> result = [])"
  obtain x w where g: "net_getaddrinfo net hostname (show_int (sint port)) True (io_world p) = (x, w)"
    by fastforce
  with net_okD(3) [OF assms(1), of hostname "show_int (sint port)" True]
  have w: "fds w = fds (io_world p)" unfolding keeps_open_def by (metis snd_conv)
  let ?q = "p\<lparr>io_world := w\<rparr>"
  have q: "only_net p ?q" by (rule only_net_call)
  have l: "loggable ?q" using only_net_keeps(1) [OF q] assms(2) by simp
  show ?thesis
  proof (cases x)
    case (Inl rv)
    have "gives ?P (and_then (say (Line t) ?q) (\<lambda>p. Returned (1, [], p)))" for t
      by (rule gives_then [OF say_gives [OF l]])
        (use w q in \<open>auto simp: listening_def intro: only_net_trans\<close>)
    with Inl g assms(3,4) show ?thesis by (simp add: bind_host_def sport_text)
  next
    case (Inr addrs)
    have "listening fds p [] ?q" using w q by (simp add: listening_def)
    from bind_loop_done [OF assms(1,2) this, of os hostname port addrs]
    have "gives ?P (and_then (bind_loop os net hostname port [] addrs ?q)
        (\<lambda>(result, p). if result = [] then Returned (1, [], p) else Returned (0, result, p)))"
      by (rule gives_then) auto
    with Inr g assms(3,4) show ?thesis by (simp add: bind_host_def sport_text)
  qed
qed

lemma bind_interfaces_done:
  assumes "net_ok net fds" "loggable p0" "sint port < 10000" "- 1000 < sint port"
  shows "listening fds p0 star_fds p \<Longrightarrow>
    gives (\<lambda>(rv, result, q). listening fds p0 result q \<and> rv = 0)
      (bind_interfaces os net port star_fds ifas p)"
proof (induction ifas arbitrary: star_fds p)
  case (Cons ifa ifas)
  then have "only_net p0 p" by (simp add: listening_def)
  with assms(2) have "loggable p" using only_net_keeps(1) [of p0 p] by simp
  note host = bind_host_done [OF assms(1) this assms(3,4)]
  show ?case
  proof (cases "usable ifa")
    case None
    with Cons show ?thesis by simp
  next
    case (Some addr)
    then show ?thesis
      by (auto intro!: gives_then [OF host] Cons.IH dest: listening_trans [OF Cons.prems])
  qed
qed simp

lemma bind_all_done:
  assumes "net_ok net fds" "loggable p" "sint port < 10000" "- 1000 < sint port"
  shows "\<exists>rv result p'. bind_all os net hostname port p = Returned (rv, result, p') \<and> only_net p p' \<and>
    distinct result \<and> - 1 \<notin> set result \<and> set result \<inter> fds (io_world p) = {} \<and>
    fds (io_world p') = fds (io_world p) \<union> set result \<and>
    (rv = 0 \<or> rv = 1 \<and> result = []) \<and> (hostname \<noteq> bs ''*'' \<longrightarrow> rv = 0 \<longrightarrow> result \<noteq> [])"
proof -
  let ?P = "\<lambda>(rv, result, q). listening fds p result q \<and> (rv = 0 \<or> rv = (1 :: int) \<and> result = []) \<and>
    (hostname \<noteq> bs ''*'' \<longrightarrow> rv = 0 \<longrightarrow> result \<noteq> [])"
  have "gives ?P (bind_all os net hostname port p)"
  proof (cases "hostname = bs ''*''")
    case True
    obtain r q where c: "call (net_getifaddrs net) p = (r, q)" by fastforce
    have q: "listening fds p [] q"
      using call_keeps_open [OF net_okD(4) [OF assms(1)] c] call_only [OF c] by (simp add: listening_def)
    then have l: "loggable q" using only_net_keeps(1) [of p q] assms(2) by (simp add: listening_def)
    show ?thesis
    proof (cases r)
      case None
      have "gives ?P (and_then (say (Line t) q) (\<lambda>p. Returned (1, [], p)))" for t
        by (rule gives_then [OF say_gives [OF l]]) (use q in \<open>auto simp: listening_def intro: only_net_trans\<close>)
      with None c True show ?thesis by (simp add: bind_all_def)
    next
      case (Some ifas)
      from bind_interfaces_done [OF assms q, of os ifas] have "gives ?P (bind_interfaces os net port [] ifas q)"
        by (rule gives_mono) (use True in auto)
      with Some c True show ?thesis by (simp add: bind_all_def)
    qed
  next
    case False
    from bind_host_done [OF assms, of os hostname] show ?thesis
      using False by (auto simp: bind_all_def elim!: gives_mono)
  qed
  then show ?thesis by (fastforce simp: gives_def listening_def)
qed

text \<open>
  C17. Binding, on one host or on all interfaces, returns for every port of at most four digits; then
  the descriptors it gives are new and distinct and are exactly the ones that have been opened: the
  sockets of all addresses that failed have been closed again. On one host it fails exactly if there
  is no socket; on all interfaces it also succeeds with none.
\<close>

theorem bind_no_leak:
  assumes "net_ok net fds" "loggable p" "sint port < 10000" "- 1000 < sint port"
  shows "\<exists>rv result p'. bind_all os net hostname port p = Returned (rv, result, p') \<and> only_net p p' \<and>
    distinct result \<and> set result \<inter> fds (io_world p) = {} \<and>
    fds (io_world p') = fds (io_world p) \<union> set result \<and>
    (rv = 0 \<or> rv = 1 \<and> result = []) \<and> (hostname \<noteq> bs ''*'' \<longrightarrow> rv = 0 \<longrightarrow> result \<noteq> [])"
  using bind_all_done [OF assms, of os hostname] by blast

theorem bind_no_leak_witness:
  "\<exists>rv result p'. bind_all (host_os wire_os) host_net (bs ''localhost'') 5432 (host_proc (\<lambda>_. []) [3]) =
      Returned (rv, result, p') \<and> only_net (host_proc (\<lambda>_. []) [3]) p' \<and>
    distinct result \<and> set result \<inter> host_fds (wire_start (\<lambda>_. []), [3]) = {} \<and>
    host_fds (io_world p') = host_fds (wire_start (\<lambda>_. []), [3]) \<union> set result \<and>
    (rv = 0 \<or> rv = 1 \<and> result = []) \<and> (rv = 0 \<longrightarrow> result \<noteq> [])"
  using bind_no_leak [OF host_net_ok host_loggable, where hostname = "bs ''localhost''" and port = 5432
    and chunks1 = "\<lambda>_. []" and l1 = "[3]" and os = "host_os wire_os"] by simp

text \<open>A Unix Domain Socket that has been bound is a new descriptor, and no other is opened.\<close>

lemma unix_failed_fails:
  "loggable p \<Longrightarrow> gives (\<lambda>(rv, fd, q). rv = 0 \<longrightarrow> Q fd q) (unix_failed t fd p)"
  unfolding unix_failed_def by (rule gives_then [OF say_gives]) simp_all

lemma bind_unix_done:
  assumes "net_ok net fds" "loggable p"
  shows "gives (\<lambda>(rv, fd, q). rv = 0 \<longrightarrow> holding fds p fd q) (bind_unix_socket os net directory sock_name p)"
proof -
  note ok = net_okD [OF assms(1)]
  obtain x p1 where 1: "call (net_socket net None) p = (x, p1)" by fastforce
  have log1: "loggable p1" using only_net_keeps(1) [OF call_only [OF 1]] assms(2) by simp
  show ?thesis
  proof (cases x)
    case None
    with 1 show ?thesis by (simp add: bind_unix_socket_def unix_failed_fails [OF log1])
  next
    case (Some s)
    have h1: "holding fds p s p1"
      using call_opens [OF ok(1) 1] Some call_only [OF 1] by (simp add: holding_def)
    let ?dir = "snprintf 107 directory" and ?path = "snprintf 107 (directory @ bs ''/'' @ sock_name)"
    obtain e p2 where 2: "call (net_stat net ?dir) p1 = (e, p2)" by fastforce
    note h2 = holding_call [OF h1 ok(9) 2]
    obtain m p3 where 3: "(if e = None then call (net_mkdir net ?dir) p2 else (Some (), p2)) = (m, p3)" by fastforce
    have h3: "holding fds p s p3" using 3 h2 holding_call [OF h2 ok(10)] by (auto split: if_splits)
    obtain u p4 where 4: "call (net_unlink net ?path) p3 = (u, p4)" by fastforce
    note h4 = holding_call [OF h3 ok(11) 4]
    obtain b p5 where 5: "call (net_bind net s (Unix_path ?path)) p4 = (b, p5)" by fastforce
    note h5 = holding_call [OF h4 ok(7) 5]
    obtain l p6 where 6: "call (net_listen net s (cfg_backlog (pr_config p5))) p5 = (l, p6)" by fastforce
    note h6 = holding_call [OF h5 ok(8) 6]
    have "loggable q" if "holding fds p s q" for q
      using that only_net_keeps(1) [of p q] assms(2) by (simp add: holding_def)
    note failed = unix_failed_fails [OF this]
    show ?thesis
      using 1 2 3 4 5 6 Some h6 failed [OF h3] failed [OF h5] failed [OF h6]
      by (simp add: bind_unix_socket_def Let_def split: option.split)
  qed
qed

section \<open>Addresses that are not tried\<close>

text \<open>
  The loop over the addresses of the server never reaches the second one: whatever happens with
  the first address, connecting gives the same result as if the server had no other.
\<close>

theorem connect_first_address_only:
  assumes "net_getaddrinfo net hostname service False w = (Inr (a # others), w')" "sport port = Some service"
    "io_world p = w" "net_getaddrinfo net' hostname service False w = (Inr [a], w')"
    "net' = net\<lparr>net_getaddrinfo := f\<rparr>"
  shows "connect os net hostname port fd p = connect os net' hostname port fd p"
proof -
  have give: "give_up os net' what s q = give_up os net what s q" for what s q
    using assms(5) by (simp add: give_up_def disconnect_def cong: if_cong)
  have opts: "set_options os net' s opts q rest = set_options os net s opts q rest'"
    if "\<And>q. rest q = rest' q" for s opts q rest rest'
    using that
    by (induction opts arbitrary: q) (auto simp: give [unfolded assms(5)] assms(5) split: option.split prod.split)
  have "set_options os net' s opts q (\<lambda>p. case call (net_connect net' s a) p of
        (None, p) \<Rightarrow> give_up os net' [] s p | (Some _, p) \<Rightarrow> Returned (0, s, p)) =
      set_options os net s opts q (\<lambda>p. case call (net_connect net s a) p of
        (None, p) \<Rightarrow> give_up os net [] s p | (Some _, p) \<Rightarrow> Returned (0, s, p))" for s opts q
    by (rule opts) (simp add: give [unfolded assms(5)] assms(5) split: option.split prod.split)
  then show ?thesis
    using assms by (auto simp: connect_def split: option.split prod.split)
qed

theorem connect_first_address_only_witness:
  "connect (host_os wire_os) host_net (bs ''db'') 5432 (- 1) (host_proc (\<lambda>_. []) []) =
    connect (host_os wire_os) (host_net\<lparr>net_getaddrinfo := \<lambda>_ _ _ w. (Inr [Resolved 1], w)\<rparr>) (bs ''db'') 5432
      (- 1) (host_proc (\<lambda>_. []) [])"
  by (rule connect_first_address_only [where service = "show_int 5432" and a = "Resolved 1"
      and others = "[Resolved 2]" and w = "(wire_start (\<lambda>_. []), [])" and w' = "(wire_start (\<lambda>_. []), [])"])
    (simp_all add: host_net_def sport_text)

section \<open>The path of a Unix Domain Socket\<close>

text \<open>
  The documented behaviour of the calls, with the set of paths that exist as sockets: a successful
  \<open>bind\<close> creates its path, \<open>unlink\<close> removes its argument, and the other calls do neither.
\<close>

definition paths_ok :: "'w net \<Rightarrow> ('w \<Rightarrow> ctext set) \<Rightarrow> bool" where
  "paths_ok net paths \<longleftrightarrow>
     (\<forall>fd path w w'. net_bind net fd (Unix_path path) w = (Inr (), w') \<longrightarrow> paths w' = insert path (paths w)) \<and>
     (\<forall>path w. paths (snd (net_unlink net path w)) = paths w - {path}) \<and>
     (\<forall>a w. paths (snd (net_socket net a w)) = paths w) \<and>
     (\<forall>path w. paths (snd (net_stat net path w)) = paths w) \<and>
     (\<forall>path w. paths (snd (net_mkdir net path w)) = paths w) \<and>
     (\<forall>fd n w. paths (snd (net_listen net fd n w)) = paths w)"

lemma call_world: "call f p = (r, q) \<Longrightarrow> io_world q = snd (f (io_world p))"
  by (erule call_cases) simp_all

lemma paths_call:
  assumes "paths_ok net paths"
  shows "call (net_socket net a) p = (r, q) \<Longrightarrow> paths (io_world q) = paths (io_world p)"
    "call (net_stat net path) p = (x, q) \<Longrightarrow> paths (io_world q) = paths (io_world p)"
    "call (net_mkdir net path) p = (x, q) \<Longrightarrow> paths (io_world q) = paths (io_world p)"
    "call (net_listen net fd n) p = (x, q) \<Longrightarrow> paths (io_world q) = paths (io_world p)"
    "call (net_unlink net path) p = (x, q) \<Longrightarrow> paths (io_world q) = paths (io_world p) - {path}"
  using assms by (auto simp: paths_ok_def dest!: call_world)

lemma paths_bind:
  assumes "paths_ok net paths" "call (net_bind net fd (Unix_path path)) p = (Some (), q)"
  shows "paths (io_world q) = insert path (paths (io_world p))"
  using assms(2) by (cases rule: call_cases) (use assms(1) in \<open>simp_all add: paths_ok_def\<close>)

lemma unix_failed_code: "unix_failed t fd p = Returned (rv, fd', p') \<Longrightarrow> rv = 1"
  by (auto simp: unix_failed_def and_then_Returned_iff)

lemma bind_unix_paths:
  assumes "paths_ok net paths" "bind_unix_socket os net directory sock_name p = Returned (0, fd, q)"
  shows "paths (io_world q) = insert (snprintf 107 (directory @ bs ''/'' @ sock_name)) (paths (io_world p))"
proof -
  note calls = paths_call [OF assms(1)]
  obtain x p1 where 1: "call (net_socket net None) p = (x, p1)" by fastforce
  let ?dir = "snprintf 107 directory" and ?path = "snprintf 107 (directory @ bs ''/'' @ sock_name)"
  obtain e p2 where 2: "call (net_stat net ?dir) p1 = (e, p2)" by fastforce
  obtain m p3 where 3: "(if e = None then call (net_mkdir net ?dir) p2 else (Some (), p2)) = (m, p3)" by fastforce
  obtain u p4 where 4: "call (net_unlink net ?path) p3 = (u, p4)" by fastforce
  obtain s where s: "x = Some s"
    using assms(2) 1 unix_failed_code by (cases x) (fastforce simp: bind_unix_socket_def)+
  obtain b p5 where 5: "call (net_bind net s (Unix_path ?path)) p4 = (b, p5)" by fastforce
  obtain l p6 where 6: "call (net_listen net s (cfg_backlog (pr_config p5))) p5 = (l, p6)" by fastforce
  have "m \<noteq> None \<and> b = Some () \<and> l \<noteq> None \<and> q = p6"
    using assms(2) 1 2 3 4 5 6 s
    by (auto simp: bind_unix_socket_def Let_def dest!: unix_failed_code split: if_splits option.splits)
  then have "paths (io_world p3) = paths (io_world p2)" "b = Some ()" "q = p6"
    using 3 calls(3) by (auto split: if_splits)
  with calls(1) [OF 1] calls(2) [OF 2] calls(5) [OF 4] paths_bind [OF assms(1), of s ?path p4 p5] calls(4) [OF 6] 5
  show ?thesis by auto
qed

text \<open>
  C36. While the path is shorter than 107 bytes, removing the socket undoes what binding it did; but of
  a longer path only the first 106 bytes are bound and more than that are removed, so that the socket
  stays behind.
\<close>

theorem unix_socket_removed:
  assumes "paths_ok net paths" "bind_unix_socket os net directory sock_name p = Returned (0, fd, q)"
    "remove_unix_socket net directory sock_name q = (rv, r)" "path = directory @ bs ''/'' @ sock_name"
  shows "if length path < 107 then paths (io_world q) = insert path (paths (io_world p)) \<and>
      paths (io_world r) = paths (io_world p) - {path}
    else take 106 path \<in> paths (io_world r)"
proof -
  have q: "paths (io_world q) = insert (take 106 path) (paths (io_world p))"
    using bind_unix_paths [OF assms(1,2)] assms(4) by (simp add: snprintf_def)
  have "call (net_unlink net (snprintf MISC_LENGTH path)) q = (fst (call (net_unlink net (snprintf MISC_LENGTH path)) q), r)"
    using assms(3,4) by (auto simp: remove_unix_socket_def)
  from paths_call(5) [OF assms(1) this]
  have r: "paths (io_world r) = paths (io_world q) - {take 127 path}"
    by (simp add: snprintf_def MISC_LENGTH_def)
  show ?thesis
  proof (cases "length path < 107")
    case False
    then have "length (take 106 path) \<noteq> length (take 127 path)" by simp
    then have "take 106 path \<noteq> take 127 path" by metis
    with False q r show ?thesis by simp
  qed (use q r in auto)
qed

text \<open>For the witness: a host that keeps the list of the paths.\<close>

definition path_net :: "ctext list net" where
  "path_net = \<lparr>net_getaddrinfo = (\<lambda>_ _ _ w. (Inr [], w)), net_gai_strerror = (\<lambda>_. []),
     net_getifaddrs = (\<lambda>w. (Inr [], w)), net_socket = (\<lambda>_ w. (Inr 3, w)),
     net_setsockopt = (\<lambda>_ _ _ w. (Inr (), w)), net_connect = (\<lambda>_ _ w. (Inr (), w)),
     net_bind = (\<lambda>_ a w. (Inr (), case a of Unix_path path \<Rightarrow> path # w | _ \<Rightarrow> w)),
     net_listen = (\<lambda>_ _ w. (Inr (), w)), net_close = (\<lambda>fd w. (Inr (), w)), net_accept = (\<lambda>_ w. (Inr 4, w)),
     net_stat = (\<lambda>_ w. (Inl 2, w)), net_mkdir = (\<lambda>_ w. (Inr (), w)),
     net_unlink = (\<lambda>path w. (Inr (), removeAll path w))\<rparr>"

definition path_os :: "ctext list os" where
  "path_os = \<lparr>os_read = (\<lambda>_ _ w. (Got [], w)), os_write = (\<lambda>_ bytes w. (Wrote (length bytes), w)),
     os_fopen = (\<lambda>_ _. True), os_clock = (\<lambda>_. (0, 0)), os_strerror = (\<lambda>_. [])\<rparr>"

lemma path_net_ok: "paths_ok path_net set"
  by (auto simp: paths_ok_def path_net_def)

theorem unix_socket_removed_witness:
  "\<exists>fd q rv r. bind_unix_socket path_os path_net (replicate 110 47) (bs ''s'') (proc_on []) =
      Returned (0, fd, q) \<and>
    remove_unix_socket path_net (replicate 110 47) (bs ''s'') q = (rv, r) \<and>
    (if length (replicate 110 (47 :: byte) @ bs ''/'' @ bs ''s'') < 107
     then set (io_world q) = insert (replicate 110 47 @ bs ''/'' @ bs ''s'') (set []) \<and>
       set (io_world r) = set [] - {replicate 110 47 @ bs ''/'' @ bs ''s''}
     else take 106 (replicate 110 47 @ bs ''/'' @ bs ''s'') \<in> set (io_world r))"
proof -
  let ?dir = "replicate 110 (47 :: byte)"
  have "\<exists>q. bind_unix_socket path_os path_net ?dir (bs ''s'') (proc_on []) = Returned (0, 3, q)"
    by (simp add: bind_unix_socket_def path_net_def call_def Let_def)
  then obtain q where q: "bind_unix_socket path_os path_net ?dir (bs ''s'') (proc_on []) = Returned (0, 3, q)"
    by blast
  obtain rv r where r: "remove_unix_socket path_net ?dir (bs ''s'') q = (rv, r)" by fastforce
  from unix_socket_removed [OF path_net_ok q r refl] q r show ?thesis by fastforce
qed

end
