(* ===== verification/Worker.thy ===== *)
theory Worker
  imports Relay Network Libev
begin

text \<open>
  \<open>src/src/libpgprtdbg/worker.c\<close>: the process that serves one client, from its start to its \<open>exit\<close>.
  The event loop of libev is a parameter: \<open>poll\<close> says which callbacks are pending in one iteration.
\<close>

section \<open>One iteration of the event loop\<close>

datatype worker_event = Client_readable | Server_readable | Sigquit

definition sigquit_cb :: "'w callback" where
  "sigquit_cb p = Returned (EVBREAK_ALL, p\<lparr>pr_exit_code := WORKER_FAILURE, pr_running := False\<rparr>)"

definition callback :: "'w os \<Rightarrow> nat \<Rightarrow> i32 \<Rightarrow> i32 \<Rightarrow> nat \<Rightarrow> worker_event \<Rightarrow> 'w act" where
  "callback os fuel client_fd server_fd counter e p =
     and_then (case e of
         Client_readable \<Rightarrow> pipeline_client os fuel client_fd server_fd counter p
       | Server_readable \<Rightarrow> pipeline_server os fuel client_fd server_fd counter p
       | Sigquit \<Rightarrow> sigquit_cb p) (\<lambda>(_, p). Returned p)"

text \<open>
  The callbacks that are pending are called one after the other, also behind one that ends the
  session: \<open>ev_break\<close> leaves the loop once they are done.
\<close>

fun callbacks :: "'w os \<Rightarrow> nat \<Rightarrow> i32 \<Rightarrow> i32 \<Rightarrow> nat \<Rightarrow> worker_event list \<Rightarrow> 'w act" where
  "callbacks os fuel client_fd server_fd counter [] p = Returned p"
| "callbacks os fuel client_fd server_fd counter (e # es) p =
     and_then (callback os fuel client_fd server_fd counter e p)
       (callbacks os fuel client_fd server_fd counter es)"

type_synonym 'w poll = "'w \<Rightarrow> worker_event list \<times> 'w"

text \<open>\<open>while (running) ev_loop (loop, 0)\<close>\<close>

definition worker_step :: "'w os \<Rightarrow> 'w poll \<Rightarrow> nat \<Rightarrow> i32 \<Rightarrow> i32 \<Rightarrow> nat \<Rightarrow> 'w proc \<Rightarrow>
    ('w proc, ('w proc, 'w proc) outcome) iter" where
  "worker_step os poll fuel client_fd server_fd counter p =
     (if pr_running p
      then (let (events, w) = poll (io_world p)
            in go_on (callbacks os fuel client_fd server_fd counter events (p\<lparr>io_world := w\<rparr>)))
      else Stop (Returned p))"

section \<open>The process\<close>

text \<open>The loops over \<open>pids\<close> stop at the first entry that fits.\<close>

fun replace_first :: "'a \<Rightarrow> 'a \<Rightarrow> 'a list \<Rightarrow> 'a list" where
  "replace_first a b [] = []"
| "replace_first a b (x # xs) = (if x = a then b # xs else x # replace_first a b xs)"

definition set_pids :: "(i32 list \<Rightarrow> i32 list) \<Rightarrow> 'w proc \<Rightarrow> 'w proc" where
  "set_pids f p = p\<lparr>pr_config := (pr_config p)\<lparr>cfg_pids := f (cfg_pids (pr_config p))\<rparr>\<rparr>"

definition add_active :: "16 word \<Rightarrow> 'w proc \<Rightarrow> 'w proc" where
  "add_active n p = p\<lparr>pr_config := (pr_config p)
     \<lparr>cfg_active_connections := cfg_active_connections (pr_config p) + n\<rparr>\<rparr>"

text \<open>
  What happens before the connection to the server. The result of \<open>pgprtdbg_start_logging\<close> is
  ignored. A failed \<open>fopen\<close> leaves its reason in \<open>errno\<close>, here the one it has.
\<close>

definition open_log :: "'w os \<Rightarrow> 'w proc \<Rightarrow> 'w proc" where
  "open_log os p = p\<lparr>pr_logs := snd (start_logging (pr_config p)
     (\<lambda>name. os_fopen os name (io_world p)) (errno_text os p) (pr_logs p))\<rparr>"

definition log_client :: "string \<Rightarrow> i32 \<Rightarrow> 'w act" where
  "log_client what client_fd p =
     and_then (log_to [line ''--------'', Line (bs what @ bs '' client: '' @ show_int (sint client_fd))]
       (lock_log p)) (\<lambda>p. Returned (unlock_log p))"

definition worker_start :: "'w os \<Rightarrow> i32 \<Rightarrow> 'w act" where
  "worker_start os client_fd p =
     (let p = open_log os p
      in and_then (defined (memory_init (pr_config p) (io_memory p))) (\<lambda>m.
         and_then (log_client ''Start'' client_fd (set_pids (replace_first 0 (pr_pid p)) (p\<lparr>io_memory := m\<rparr>))) (\<lambda>p.
           if cfg_save_traffic (pr_config p) then save_begin_marker os p else Returned p)))"

text \<open>The session with the server: \<open>ev_loop_new\<close> is taken to succeed.\<close>

definition worker_session :: "'w os \<Rightarrow> ev_api \<Rightarrow> 'w poll \<Rightarrow> nat \<Rightarrow> i32 \<Rightarrow> i32 \<Rightarrow> nat \<Rightarrow> 'w act" where
  "worker_session os ev poll fuel client_fd server_fd counter p =
     and_then (libev ev (Some (cstr (cfg_libev (pr_config (add_active 1 p))))) (add_active 1 p)) (\<lambda>(_, p).
       run_loop (worker_step os poll fuel client_fd server_fd counter) fuel p)"

text \<open>
  The end, up to \<open>exit\<close>. \<open>server_fd\<close> is closed also when connecting has failed, and has closed it
  already.
\<close>

definition worker_end :: "'w os \<Rightarrow> 'w net \<Rightarrow> i32 \<Rightarrow> i32 \<Rightarrow> bool \<Rightarrow> 'w act" where
  "worker_end os net client_fd server_fd connected p =
     and_then (log_client ''Stop'' client_fd p) (\<lambda>p.
     and_then (if cfg_save_traffic (pr_config p) then save_end_marker os p else Returned p) (\<lambda>p.
     let p = snd (disconnect net client_fd p);
         p = snd (disconnect net server_fd p);
         p = set_pids (replace_first (pr_pid p) 0) p;
         p = (if connected then add_active (- 1) p else p);
         p = p\<lparr>io_memory := memory_destroy (io_memory p)\<rparr>
     in and_then (defined (stop_logging (pr_config p) (pr_logs p))) (\<lambda>lg.
       Exited (pr_exit_code p) (p\<lparr>pr_logs := lg\<rparr>))))"

text \<open>
  \<open>pgprtdbg_worker\<close>; \<open>client_number\<close> is the index of the client's counter. The globals \<open>running\<close> and
  \<open>exit_code\<close> start as 1 and \<open>WORKER_FAILURE\<close>.
\<close>

definition worker :: "'w os \<Rightarrow> 'w net \<Rightarrow> ev_api \<Rightarrow> 'w poll \<Rightarrow> nat \<Rightarrow> i32 \<Rightarrow> nat \<Rightarrow> 'w act" where
  "worker os net ev poll fuel client_fd client_number p =
     and_then (worker_start os client_fd (p\<lparr>pr_running := True, pr_exit_code := WORKER_FAILURE\<rparr>)) (\<lambda>p.
     let server = cfg_server (pr_config p)
     in and_then (connect os net (cstr (srv_host server)) (srv_port server) (- 1) p) (\<lambda>(rv, server_fd, p).
        if rv = 0
        then and_then (worker_session os ev poll fuel client_fd server_fd client_number p)
          (worker_end os net client_fd server_fd True)
        else worker_end os net client_fd server_fd False p))"

section \<open>A session in small steps\<close>

text \<open>
  The state is the process with the callbacks that are still pending in this iteration; the events
  are a poll of the loop, and a callback that returns.
\<close>

datatype session_event = Poll | Callback worker_event

inductive session_step :: "'w os \<Rightarrow> 'w poll \<Rightarrow> nat \<Rightarrow> i32 \<Rightarrow> i32 \<Rightarrow> nat \<Rightarrow>
    'w proc \<times> worker_event list \<Rightarrow> session_event \<Rightarrow> 'w proc \<times> worker_event list \<Rightarrow> bool"
  for os :: "'w os" and poll fuel client_fd server_fd counter where
  polled: "pr_running p \<Longrightarrow> poll (io_world p) = (es, w) \<Longrightarrow>
    session_step os poll fuel client_fd server_fd counter (p, []) Poll (p\<lparr>io_world := w\<rparr>, es)"
| called: "callback os fuel client_fd server_fd counter e p = Returned q \<Longrightarrow>
    session_step os poll fuel client_fd server_fd counter (p, e # es) (Callback e) (q, es)"

inductive_cases session_stepE: "session_step os poll fuel client_fd server_fd counter s e t"

text \<open>The loop of the worker runs these steps.\<close>

lemma callbacks_runs:
  "callbacks os fuel client_fd server_fd counter es p = Returned q \<Longrightarrow>
    \<exists>l. runs (session_step os poll fuel client_fd server_fd counter) (p, es) l (q, [])"
proof (induction es arbitrary: p)
  case Nil
  then show ?case by (auto intro: runs_Nil)
next
  case (Cons e es)
  then obtain r where r: "callback os fuel client_fd server_fd counter e p = Returned r"
    "callbacks os fuel client_fd server_fd counter es r = Returned q" by (auto simp: and_then_Returned_iff)
  with Cons.IH [OF r(2)] show ?case by (blast intro: runs_Cons called)
qed

lemma loop_runs:
  "loop (worker_step os poll fuel client_fd server_fd counter) n p = Some (Returned q) \<Longrightarrow>
    \<exists>l. runs (session_step os poll fuel client_fd server_fd counter) (p, []) l (q, []) \<and> \<not> pr_running q"
proof (induction n arbitrary: p)
  case (Suc n)
  show ?case
  proof (cases "pr_running p")
    case True
    obtain es w where w: "poll (io_world p) = (es, w)" by fastforce
    let ?r = "callbacks os fuel client_fd server_fd counter es (p\<lparr>io_world := w\<rparr>)"
    have "worker_step os poll fuel client_fd server_fd counter p = go_on ?r"
      using True w by (simp add: worker_step_def)
    with Suc.prems obtain r where r: "?r = Returned r"
      "loop (worker_step os poll fuel client_fd server_fd counter) n r = Some (Returned q)"
      by (cases ?r) (auto simp: go_on_def)
    from callbacks_runs [OF r(1)] Suc.IH [OF r(2)] obtain l l' where
      "runs (session_step os poll fuel client_fd server_fd counter) (p\<lparr>io_world := w\<rparr>, es) l (r, [])"
      "runs (session_step os poll fuel client_fd server_fd counter) (r, []) l' (q, [])" "\<not> pr_running q"
      by blast
    with polled [of p poll es w] True w show ?thesis by (meson runs_Cons runs_append)
  next
    case False
    with Suc.prems show ?thesis by (auto simp: worker_step_def intro: runs_Nil)
  qed
qed simp

text \<open>When it does not return, one of its callbacks has not.\<close>

lemma callbacks_left:
  "callbacks os fuel client_fd server_fd counter es p = r \<Longrightarrow> \<forall>q. r \<noteq> Returned q \<Longrightarrow>
    \<exists>l q e es'. runs (session_step os poll fuel client_fd server_fd counter) (p, es) l (q, e # es') \<and>
      callback os fuel client_fd server_fd counter e q = r"
proof (induction es arbitrary: p)
  case (Cons e es)
  show ?case
  proof (cases "callback os fuel client_fd server_fd counter e p")
    case (Returned q)
    with Cons.IH [of q] Cons.prems obtain l s e' es' where
      l: "runs (session_step os poll fuel client_fd server_fd counter) (q, es) l (s, e' # es')"
      "callback os fuel client_fd server_fd counter e' s = r" by auto
    from runs_Cons [of "session_step os poll fuel client_fd server_fd counter", OF called [OF Returned] l(1)] l(2)
    show ?thesis by blast
  qed (use Cons.prems in \<open>fastforce intro: runs_Nil\<close>)+
qed auto

lemma loop_left:
  "loop (worker_step os poll fuel client_fd server_fd counter) n p = Some r \<Longrightarrow> \<forall>q. r \<noteq> Returned q \<Longrightarrow>
    \<exists>l q e es. runs (session_step os poll fuel client_fd server_fd counter) (p, []) l (q, e # es) \<and>
      callback os fuel client_fd server_fd counter e q = r"
proof (induction n arbitrary: p)
  case (Suc n)
  then have run: "pr_running p" by (auto simp: worker_step_def split: if_splits)
  obtain es w where w: "poll (io_world p) = (es, w)" by fastforce
  let ?step = "session_step os poll fuel client_fd server_fd counter"
  let ?r = "callbacks os fuel client_fd server_fd counter es (p\<lparr>io_world := w\<rparr>)"
  have p: "?step (p, []) Poll (p\<lparr>io_world := w\<rparr>, es)" using run w by (rule polled)
  have step: "worker_step os poll fuel client_fd server_fd counter p = go_on ?r"
    using run w by (simp add: worker_step_def)
  show ?case
  proof (cases "\<exists>q. ?r = Returned q")
    case True
    then obtain q where q: "?r = Returned q" by blast
    with Suc.IH [of q] Suc.prems step obtain l s e es' where
      l: "runs ?step (q, []) l (s, e # es')" "callback os fuel client_fd server_fd counter e s = r"
      by (auto simp: go_on_def)
    from callbacks_runs [OF q] obtain l' where "runs ?step (p\<lparr>io_world := w\<rparr>, es) l' (q, [])" by blast
    from runs_Cons [of ?step, OF p runs_append [OF this l(1)]] l(2) show ?thesis by blast
  next
    case False
    with Suc.prems(1) step have "?r = r" by (cases ?r) (simp_all add: go_on_def)
    from callbacks_left [OF this Suc.prems(2), of poll] runs_Cons [of ?step, OF p] show ?thesis by blast
  qed
qed simp

section \<open>What reaches the server and the client\<close>

text \<open>
  What is relied on of libev: a callback is pending at most once in an iteration, and waiting for
  events neither sends nor receives anything.
\<close>

definition poll_ok :: "'w poll \<Rightarrow> ('w \<Rightarrow> i32 \<Rightarrow> byte list) \<Rightarrow> ('w \<Rightarrow> i32 \<Rightarrow> byte list) \<Rightarrow> bool" where
  "poll_ok poll sent rcvd \<longleftrightarrow> (\<forall>w es w'. poll w = (es, w') \<longrightarrow>
     distinct es \<and> sent w' = sent w \<and> rcvd w' = rcvd w)"

text \<open>
  Between two steps of a session that began in \<open>p0\<close>, for one direction with the event \<open>ev\<close>: \<open>new\<close> has
  arrived on \<open>from_fd\<close>, the first \<open>k\<close> bytes of it have gone to \<open>to_fd\<close>, where \<open>s\<close> has been sent, and \<open>R\<close>
  is how they lie in it; when some are missing, no callback for this direction will be called.
\<close>

definition in_order :: "(byte list \<Rightarrow> byte list \<Rightarrow> bool) \<Rightarrow> worker_event \<Rightarrow> i32 \<Rightarrow> i32 \<Rightarrow>
    ('w \<Rightarrow> i32 \<Rightarrow> byte list) \<Rightarrow> ('w \<Rightarrow> i32 \<Rightarrow> byte list) \<Rightarrow> 'w proc \<Rightarrow> 'w proc \<times> worker_event list \<Rightarrow> bool" where
  "in_order R ev from_fd to_fd sent rcvd p0 = (\<lambda>(p, es).
     (\<exists>new k s. k \<le> length new \<and>
        rcvd (io_world p) from_fd = rcvd (io_world p0) from_fd @ new \<and>
        sent (io_world p) to_fd = sent (io_world p0) to_fd @ s \<and> R (take k new) s \<and>
        (k < length new \<longrightarrow> \<not> pr_running p \<and> ev \<notin> set es)))"

lemma in_order_start: "R [] [] \<Longrightarrow> in_order R ev from_fd to_fd sent rcvd p (p, [])"
  by (simp add: in_order_def)

text \<open>A callback of the direction itself, and anything else that happens.\<close>

lemma in_order_own:
  assumes "in_order R ev from_fd to_fd sent rcvd p0 (p, ev # es)" "ev \<notin> set es"
    "relayed n fds from_fd to_fd sent rcvd p q" "\<And>a s x. R a s \<Longrightarrow> R (a @ x) (s @ x)"
  shows "in_order R ev from_fd to_fd sent rcvd p0 (q, es)"
proof -
  from assms(1) obtain new s where o: "rcvd (io_world p) from_fd = rcvd (io_world p0) from_fd @ new"
    "sent (io_world p) to_fd = sent (io_world p0) to_fd @ s" "R new s"
    by (auto simp: in_order_def)
  from assms(3) obtain new' k' where
    passed: "passed fds from_fd to_fd sent rcvd new' k' (io_world p) (io_world q)"
    and run: "pr_running q \<longrightarrow> k' = length new'" unfolding relayed_def by blast
  then have r: "k' \<le> length new'" "rcvd (io_world q) from_fd = rcvd (io_world p) from_fd @ new'"
    "sent (io_world q) to_fd = sent (io_world p) to_fd @ take k' new'" by (simp_all add: passed_def)
  let ?new = "new @ new'" and ?k = "length new + k'" and ?s = "s @ take k' new'"
  have "?k \<le> length ?new" using r(1) by simp
  moreover have "rcvd (io_world q) from_fd = rcvd (io_world p0) from_fd @ ?new"
    "sent (io_world q) to_fd = sent (io_world p0) to_fd @ ?s" using o(1,2) r(2,3) by simp_all
  moreover have "R (take ?k ?new) ?s" using assms(4) [OF o(3)] by simp
  moreover have "?k < length ?new \<longrightarrow> \<not> pr_running q \<and> ev \<notin> set es" using run assms(2) by auto
  ultimately show ?thesis unfolding in_order_def by blast
qed

lemma in_order_other:
  assumes "in_order R ev from_fd to_fd sent rcvd p0 (p, es)" "set es' \<subseteq> set es"
    "rcvd (io_world q) from_fd = rcvd (io_world p) from_fd"
    "sent (io_world q) to_fd = sent (io_world p) to_fd @ x" "\<And>a s. R a s \<Longrightarrow> R a (s @ x)"
    "pr_running q \<longrightarrow> pr_running p"
  shows "in_order R ev from_fd to_fd sent rcvd p0 (q, es')"
proof -
  from assms(1) obtain new k s where o: "k \<le> length new"
    "rcvd (io_world p) from_fd = rcvd (io_world p0) from_fd @ new"
    "sent (io_world p) to_fd = sent (io_world p0) to_fd @ s" "R (take k new) s"
    "k < length new \<longrightarrow> \<not> pr_running p \<and> ev \<notin> set es" by (auto simp: in_order_def)
  from assms(5) [OF o(4)] have "R (take k new) (s @ x)" .
  with o assms(2,3,4,6) show ?thesis unfolding in_order_def by fastforce
qed

lemma client_callback_relays:
  assumes "kernel_ok os sent rcvd" "memory_ok 65535 (io_memory p)" "server_fd \<noteq> client_fd"
    "callback os fuel client_fd server_fd counter Client_readable p = Returned q"
  shows "relayed 65535 {client_fd} client_fd server_fd sent rcvd p q"
  using pipeline_client_relays [OF assms(1,2) _ assms(3), of fuel counter] assms(4)
  by (auto simp: callback_def and_then_Returned_iff)

lemma server_callback_relays:
  assumes "kernel_ok os sent rcvd" "memory_ok 65535 (io_memory p)"
    "callback os fuel client_fd server_fd counter Server_readable p = Returned q"
  shows "relayed 65535 {} server_fd client_fd sent rcvd p q"
  using pipeline_server_relays [OF assms(1,2), of server_fd client_fd fuel counter] assms(3)
  by (auto simp: callback_def and_then_Returned_iff)

text \<open>
  The server gets the bytes of the client and no others. What the client gets may have more in between,
  since \<open>pgprtdbg_client\<close> refuses old protocols.
\<close>

definition session_inv :: "i32 \<Rightarrow> i32 \<Rightarrow> ('w \<Rightarrow> i32 \<Rightarrow> byte list) \<Rightarrow> ('w \<Rightarrow> i32 \<Rightarrow> byte list) \<Rightarrow>
    'w proc \<Rightarrow> 'w proc \<times> worker_event list \<Rightarrow> bool" where
  "session_inv client_fd server_fd sent rcvd p0 st \<longleftrightarrow>
     memory_ok 65535 (io_memory (fst st)) \<and> distinct (snd st) \<and>
     in_order (=) Client_readable client_fd server_fd sent rcvd p0 st \<and>
     in_order subseq Server_readable server_fd client_fd sent rcvd p0 st"

lemma subseq_grow: "subseq a s \<Longrightarrow> subseq a (s @ x)"
  using list_emb_append_mono [of "(=)" a s "[]" x] by simp

lemma in_order_callback:
  assumes "kernel_ok os sent rcvd" "server_fd \<noteq> client_fd"
    "session_inv client_fd server_fd sent rcvd p0 (p, e # es)"
    "callback os fuel client_fd server_fd counter e p = Returned q"
  shows "session_inv client_fd server_fd sent rcvd p0 (q, es)"
proof -
  from assms(3) have mem: "memory_ok 65535 (io_memory p)" and dist: "distinct es" "e \<notin> set es"
    and up: "in_order (=) Client_readable client_fd server_fd sent rcvd p0 (p, e # es)"
    and down: "in_order subseq Server_readable server_fd client_fd sent rcvd p0 (p, e # es)"
    by (auto simp: session_inv_def)
  show ?thesis
  proof (cases e)
    case Client_readable
    from client_callback_relays [OF assms(1) mem assms(2) assms(4) [unfolded Client_readable]]
    have r: "relayed 65535 {client_fd} client_fd server_fd sent rcvd p q" .
    then obtain x where x: "sent (io_world q) client_fd = sent (io_world p) client_fd @ x"
      by (auto simp: relayed_def passed_def grows_def prefix_def)
    have "in_order (=) Client_readable client_fd server_fd sent rcvd p0 (q, es)"
      using in_order_own [OF _ _ r] up dist(2) unfolding Client_readable by blast
    moreover have "in_order subseq Server_readable server_fd client_fd sent rcvd p0 (q, es)"
      by (rule in_order_other [OF down _ _ x])
        (use r assms(2) in \<open>auto simp: relayed_def passed_def intro: subseq_grow\<close>)
    ultimately show ?thesis using r dist(1) by (simp add: session_inv_def relayed_def)
  next
    case Server_readable
    from server_callback_relays [OF assms(1) mem assms(4) [unfolded Server_readable]]
    have r: "relayed 65535 {} server_fd client_fd sent rcvd p q" .
    have "in_order subseq Server_readable server_fd client_fd sent rcvd p0 (q, es)"
      using in_order_own [OF _ _ r] down dist(2) list_emb_append_mono unfolding Server_readable by blast
    moreover have "in_order (=) Client_readable client_fd server_fd sent rcvd p0 (q, es)"
      by (rule in_order_other [OF up, where x = "[]"])
        (use r assms(2) in \<open>auto simp: relayed_def passed_def\<close>)
    ultimately show ?thesis using r dist(1) by (simp add: session_inv_def relayed_def)
  next
    case Sigquit
    then have q: "q = p\<lparr>pr_exit_code := WORKER_FAILURE, pr_running := False\<rparr>"
      using assms(4) by (simp add: callback_def sigquit_cb_def)
    with mem dist in_order_other [OF up, of es q "[]"] in_order_other [OF down, of es q "[]"]
    show ?thesis by (auto simp: session_inv_def)
  qed
qed

lemma in_order_polled:
  assumes "poll_ok poll sent rcvd" "poll (io_world p) = (es, w)" "pr_running p"
    "in_order R ev from_fd to_fd sent rcvd p0 (p, [])"
  shows "in_order R ev from_fd to_fd sent rcvd p0 (p\<lparr>io_world := w\<rparr>, es)"
  using assms by (fastforce simp: in_order_def poll_ok_def)

interpretation session: machine "\<lambda>s. kernel_ok os sent rcvd \<and> poll_ok poll sent rcvd \<and>
    server_fd \<noteq> client_fd \<and> memory_ok 65535 (io_memory p0) \<and> s = (p0, [])"
  "session_step os poll fuel client_fd server_fd counter" "\<lambda>_. True"
  "\<lambda>s. kernel_ok os sent rcvd \<and> poll_ok poll sent rcvd \<and> server_fd \<noteq> client_fd \<and>
    session_inv client_fd server_fd sent rcvd p0 s"
  for os :: "'w os" and sent rcvd poll server_fd client_fd p0 fuel counter
proof unfold_locales
  fix s e t
  assume inv: "kernel_ok os sent rcvd \<and> poll_ok poll sent rcvd \<and> server_fd \<noteq> client_fd \<and>
      session_inv client_fd server_fd sent rcvd p0 s"
    and step: "session_step os poll fuel client_fd server_fd counter s e t"
  from step inv show "kernel_ok os sent rcvd \<and> poll_ok poll sent rcvd \<and> server_fd \<noteq> client_fd \<and>
      session_inv client_fd server_fd sent rcvd p0 t"
  proof (cases rule: session_step.cases)
    case (polled p es w)
    then have "distinct es" using inv by (auto simp: poll_ok_def)
    then show ?thesis using inv polled in_order_polled [of poll sent rcvd p es w] by (auto simp: session_inv_def)
  next
    case (called e p q es)
    then show ?thesis using inv in_order_callback by blast
  qed
qed (auto simp: session_inv_def intro: in_order_start)

text \<open>
  C4. Whatever happens in a session, in whatever order the two sockets become readable, writes are cut
  or fail and messages are malformed: what has been sent to the server is at every moment a prefix of
  what has arrived from the client, in the same order, and as long as the session goes on it is all
  of it.
\<close>

theorem server_gets_client_stream:
  assumes "kernel_ok os sent rcvd" "poll_ok poll sent rcvd" "server_fd \<noteq> client_fd"
    "memory_ok 65535 (io_memory p)"
    "runs (session_step os poll fuel client_fd server_fd counter) (p, []) l (q, es)"
  shows "\<exists>new through. rcvd (io_world q) client_fd = rcvd (io_world p) client_fd @ new \<and>
    sent (io_world q) server_fd = sent (io_world p) server_fd @ through \<and>
    prefix through new \<and> (pr_running q \<longrightarrow> through = new)"
  using session.runs_from_initial [OF assms(5), of sent rcvd p] assms(1-4) take_is_prefix
  by (fastforce simp: session_inv_def in_order_def)

text \<open>
  C5. The other direction: what has been sent to the client contains, in the order in which it came,
  a prefix of what has arrived from the server, and as long as the session goes on all of it. Nothing
  of it is lost, changed or reordered; only the refusals of \<open>pgprtdbg_client\<close> may stand in between.
\<close>

theorem client_gets_server_stream:
  assumes "kernel_ok os sent rcvd" "poll_ok poll sent rcvd" "server_fd \<noteq> client_fd"
    "memory_ok 65535 (io_memory p)"
    "runs (session_step os poll fuel client_fd server_fd counter) (p, []) l (q, es)"
  shows "\<exists>new through s. rcvd (io_world q) server_fd = rcvd (io_world p) server_fd @ new \<and>
    sent (io_world q) client_fd = sent (io_world p) client_fd @ s \<and>
    prefix through new \<and> subseq through s \<and> (pr_running q \<longrightarrow> through = new)"
  using session.runs_from_initial [OF assms(5), of sent rcvd p] assms(1-4) take_is_prefix
  by (fastforce simp: session_inv_def in_order_def)

text \<open>For the witnesses: the client closes its connection at once.\<close>

definition client_poll :: "'w poll" where
  "client_poll w = ([Client_readable], w)"

lemma client_poll_ok: "poll_ok client_poll sent rcvd"
  by (simp add: poll_ok_def client_poll_def)

lemma demo_proc_world [simp]: "(demo_proc chunks)\<lparr>io_world := wire_start chunks\<rparr> = demo_proc chunks"
  by (simp add: demo_proc_def io.defs wire_io_def)

lemma demo_closed:
  assumes "\<And>m. os_read os 7 m (wire_start (\<lambda>_. [])) = (Got [], wire_start (\<lambda>_. []))"
  shows "\<exists>q. callback os 1 7 8 0 Client_readable (demo_proc (\<lambda>_. [])) = Returned q \<and> \<not> pr_running q"
proof -
  let ?p = "demo_proc (\<lambda>_. [])"
  have "memory_ok 4 (io_memory ?p)" "mem_data (io_memory ?p) = Some [0, 0, 0, 0]"
    "os_read os 7 (length [0, 0, 0, 0 :: byte]) (io_world ?p) = (Got [], io_world ?p)"
    using assms by (simp_all add: wire_io_def memory_ok_def)
  from read_message_none [OF this, of 0 1] obtain mem where
    "read_message os 1 7 False ?p = Returned (MESSAGE_STATUS_ZERO, None, ?p\<lparr>io_errno := io_errno ?p, io_memory := mem\<rparr>)"
    by auto
  moreover have "ready (?p\<lparr>io_errno := io_errno ?p, io_memory := mem\<rparr>)"
    using demo_holds(2) [of "\<lambda>_. []"] by (simp add: frame_simps)
  from session_done_ended [OF this, of "''[C] client_done''" "''client_fd''" 7 MESSAGE_STATUS_ZERO "Some WORKER_CLIENT_FAILURE"]
  obtain q where "session_done ''[C] client_done'' ''client_fd'' 7 MESSAGE_STATUS_ZERO (Some WORKER_CLIENT_FAILURE)
      (?p\<lparr>io_errno := io_errno ?p, io_memory := mem\<rparr>) = Returned (EVBREAK_ALL, q)" "\<not> pr_running q" by blast
  ultimately show ?thesis
    by (simp add: callback_def pipeline_client_def MESSAGE_STATUS_ZERO_def MESSAGE_STATUS_OK_def)
qed

lemma demo_memory: "memory_ok 65535 (io_memory (demo_proc chunks))"
  by (simp add: memory_ok_def wire_io_def)

lemma demo_session:
  "\<exists>q. runs (session_step wire_os client_poll 1 7 8 0) (demo_proc (\<lambda>_. []), []) [Poll, Callback Client_readable] (q, [])"
proof -
  let ?p = "demo_proc (\<lambda>_. [])"
  from demo_closed [of wire_os] obtain q where q: "callback wire_os 1 7 8 0 Client_readable ?p = Returned q"
    by (auto simp: wire_os_def wire_start_def)
  have "session_step wire_os client_poll 1 7 8 0 (?p, []) Poll (?p\<lparr>io_world := io_world ?p\<rparr>, [Client_readable])"
    by (rule polled) (simp_all add: client_poll_def)
  then show ?thesis
    using called [OF q, of client_poll "[]"] by (auto intro!: runs_Cons runs_Nil)
qed

theorem server_gets_client_stream_witness:
  "\<exists>q. runs (session_step wire_os client_poll 1 7 8 0) (demo_proc (\<lambda>_. []), []) [Poll, Callback Client_readable] (q, []) \<and>
    (\<exists>new through. wire_seen (io_world q) 7 = wire_seen (io_world (demo_proc (\<lambda>_. []))) 7 @ new \<and>
      wire_out (io_world q) 8 = wire_out (io_world (demo_proc (\<lambda>_. []))) 8 @ through \<and>
      prefix through new \<and> (pr_running q \<longrightarrow> through = new))"
  using demo_session server_gets_client_stream [OF wire_ok client_poll_ok _ demo_memory, of 8 7] by fastforce

theorem client_gets_server_stream_witness:
  "\<exists>q. runs (session_step wire_os client_poll 1 7 8 0) (demo_proc (\<lambda>_. []), []) [Poll, Callback Client_readable] (q, []) \<and>
    (\<exists>new through s. wire_seen (io_world q) 8 = wire_seen (io_world (demo_proc (\<lambda>_. []))) 8 @ new \<and>
      wire_out (io_world q) 7 = wire_out (io_world (demo_proc (\<lambda>_. []))) 7 @ s \<and>
      prefix through new \<and> subseq through s \<and> (pr_running q \<longrightarrow> through = new))"
  using demo_session client_gets_server_stream [OF wire_ok client_poll_ok _ demo_memory, of 8 7] by fastforce

section \<open>The loop ends\<close>

text \<open>
  Connections on which at most \<open>n\<close> bytes arrive in each direction before they are closed, and a poll
  that waits for at least one event.
\<close>

definition finite_input :: "('w \<Rightarrow> i32 \<Rightarrow> byte list) \<Rightarrow> nat \<Rightarrow> bool" where
  "finite_input rcvd n \<longleftrightarrow> (\<forall>w fd. length (rcvd w fd) \<le> n)"

definition poll_waits :: "'w poll \<Rightarrow> bool" where
  "poll_waits poll \<longleftrightarrow> (\<forall>w. fst (poll w) \<noteq> [])"

definition arrived :: "('w \<Rightarrow> i32 \<Rightarrow> byte list) \<Rightarrow> i32 \<Rightarrow> i32 \<Rightarrow> 'w proc \<Rightarrow> nat" where
  "arrived rcvd client_fd server_fd p =
     length (rcvd (io_world p) client_fd) + length (rcvd (io_world p) server_fd)"

lemma relayed_arrived:
  assumes "relayed n fds from_fd to_fd sent rcvd p q" "from_fd \<noteq> to_fd"
  shows "arrived rcvd from_fd to_fd p \<le> arrived rcvd from_fd to_fd q"
    "pr_running q \<longrightarrow> pr_running p \<and> arrived rcvd from_fd to_fd p < arrived rcvd from_fd to_fd q"
  using assms by (auto simp: relayed_def passed_def arrived_def)

lemma arrived_commute: "arrived rcvd a b p = arrived rcvd b a p"
  by (simp add: arrived_def)

lemma callback_arrived:
  assumes "kernel_ok os sent rcvd" "memory_ok 65535 (io_memory p)" "server_fd \<noteq> client_fd"
    "callback os fuel client_fd server_fd counter e p = Returned q"
  shows "memory_ok 65535 (io_memory q) \<and> arrived rcvd client_fd server_fd p \<le> arrived rcvd client_fd server_fd q \<and>
    (pr_running q \<longrightarrow> pr_running p \<and> arrived rcvd client_fd server_fd p < arrived rcvd client_fd server_fd q)"
proof (cases e)
  case Client_readable
  note r = client_callback_relays [OF assms(1-3) assms(4) [unfolded Client_readable]]
  then have "memory_ok 65535 (io_memory q)" unfolding relayed_def by blast
  with relayed_arrived [OF r assms(3) [symmetric]] show ?thesis by blast
next
  case Server_readable
  note r = server_callback_relays [OF assms(1,2) assms(4) [unfolded Server_readable]]
  then have "memory_ok 65535 (io_memory q)" unfolding relayed_def by blast
  with relayed_arrived [OF r assms(3)] show ?thesis
    unfolding arrived_commute [of rcvd server_fd client_fd] by blast
next
  case Sigquit
  with assms(2,4) show ?thesis by (auto simp: callback_def sigquit_cb_def arrived_def)
qed

lemma callbacks_arrived:
  assumes "kernel_ok os sent rcvd" "server_fd \<noteq> client_fd"
  shows "memory_ok 65535 (io_memory p) \<Longrightarrow> callbacks os fuel client_fd server_fd counter es p = Returned q \<Longrightarrow>
    memory_ok 65535 (io_memory q) \<and> arrived rcvd client_fd server_fd p \<le> arrived rcvd client_fd server_fd q \<and>
    (pr_running q \<longrightarrow> es \<noteq> [] \<longrightarrow> arrived rcvd client_fd server_fd p < arrived rcvd client_fd server_fd q)"
proof (induction es arbitrary: p)
  case (Cons e es)
  then obtain r where r: "callback os fuel client_fd server_fd counter e p = Returned r"
    "callbacks os fuel client_fd server_fd counter es r = Returned q" by (auto simp: and_then_Returned_iff)
  note first = callback_arrived [OF assms(1) Cons.prems(1) assms(2) r(1)]
  then have "memory_ok 65535 (io_memory r)" by blast
  note others = Cons.IH [OF this r(2)]
  show ?case
  proof (cases es)
    case Nil
    with r(2) first show ?thesis by simp
  next
    case (Cons e' es')
    with first others show ?thesis by auto
  qed
qed simp

definition session_variant :: "('w \<Rightarrow> i32 \<Rightarrow> byte list) \<Rightarrow> nat \<Rightarrow> i32 \<Rightarrow> i32 \<Rightarrow> 'w proc \<Rightarrow> nat" where
  "session_variant rcvd n client_fd server_fd p =
     (if pr_running p then 2 * n + 1 - arrived rcvd client_fd server_fd p else 0)"

interpretation session_loop: variant_loop "worker_step os poll fuel client_fd server_fd counter"
  "\<lambda>p. kernel_ok os sent rcvd \<and> poll_ok poll sent rcvd \<and> poll_waits poll \<and> finite_input rcvd n \<and>
    server_fd \<noteq> client_fd \<and> memory_ok 65535 (io_memory p)"
  "session_variant rcvd n client_fd server_fd"
  for os :: "'w os" and poll fuel client_fd server_fd counter sent rcvd n
proof unfold_locales
  fix p q :: "'w proc"
  assume inv: "kernel_ok os sent rcvd \<and> poll_ok poll sent rcvd \<and> poll_waits poll \<and> finite_input rcvd n \<and>
      server_fd \<noteq> client_fd \<and> memory_ok 65535 (io_memory p)"
    and step: "worker_step os poll fuel client_fd server_fd counter p = Again q"
  obtain es w where w: "poll (io_world p) = (es, w)" by fastforce
  have run: "pr_running p" "callbacks os fuel client_fd server_fd counter es (p\<lparr>io_world := w\<rparr>) = Returned q"
    using step w by (auto simp: worker_step_def go_on_def split: if_splits outcome.splits)
  have es: "es \<noteq> []" using inv w by (metis poll_waits_def fst_conv)
  have "rcvd w = rcvd (io_world p)" using inv w by (auto simp: poll_ok_def)
  then have same: "arrived rcvd client_fd server_fd (p\<lparr>io_world := w\<rparr>) = arrived rcvd client_fd server_fd p"
    by (simp add: arrived_def)
  have bound: "arrived rcvd client_fd server_fd q \<le> n + n"
    using inv unfolding arrived_def finite_input_def by (intro add_mono) blast+
  have "memory_ok 65535 (io_memory (p\<lparr>io_world := w\<rparr>))" using inv by simp
  note after = callbacks_arrived [OF _ _ this run(2), of sent rcvd]
  with inv show "kernel_ok os sent rcvd \<and> poll_ok poll sent rcvd \<and> poll_waits poll \<and> finite_input rcvd n \<and>
      server_fd \<noteq> client_fd \<and> memory_ok 65535 (io_memory q)" by blast
  from after inv es same bound run(1)
  show "session_variant rcvd n client_fd server_fd q < session_variant rcvd n client_fd server_fd p"
    by (auto simp: session_variant_def)
qed

text \<open>
  C13. The loop of a worker does not go round for ever: if at most \<open>n\<close> bytes arrive in each direction,
  whatever they are, and every callback that is called returns or exits, then \<open>2 * n + 2\<close> rounds are
  enough: the loop is left because the session has been ended, or the process exits in a callback. That
  a callback returns is a condition: one that decodes a length of -1 does not.
\<close>

theorem worker_loop_ends:
  assumes "kernel_ok os sent rcvd" "poll_ok poll sent rcvd" "poll_waits poll" "finite_input rcvd n"
    "server_fd \<noteq> client_fd" "memory_ok 65535 (io_memory p)" "2 * n + 1 < rounds"
    and "\<And>l q e es. runs (session_step os poll fuel client_fd server_fd counter) (p, []) l (q, e # es) \<Longrightarrow>
      callback os fuel client_fd server_fd counter e q \<noteq> Undefined \<and>
      callback os fuel client_fd server_fd counter e q \<noteq> Diverged"
  shows "case run_loop (worker_step os poll fuel client_fd server_fd counter) rounds p of
      Returned q \<Rightarrow> \<not> pr_running q
    | Exited c q \<Rightarrow> \<exists>l s e es. runs (session_step os poll fuel client_fd server_fd counter) (p, []) l (s, e # es) \<and>
        callback os fuel client_fd server_fd counter e s = Exited c q
    | _ \<Rightarrow> False"
proof -
  have "session_variant rcvd n client_fd server_fd p < rounds"
    using assms(7) by (simp add: session_variant_def less_imp_diff_less)
  from session_loop.enough_fuel [OF _ this, of os sent poll fuel counter] assms(1-6) obtain r where
    r: "loop (worker_step os poll fuel client_fd server_fd counter) rounds p = Some r" by blast
  show ?thesis
  proof (cases r)
    case (Returned q)
    with r loop_runs [of os poll fuel client_fd server_fd counter rounds p] show ?thesis by (auto simp: run_loop_def)
  qed (use r loop_left [OF r] assms(8) in \<open>fastforce simp: run_loop_def\<close>)+
qed

text \<open>For the witness: sockets on which at most \<open>n\<close> bytes arrive.\<close>

definition capped_os :: "nat \<Rightarrow> wire os" where
  "capped_os n = wire_os\<lparr>os_read := \<lambda>fd m w.
     let r = n - length (wire_seen w fd)
     in if r = 0 then (Got [], w) else os_read wire_os fd (min m r) w\<rparr>"

definition capped_seen :: "nat \<Rightarrow> wire \<Rightarrow> i32 \<Rightarrow> byte list" where
  "capped_seen n w fd = take n (wire_seen w fd)"

lemma capped_ok: "kernel_ok (capped_os n) wire_out (capped_seen n)"
proof -
  have wr: "os_write (capped_os n) = os_write wire_os" by (simp add: capped_os_def)
  have "length bytes \<le> m \<and> wire_out w' = wire_out w \<and>
      capped_seen n w' = (capped_seen n w)(fd := capped_seen n w fd @ bytes)"
    if rd: "os_read (capped_os n) fd m w = (Got bytes, w')" for fd m w bytes w'
  proof (cases "n \<le> length (wire_seen w fd)")
    case True
    with rd show ?thesis by (auto simp: capped_os_def capped_seen_def)
  next
    case False
    let ?m = "min m (n - length (wire_seen w fd))"
    have "os_read wire_os fd ?m w = (Got bytes, w')" using rd False by (simp add: capped_os_def Let_def)
    note k = kernel_read [OF wire_ok this]
    with False have "take n (wire_seen w fd @ bytes) = wire_seen w fd @ bytes" by simp
    with k False show ?thesis by (auto simp: capped_seen_def fun_eq_iff)
  qed
  moreover have "wire_out w' = wire_out w \<and> capped_seen n w' = capped_seen n w"
    if "os_read (capped_os n) fd m w = (Read_failed e, w')" for fd m w e w'
    using that by (auto simp: capped_os_def Let_def wire_os_def split: if_splits list.splits)
  moreover have "na \<le> length bytes \<and> wire_out w' = (wire_out w)(fd := wire_out w fd @ take na bytes) \<and>
      capped_seen n w' = capped_seen n w"
    if "os_write wire_os fd bytes w = (Wrote na, w')" for fd bytes w na w'
    using kernel_write [OF wire_ok that] by (simp add: capped_seen_def fun_eq_iff)
  moreover have "wire_out w' = wire_out w \<and> capped_seen n w' = capped_seen n w"
    if "os_write wire_os fd bytes w = (Write_failed e, w')" for fd bytes w e w'
    using kernel_write_failed [OF wire_ok that] by (simp add: capped_seen_def fun_eq_iff)
  ultimately show ?thesis unfolding kernel_ok_def wr by blast
qed

text \<open>A client that closes its connection at once is called back once.\<close>

lemma closed_reachable:
  fixes os :: "wire os"
  assumes "callback os 1 7 8 0 Client_readable (demo_proc (\<lambda>_. [])) = Returned q" "\<not> pr_running q"
    "runs (session_step os client_poll 1 7 8 0) (demo_proc (\<lambda>_. []), []) l (s, e # es)"
  shows "s = demo_proc (\<lambda>_. []) \<and> e = Client_readable"
proof -
  let ?step = "session_step os client_poll 1 7 8 0" and ?p = "demo_proc (\<lambda>_. [])"
  have stuck: "\<not> runs ?step (q, []) l' (s, e # es)" for l'
    using assms(2) by (auto elim!: session_stepE dest: runs.cases elim: runs.cases)
  show ?thesis
    using assms(3)
  proof cases
    case (runs_Cons e1 t es1)
    from runs_Cons(2) have t: "t = (?p, [Client_readable])"
      by (auto elim!: session_stepE simp: client_poll_def)
    from runs_Cons(3) [unfolded t] show ?thesis
    proof cases
      case (runs_Cons e2 u es2)
      from runs_Cons(2) have "u = (q, [])" using assms(1) by (auto elim!: session_stepE)
      with stuck runs_Cons(3) show ?thesis by simp
    qed simp
  qed
qed

theorem worker_loop_ends_witness:
  "case run_loop (worker_step (capped_os 0) client_poll 1 7 8 0) 2 (demo_proc (\<lambda>_. [])) of
      Returned q \<Rightarrow> \<not> pr_running q
    | Exited c q \<Rightarrow> \<exists>l s e es. runs (session_step (capped_os 0) client_poll 1 7 8 0) (demo_proc (\<lambda>_. []), []) l (s, e # es) \<and>
        callback (capped_os 0) 1 7 8 0 e s = Exited c q
    | _ \<Rightarrow> False"
proof (rule worker_loop_ends [OF capped_ok client_poll_ok, of 0 0])
  from demo_closed [of "capped_os 0"] obtain q where
    q: "callback (capped_os 0) 1 7 8 0 Client_readable (demo_proc (\<lambda>_. [])) = Returned q" "\<not> pr_running q"
    by (auto simp: capped_os_def wire_start_def)
  fix l s e es
  assume "runs (session_step (capped_os 0) client_poll 1 7 8 0) (demo_proc (\<lambda>_. []), []) l (s, e # es)"
  from closed_reachable [OF q this] q(1)
  show "callback (capped_os 0) 1 7 8 0 e s \<noteq> Undefined \<and> callback (capped_os 0) 1 7 8 0 e s \<noteq> Diverged" by simp
qed (simp_all add: poll_waits_def client_poll_def finite_input_def capped_seen_def memory_ok_def wire_io_def)

section \<open>What a worker gives back\<close>

text \<open>What the calls before, between and behind the callbacks keep.\<close>

definition seated :: "'w proc \<Rightarrow> 'w proc \<Rightarrow> bool" where
  "seated p q \<longleftrightarrow> same_seat p q \<and> io_memory q = io_memory p"

lemma seated_refl [simp]: "seated p p"
  by (simp add: seated_def)

lemma seated_trans: "seated p q \<Longrightarrow> seated q r \<Longrightarrow> seated p r"
  using same_seat_trans by (auto simp: seated_def)

lemma seated_upd [simp]:
  "seated p (q\<lparr>io_errno := e\<rparr>) = seated p q" "seated p (q\<lparr>io_world := w\<rparr>) = seated p q"
  "seated p (q\<lparr>pr_logs := lg\<rparr>) = seated p q" "seated p (q\<lparr>pr_files := fs\<rparr>) = seated p q"
  "seated p (lock_log q) = seated p q" "seated p (unlock_log q) = seated p q"
  by (simp_all add: seated_def same_seat_def lock_log_def unlock_log_def)

text \<open>The calls of \<open>pgprtdbg_connect\<close> and \<open>pgprtdbg_disconnect\<close>, by what they make of the world.\<close>

inductive net_call :: "'w net \<Rightarrow> 'w \<Rightarrow> 'w \<Rightarrow> bool" for net :: "'w net" and w :: 'w where
  "net_call net w (snd (net_getaddrinfo net h s b w))"
| "net_call net w (snd (net_socket net a w))"
| "net_call net w (snd (net_setsockopt net fd opt v w))"
| "net_call net w (snd (net_connect net fd a w))"
| "net_call net w (snd (net_close net fd w))"

text \<open>
  The interface of a property of processes that these calls keep, as do logging, \<open>errno\<close> and the
  traffic files: then connecting, disconnecting and choosing the engine keep it.
\<close>

locale quiet_calls =
  fixes net :: "'w net" and P :: "'w proc \<Rightarrow> bool"
  assumes world: "P p \<Longrightarrow> net_call net (io_world p) w \<Longrightarrow> P (p\<lparr>io_world := w\<rparr>)"
    and kept: "P (p\<lparr>io_errno := e\<rparr>) = P p" "P (p\<lparr>pr_logs := lg\<rparr>) = P p" "P (p\<lparr>pr_files := fs\<rparr>) = P p"
    and locks: "P (lock_log p) = P p" "P (unlock_log p) = P p"
begin

lemma log_to_keeps: "P p \<Longrightarrow> ends P E (log_to items p)"
  by (auto simp: log_to_def kept split: option.splits)

lemma say_keeps: "P p \<Longrightarrow> ends P E (say item p)"
  unfolding say_def by (rule ends_then [OF log_to_keeps]) (simp_all add: locks)

lemma log_client_keeps: "P p \<Longrightarrow> ends P E (log_client what fd p)"
  unfolding log_client_def by (rule ends_then [OF log_to_keeps]) (simp_all add: locks)

lemma marker_keeps:
  "P p \<Longrightarrow> ends P E (save_begin_marker os p)" "P p \<Longrightarrow> ends P E (save_end_marker os p)"
  by (simp_all add: save_begin_marker_def save_end_marker_def append_file_def kept)

lemma call_keeps: "call f p = (r, q) \<Longrightarrow> P p \<Longrightarrow> (\<And>w. net_call net w (snd (f w))) \<Longrightarrow> P q"
  by (erule call_cases) (metis kept(1) world snd_conv)+

lemma disconnect_keeps: "P p \<Longrightarrow> P (snd (disconnect net fd p))"
  by (auto simp: disconnect_def split: option.split prod.split dest: call_keeps intro: net_call.intros)

lemma give_up_keeps: "P p \<Longrightarrow> ends (\<lambda>(rv, fd, q). P q) E (give_up os net what fd p)"
  unfolding give_up_def by (rule ends_then [OF say_keeps]) (auto intro: disconnect_keeps)

lemma set_options_keeps:
  "(\<And>q. P q \<Longrightarrow> ends (\<lambda>(rv, fd, q). P q) E (rest q)) \<Longrightarrow> P p \<Longrightarrow>
    ends (\<lambda>(rv, fd, q). P q) E (set_options os net fd opts p rest)"
proof (induction opts arbitrary: p)
  case (Cons opt_v opts)
  obtain opt v what where o: "opt_v = (opt, v, what)" by (cases opt_v)
  obtain r q where c: "call (net_setsockopt net fd opt v) p = (r, q)" by fastforce
  note q = call_keeps [OF c Cons.prems(2) net_call.intros(3)]
  show ?case using c Cons.IH [OF Cons.prems(1) q] give_up_keeps [OF q] by (simp add: o split: option.split)
qed simp

lemma connect_loop_keeps:
  assumes "P p"
  shows "ends (\<lambda>(rv, fd, q). P q) E (connect_loop os net fd addrs p)"
proof (cases addrs)
  case Nil
  then show ?thesis by (auto intro!: ends_then [OF say_keeps [OF assms]])
next
  case (Cons a as)
  obtain r s where c: "call (net_socket net (Some a)) p = (r, s)" by fastforce
  note s = call_keeps [OF c assms net_call.intros(2)]
  show ?thesis
  proof (cases r)
    case None
    then show ?thesis using Cons c by (auto intro!: ends_then [OF say_keeps [OF s]])
  next
    case (Some fd)
    have "ends (\<lambda>(rv, fd, q). P q) E (case call (net_connect net fd a) t of
        (None, p) \<Rightarrow> give_up os net [] fd p | (Some _, p) \<Rightarrow> Returned (0, fd, p))" if "P t" for t
      using that
      by (auto split: prod.split option.split intro: give_up_keeps dest: call_keeps [OF _ _ net_call.intros(4)])
    from set_options_keeps [OF this s] Some Cons c show ?thesis by simp
  qed
qed

lemma connect_keeps: "P p \<Longrightarrow> ends (\<lambda>(rv, fd, q). P q) E (connect os net hostname port fd p)"
proof -
  assume p: "P p"
  have "P (p\<lparr>io_world := w\<rparr>)" if "net_getaddrinfo net h s b (io_world p) = (r, w)" for h s b r w
    using world [OF p net_call.intros(1)] that by (metis snd_conv)
  then show ?thesis
    by (auto simp: connect_def intro: connect_loop_keeps split: option.split prod.split sum.split)
qed

lemma libev_keeps: "P p \<Longrightarrow> ends (\<lambda>(v, q). P q) E (libev ev engine p)"
proof -
  assume p: "P p"
  have "ends (\<lambda>(v, q). P q) E (complain v item p)" for v item
    unfolding complain_def by (rule ends_then [OF log_to_keeps]) (simp_all add: locks p)
  with p show ?thesis by (simp add: libev_def ask_def split: option.split)
qed

end

interpretation seat: quiet_calls net "seated p0" for net :: "'w net" and p0
  by unfold_locales simp_all

lemma connect_new:
  assumes "\<forall>a w w'. net_socket net a w \<noteq> (Inr client_fd, w')"
  shows "ends (\<lambda>(rv, fd, q). rv = 0 \<longrightarrow> fd \<noteq> client_fd) E (connect os net hostname port fd p)"
proof -
  let ?P = "\<lambda>(rv, fd, q). rv = (0 :: int) \<longrightarrow> fd \<noteq> client_fd"
  have failed: "ends ?P E (and_then (say item q) (\<lambda>p. Returned (1, fd, g p)))" for item q fd g
    by (rule ends_then [where P = "\<lambda>_. True"]) (auto simp: say_def log_to_def split: option.split)
  have opts: "ends ?P E (set_options os net s opts q rest)"
    if "\<And>q. ends ?P E (rest q)" for s opts q rest
    using that by (induction opts arbitrary: q) (auto simp: give_up_def failed split: option.split prod.split)
  have "ends ?P E (connect_loop os net fd addrs q)" for addrs q
  proof (cases addrs)
    case (Cons a as)
    obtain r s where c: "call (net_socket net (Some a)) q = (r, s)" by fastforce
    show ?thesis
    proof (cases r)
      case (Some fd)
      then have "fd \<noteq> client_fd" using assms c by (auto elim: call_cases)
      then have "ends ?P E (case call (net_connect net fd a) t of
          (None, p) \<Rightarrow> give_up os net [] fd p | (Some _, p) \<Rightarrow> Returned (0, fd, p))" for t
        by (auto simp: give_up_def failed split: prod.split option.split)
      from opts [OF this] Some Cons c show ?thesis by simp
    qed (use Cons c failed in simp)
  qed (simp add: failed)
  then show ?thesis by (auto simp: connect_def split: option.split prod.split sum.split)
qed

text \<open>The callbacks, the loop and the session.\<close>

definition session_keeps :: "'w proc \<Rightarrow> 'w proc \<Rightarrow> bool" where
  "session_keeps p0 p \<longleftrightarrow> memory_ok 65535 (io_memory p) \<and> same_seat p0 p"

lemma callback_keeps:
  assumes "kernel_ok os sent rcvd" "server_fd \<noteq> client_fd" "session_keeps p0 p"
  shows "ends (session_keeps p0) (same_seat p0) (callback os fuel client_fd server_fd counter e p)"
proof -
  have mem: "memory_ok 65535 (io_memory p)" and seat: "same_seat p0 p"
    using assms(3) by (simp_all add: session_keeps_def)
  have "ends (\<lambda>(b, q). session_keeps p0 q) (same_seat p0) (case e of
      Client_readable \<Rightarrow> pipeline_client os fuel client_fd server_fd counter p
    | Server_readable \<Rightarrow> pipeline_server os fuel client_fd server_fd counter p
    | Sigquit \<Rightarrow> sigquit_cb p)"
  proof (cases e)
    case Client_readable
    from pipeline_client_relays [OF assms(1) mem _ assms(2), of fuel counter]
    have "ends (\<lambda>(b, q). session_keeps p0 q) (same_seat p0) (pipeline_client os fuel client_fd server_fd counter p)"
      by (rule ends_mono)
        (use same_seat_trans [OF seat] in \<open>auto simp: relayed_def cut_off_def session_keeps_def\<close>)
    with Client_readable show ?thesis by simp
  next
    case Server_readable
    from pipeline_server_relays [OF assms(1) mem, of server_fd client_fd fuel counter]
    have "ends (\<lambda>(b, q). session_keeps p0 q) (same_seat p0) (pipeline_server os fuel client_fd server_fd counter p)"
      by (rule ends_mono)
        (use same_seat_trans [OF seat] in \<open>auto simp: relayed_def cut_off_def session_keeps_def\<close>)
    with Server_readable show ?thesis by simp
  qed (use mem seat in \<open>simp add: sigquit_cb_def session_keeps_def\<close>)
  then show ?thesis unfolding callback_def by (rule ends_then) auto
qed

lemma callbacks_keep:
  assumes "kernel_ok os sent rcvd" "server_fd \<noteq> client_fd"
  shows "session_keeps p0 p \<Longrightarrow>
    ends (session_keeps p0) (same_seat p0) (callbacks os fuel client_fd server_fd counter es p)"
  by (induction es arbitrary: p) (auto intro: ends_then [OF callback_keeps [OF assms]])

lemma worker_session_keeps:
  assumes "kernel_ok os sent rcvd" "server_fd \<noteq> client_fd" "memory_ok 65535 (io_memory p)"
  shows "ends (same_seat (add_active 1 p)) (same_seat (add_active 1 p))
    (worker_session os ev poll fuel client_fd server_fd counter p)"
  unfolding worker_session_def
proof (rule ends_then [OF seat.libev_keeps [OF seated_refl]])
  fix r :: "i32 \<times> 'a proc"
  obtain v q where r: "r = (v, q)" by (cases r)
  assume "case r of (v, q) \<Rightarrow> seated (add_active 1 p) q"
  then have q: "session_keeps (add_active 1 p) q"
    using assms(3) by (simp add: r seated_def session_keeps_def add_active_def)
  have "ends (same_seat (add_active 1 p)) (same_seat (add_active 1 p))
      (run_loop (worker_step os poll fuel client_fd server_fd counter) fuel q)"
  proof (rule ends_run_loop [where J = "session_keeps (add_active 1 p)", OF _ q])
    fix s assume s: "session_keeps (add_active 1 p) s"
    obtain es w where w: "poll (io_world s) = (es, w)" by fastforce
    have "session_keeps (add_active 1 p) (s\<lparr>io_world := w\<rparr>)" using s by (simp add: session_keeps_def)
    note cb = callbacks_keep [OF assms(1,2) this, of fuel counter es]
    show "case worker_step os poll fuel client_fd server_fd counter s of
        Again t \<Rightarrow> session_keeps (add_active 1 p) t
      | Stop x \<Rightarrow> ends (same_seat (add_active 1 p)) (same_seat (add_active 1 p)) x"
      using cb s w by (cases "callbacks os fuel client_fd server_fd counter es (s\<lparr>io_world := w\<rparr>)")
        (auto simp: worker_step_def go_on_def session_keeps_def)
  qed
  then show "ends (same_seat (add_active 1 p)) (same_seat (add_active 1 p))
      (case r of (_, p) \<Rightarrow> run_loop (worker_step os poll fuel client_fd server_fd counter) fuel p)"
    by (simp add: r)
qed

text \<open>The start and the end of the process.\<close>

lemma worker_start_keeps:
  assumes "0 \<le> sint (cfg_buffer_size (pr_config p))" "sint (cfg_buffer_size (pr_config p)) \<le> 65535"
    "mem_data (io_memory p) = None"
  shows "ends (session_keeps (set_pids (replace_first 0 (pr_pid p)) p)) E (worker_start os client_fd p)"
proof -
  let ?q = "open_log os p"
  have q: "pr_config ?q = pr_config p" "io_memory ?q = io_memory p" "pr_pid ?q = pr_pid p"
    by (simp_all add: open_log_def)
  from memory_init_ok [OF assms(1,3)] obtain m where
    m: "memory_init (pr_config p) (io_memory p) = Some m" "memory_ok (nat (sint (cfg_buffer_size (pr_config p)))) m"
    by blast
  have "memory_ok 65535 m" using m(2) assms(2) by (auto simp: memory_ok_def)
  let ?r = "set_pids (replace_first 0 (pr_pid ?q)) (?q\<lparr>io_memory := m\<rparr>)"
  have "ends (seated ?r) E (and_then (log_client ''Start'' client_fd ?r) (\<lambda>p.
      if cfg_save_traffic (pr_config p) then save_begin_marker os p else Returned p))"
    by (rule ends_then [OF seat.log_client_keeps [OF seated_refl]]) (auto intro: seat.marker_keeps)
  moreover have "session_keeps (set_pids (replace_first 0 (pr_pid p)) p) s" if "seated ?r s" for s
    using that q \<open>memory_ok 65535 m\<close>
    by (simp add: seated_def session_keeps_def same_seat_def set_pids_def)
  ultimately show ?thesis
    unfolding worker_start_def Let_def q m(1) by (auto simp: q elim: ends_mono)
qed

lemma same_seatD:
  assumes "same_seat p q"
  shows "cfg_pids (pr_config q) = cfg_pids (pr_config p)"
    "cfg_active_connections (pr_config q) = cfg_active_connections (pr_config p)" "pr_pid q = pr_pid p"
  using assms settings_eqD(1,2) unfolding same_seat_def by blast+

lemma same_seat_active:
  assumes "same_seat p q"
  shows "same_seat (add_active n p) (add_active n q)"
proof -
  have "settings (c\<lparr>cfg_active_connections := cfg_active_connections c + n\<rparr>) =
      settings (d\<lparr>cfg_active_connections := cfg_active_connections d + n\<rparr>)" if "settings c = settings d" for c d
    using that by (cases c; cases d) (simp add: settings_def)
  note active = this [of "pr_config q" "pr_config p"]
  show ?thesis using assms active by (simp add: same_seat_def add_active_def)
qed

definition left_behind :: "'w proc \<Rightarrow> bool \<Rightarrow> 'w proc \<Rightarrow> bool" where
  "left_behind p connected q \<longleftrightarrow>
     cfg_pids (pr_config q) = replace_first (pr_pid p) 0 (cfg_pids (pr_config p)) \<and>
     cfg_active_connections (pr_config q) =
       cfg_active_connections (pr_config p) - (if connected then 1 else 0)"

lemma worker_end_keeps:
  "ends (\<lambda>_. False) (left_behind p connected) (worker_end os net client_fd server_fd connected p)"
  unfolding worker_end_def
proof (rule ends_then [OF seat.log_client_keeps [OF seated_refl]], rule ends_then)
  fix q assume q: "seated p q"
  then show "ends (seated p) (left_behind p connected)
      (if cfg_save_traffic (pr_config q) then save_end_marker os q else Returned q)"
    by (auto intro: seat.marker_keeps)
next
  fix q assume "seated p q"
  then have "seated p (snd (disconnect net server_fd (snd (disconnect net client_fd q))))"
    by (intro seat.disconnect_keeps)
  then have s: "settings (pr_config (snd (disconnect net server_fd (snd (disconnect net client_fd q))))) = settings (pr_config p)"
    "pr_pid (snd (disconnect net server_fd (snd (disconnect net client_fd q)))) = pr_pid p"
    by (simp_all add: seated_def same_seat_def)
  note facts = s(2) settings_eqD(1,2) [OF s(1)]
  show "ends (\<lambda>_. False) (left_behind p connected)
     (let p = snd (disconnect net client_fd q); p = snd (disconnect net server_fd p);
          p = set_pids (replace_first (pr_pid p) 0) p; p = (if connected then add_active (- 1) p else p);
          p = p\<lparr>io_memory := memory_destroy (io_memory p)\<rparr>
      in and_then (defined (stop_logging (pr_config p) (pr_logs p))) (\<lambda>lg.
         Exited (pr_exit_code p) (p\<lparr>pr_logs := lg\<rparr>)))"
    unfolding Let_def
    by (rule ends_then [where P = "\<lambda>_. True"])
      (use facts in \<open>simp_all add: ends_defined left_behind_def set_pids_def add_active_def\<close>)
qed

lemma replace_back: "a \<notin> set xs \<Longrightarrow> replace_first a b (replace_first b a xs) = xs"
  by (induction xs) auto

lemma replace_absent: "a \<notin> set xs \<Longrightarrow> replace_first a b xs = xs"
  by (induction xs) auto

text \<open>
  A process that has ended as \<open>q\<close> has given its place back, or it has not and is still counted. The
  state behind the registration is \<open>registered p\<close>.
\<close>

definition given_back :: "'w proc \<Rightarrow> 'w proc \<Rightarrow> bool" where
  "given_back p q \<longleftrightarrow> cfg_pids (pr_config q) = cfg_pids (pr_config p) \<and>
     cfg_active_connections (pr_config q) = cfg_active_connections (pr_config p)"

definition still_counted :: "'w proc \<Rightarrow> 'w proc \<Rightarrow> bool" where
  "still_counted p q \<longleftrightarrow> cfg_pids (pr_config q) = replace_first 0 (pr_pid p) (cfg_pids (pr_config p)) \<and>
     cfg_active_connections (pr_config q) = cfg_active_connections (pr_config p) + 1"

definition registered :: "'w proc \<Rightarrow> 'w proc" where
  "registered p = set_pids (replace_first 0 (pr_pid p)) (p\<lparr>pr_running := True, pr_exit_code := WORKER_FAILURE\<rparr>)"

lemma worker_end_gives_back:
  assumes "pr_pid p \<notin> set (cfg_pids (pr_config p))"
    "same_seat (if connected then add_active 1 (registered p) else registered p) q"
  shows "ends (\<lambda>_. False) (given_back p) (worker_end os net client_fd server_fd connected q)"
proof (rule ends_mono [OF worker_end_keeps])
  fix r assume r: "left_behind q connected r"
  have "cfg_pids (pr_config q) = replace_first 0 (pr_pid p) (cfg_pids (pr_config p))"
    "cfg_active_connections (pr_config q) = cfg_active_connections (pr_config p) + (if connected then 1 else 0)"
    "pr_pid q = pr_pid p"
    using same_seatD [OF assms(2)] by (cases connected; simp add: registered_def set_pids_def add_active_def)+
  with r assms(1) show "given_back p r"
    unfolding given_back_def left_behind_def by (cases connected) (simp_all add: replace_back)
qed simp

lemma connect_seated:
  assumes "\<forall>a w w'. net_socket net a w \<noteq> (Inr client_fd, w')" "session_keeps p0 q"
  shows "ends (\<lambda>(rv, fd, r). session_keeps p0 r \<and> (rv = 0 \<longrightarrow> fd \<noteq> client_fd)) E
    (connect os net hostname port fd q)"
  by (rule ends_mono [OF ends_conj [OF seat.connect_keeps [OF seated_refl] connect_new [OF assms(1)]]])
    (use assms(2) same_seat_trans in \<open>auto simp: seated_def session_keeps_def\<close>)

text \<open>The worker's process ends, or something is undefined or endless, but it never returns.\<close>

lemma ends_any: "ends (\<lambda>_. True) (\<lambda>_. True) r"
  by (cases r) simp_all

lemma worker_end_never: "ends (\<lambda>_. False) (\<lambda>_. True) (worker_end os net client_fd server_fd c p)"
  by (rule ends_mono [OF worker_end_keeps]) simp_all

lemma worker_never_returns: "worker os net ev poll fuel client_fd n p \<noteq> Returned q"
proof -
  have "ends (\<lambda>_. False) (\<lambda>_. True) (worker os net ev poll fuel client_fd n p)"
    unfolding worker_def Let_def
  proof (rule ends_then [OF ends_any], rule ends_then [OF ends_any])
    fix p and x :: "int \<times> i32 \<times> 'a proc"
    obtain rv s q where x: "x = (rv, s, q)" by (cases x)
    show "ends (\<lambda>_. False) (\<lambda>_. True) (case x of (rv, server_fd, p) \<Rightarrow>
        if rv = 0 then and_then (worker_session os ev poll fuel client_fd server_fd n p)
          (worker_end os net client_fd server_fd True)
        else worker_end os net client_fd server_fd False p)"
      unfolding x prod.case
      by (cases "rv = 0") (simp_all add: worker_end_never ends_then [OF ends_any worker_end_never])
  qed
  then show ?thesis by auto
qed

text \<open>
  The session begins: the worker has started, and \<open>pgprtdbg_connect\<close> has given \<open>rv\<close> and \<open>server_fd\<close>. A
  session that \<open>exit\<close> ends has connected before.
\<close>

definition session_begins :: "'w os \<Rightarrow> 'w net \<Rightarrow> i32 \<Rightarrow> 'w proc \<Rightarrow> int \<Rightarrow> i32 \<Rightarrow> 'w proc \<Rightarrow> bool" where
  "session_begins os net client_fd p rv server_fd s \<longleftrightarrow>
     (\<exists>s0. worker_start os client_fd (p\<lparr>pr_running := True, pr_exit_code := WORKER_FAILURE\<rparr>) = Returned s0 \<and>
       connect os net (cstr (srv_host (cfg_server (pr_config s0)))) (srv_port (cfg_server (pr_config s0))) (- 1) s0 =
         Returned (rv, server_fd, s))"

definition session_exits :: "'w os \<Rightarrow> 'w net \<Rightarrow> ev_api \<Rightarrow> 'w poll \<Rightarrow> nat \<Rightarrow> i32 \<Rightarrow> nat \<Rightarrow> 'w proc \<Rightarrow>
    int \<Rightarrow> 'w proc \<Rightarrow> bool" where
  "session_exits os net ev poll fuel client_fd client_number p c q \<longleftrightarrow>
     (\<exists>server_fd s. session_begins os net client_fd p 0 server_fd s \<and>
       worker_session os ev poll fuel client_fd server_fd client_number s = Exited c q)"

lemma session_begins_unique:
  "session_begins os net client_fd p rv fd s \<Longrightarrow> session_begins os net client_fd p rv' fd' s' \<Longrightarrow>
    rv' = rv \<and> fd' = fd \<and> s' = s"
  by (auto simp: session_begins_def)

lemma worker_begins:
  assumes "\<forall>a w w'. net_socket net a w \<noteq> (Inr client_fd, w')"
    "0 \<le> sint (cfg_buffer_size (pr_config p))" "sint (cfg_buffer_size (pr_config p)) \<le> 65535"
    "mem_data (io_memory p) = None" "worker os net ev poll fuel client_fd client_number p = Exited c q"
  obtains rv fd s where "session_begins os net client_fd p rv fd s" "session_keeps (registered p) s"
    "rv = 0 \<longrightarrow> fd \<noteq> client_fd"
    "(if rv = 0
      then and_then (worker_session os ev poll fuel client_fd fd client_number s) (worker_end os net client_fd fd True)
      else worker_end os net client_fd fd False s) = Exited c q"
proof -
  let ?p = "p\<lparr>pr_running := True, pr_exit_code := WORKER_FAILURE\<rparr>"
  have "ends (session_keeps (registered p)) (\<lambda>_. False) (worker_start os client_fd ?p)"
    using worker_start_keeps [of ?p "\<lambda>_. False" os client_fd] assms(2-4) by (simp add: registered_def)
  then obtain s0 where s0: "worker_start os client_fd ?p = Returned s0" "session_keeps (registered p) s0"
    using assms(5) unfolding worker_def by (cases "worker_start os client_fd ?p") simp_all
  let ?connect = "connect os net (cstr (srv_host (cfg_server (pr_config s0)))) (srv_port (cfg_server (pr_config s0))) (- 1) s0"
  have conn: "ends (\<lambda>(rv, fd, r). session_keeps (registered p) r \<and> (rv = 0 \<longrightarrow> fd \<noteq> client_fd)) (\<lambda>_. False) ?connect"
    by (rule connect_seated [OF assms(1) s0(2)])
  obtain rv fd s where c: "?connect = Returned (rv, fd, s)"
    using assms(5) conn unfolding worker_def s0(1) and_then.simps Let_def by (cases ?connect) auto
  have "session_begins os net client_fd p rv fd s" using s0(1) c by (simp add: session_begins_def)
  moreover have "session_keeps (registered p) s" "rv = 0 \<longrightarrow> fd \<noteq> client_fd" using conn c by simp_all
  moreover have "(if rv = 0
      then and_then (worker_session os ev poll fuel client_fd fd client_number s) (worker_end os net client_fd fd True)
      else worker_end os net client_fd fd False s) = Exited c q"
    using assms(5) unfolding worker_def s0(1) and_then.simps Let_def c by simp
  ultimately show thesis by (rule that)
qed

text \<open>
  What has become of the place of a process that has ended as \<open>q\<close>: it has been given back, or it has
  not and is still counted, when the session was ended by \<open>exit\<close>.
\<close>

lemma worker_accounts:
  assumes "kernel_ok os sent rcvd" "\<forall>a w w'. net_socket net a w \<noteq> (Inr client_fd, w')"
    "0 \<le> sint (cfg_buffer_size (pr_config p))" "sint (cfg_buffer_size (pr_config p)) \<le> 65535"
    "mem_data (io_memory p) = None" "pr_pid p \<notin> set (cfg_pids (pr_config p))"
    "worker os net ev poll fuel client_fd client_number p = Exited c q"
  shows "if session_exits os net ev poll fuel client_fd client_number p c q then still_counted p q else given_back p q"
proof -
  obtain rv fd s where s: "session_begins os net client_fd p rv fd s" "session_keeps (registered p) s"
    "rv = 0 \<longrightarrow> fd \<noteq> client_fd"
    "(if rv = 0
      then and_then (worker_session os ev poll fuel client_fd fd client_number s) (worker_end os net client_fd fd True)
      else worker_end os net client_fd fd False s) = Exited c q"
    by (rule worker_begins [OF assms(2-5,7)])
  have exits: "session_exits os net ev poll fuel client_fd client_number p c q \<longleftrightarrow>
      rv = 0 \<and> worker_session os ev poll fuel client_fd fd client_number s = Exited c q"
    unfolding session_exits_def using s(1) session_begins_unique [OF s(1)] by metis
  show ?thesis
  proof (cases "rv = 0")
    case True
    have mem: "memory_ok 65535 (io_memory s)" and seat: "same_seat (add_active 1 (registered p)) (add_active 1 s)"
      using s(2) by (simp_all add: session_keeps_def same_seat_active)
    from worker_session_keeps [OF assms(1) _ mem] s(3) True
    have keeps: "ends (same_seat (add_active 1 s)) (same_seat (add_active 1 s))
        (worker_session os ev poll fuel client_fd fd client_number s)" by simp
    show ?thesis
    proof (cases "worker_session os ev poll fuel client_fd fd client_number s")
      case (Returned r)
      with keeps same_seat_trans [OF seat] have "same_seat (add_active 1 (registered p)) r" by simp
      then have "ends (\<lambda>_. False) (given_back p) (worker_end os net client_fd fd True r)"
        by (intro worker_end_gives_back [OF assms(6)]) simp
      with s(4) True Returned exits show ?thesis by simp
    next
      case (Exited d r)
      with keeps same_seat_trans [OF seat] have "same_seat (add_active 1 (registered p)) r" by simp
      from same_seatD [OF this] s(4) True Exited exits show ?thesis
        by (simp add: still_counted_def registered_def set_pids_def add_active_def)
    qed (use s(4) True in simp_all)
  next
    case False
    have "ends (\<lambda>_. False) (given_back p) (worker_end os net client_fd fd False s)"
      using s(2) by (intro worker_end_gives_back [OF assms(6)]) (simp add: session_keeps_def)
    with False s(4) exits show ?thesis by simp
  qed
qed

text \<open>
  C22. A worker never returns to its caller. When its process ends, its entry among the process ids and
  its part of the number of active connections have been given back, unless the session with the
  server was ended by \<open>exit\<close>: then its entry stays, and the connection is counted for ever.
\<close>

theorem worker_gives_back:
  assumes "kernel_ok os sent rcvd" "\<forall>a w w'. net_socket net a w \<noteq> (Inr client_fd, w')"
    "0 \<le> sint (cfg_buffer_size (pr_config p))" "sint (cfg_buffer_size (pr_config p)) \<le> 65535"
    "mem_data (io_memory p) = None" "pr_pid p \<notin> set (cfg_pids (pr_config p))"
  shows "case worker os net ev poll fuel client_fd client_number p of
      Returned q \<Rightarrow> False
    | Exited c q \<Rightarrow>
        if session_exits os net ev poll fuel client_fd client_number p c q
        then cfg_pids (pr_config q) = replace_first 0 (pr_pid p) (cfg_pids (pr_config p)) \<and>
          cfg_active_connections (pr_config q) = cfg_active_connections (pr_config p) + 1
        else cfg_pids (pr_config q) = cfg_pids (pr_config p) \<and>
          cfg_active_connections (pr_config q) = cfg_active_connections (pr_config p)
    | _ \<Rightarrow> True"
  using worker_accounts [OF assms, of ev poll fuel client_number]
  by (auto simp: worker_never_returns given_back_def still_counted_def split: outcome.split if_splits)

lemma host_kernel_ok:
  assumes "kernel_ok os sent rcvd"
  shows "kernel_ok (host_os os) (sent \<circ> fst) (rcvd \<circ> fst)"
  unfolding kernel_ok_def host_os_def
  by (auto split: prod.splits dest: kernel_write [OF assms] kernel_write_failed [OF assms]
      kernel_read [OF assms] kernel_read_failed [OF assms])

definition fresh_worker :: "(wire \<times> i32 list) proc" where
  "fresh_worker = (host_proc (\<lambda>_. []) [9])\<lparr>io_memory := memory_destroy (io_memory (host_proc (\<lambda>_. []) [9]))\<rparr>"

theorem worker_gives_back_witness:
  "case worker (host_os wire_os) host_net demo_ev client_poll 20 9 0 fresh_worker of
      Returned q \<Rightarrow> False
    | Exited c q \<Rightarrow>
        if session_exits (host_os wire_os) host_net demo_ev client_poll 20 9 0 fresh_worker c q
        then cfg_pids (pr_config q) = replace_first 0 (pr_pid fresh_worker) (cfg_pids (pr_config fresh_worker)) \<and>
          cfg_active_connections (pr_config q) = cfg_active_connections (pr_config fresh_worker) + 1
        else cfg_pids (pr_config q) = cfg_pids (pr_config fresh_worker) \<and>
          cfg_active_connections (pr_config q) = cfg_active_connections (pr_config fresh_worker)
    | _ \<Rightarrow> True"
proof (rule worker_gives_back [OF host_kernel_ok [OF wire_ok]])
  show "\<forall>a w w'. net_socket host_net a w \<noteq> (Inr 9, w')"
    by (auto simp: host_net_def host_new_def find_Some_iff split: option.splits)
  show "pr_pid fresh_worker \<notin> set (cfg_pids (pr_config fresh_worker))"
    by (simp add: fresh_worker_def host_proc_def proc_on_def io.defs demo_configuration_def
        zero_configuration_def)
qed (simp_all add: fresh_worker_def host_proc_def proc_on_def io.defs demo_configuration_def
    zero_configuration_def memory_destroy_def)

end
