(* ===== verification/Proxy.thy ===== *)
theory Proxy
  imports Worker
begin

text \<open>
  A worker as a whole (\<open>pgprtdbg_worker\<close> in \<open>src/src/libpgprtdbg/worker.c\<close>): what has passed between
  its client and the server when its process has ended, in whatever way it did.
\<close>

section \<open>What passes, and where nothing does\<close>

text \<open>
  One direction: \<open>new\<close> has arrived on \<open>from_fd\<close>, \<open>through\<close> is the prefix of it that was passed on, and
  \<open>R\<close> is how it lies in what was sent to \<open>to_fd\<close>.
\<close>

definition passes :: "(byte list \<Rightarrow> byte list \<Rightarrow> bool) \<Rightarrow> i32 \<Rightarrow> i32 \<Rightarrow> ('w \<Rightarrow> i32 \<Rightarrow> byte list) \<Rightarrow>
    ('w \<Rightarrow> i32 \<Rightarrow> byte list) \<Rightarrow> 'w \<Rightarrow> 'w \<Rightarrow> bool" where
  "passes R from_fd to_fd sent rcvd w w' \<longleftrightarrow> (\<exists>new through s.
     rcvd w' from_fd = rcvd w from_fd @ new \<and> sent w' to_fd = sent w to_fd @ s \<and>
     prefix through new \<and> R through s)"

definition quiet_elsewhere :: "i32 set \<Rightarrow> ('w \<Rightarrow> i32 \<Rightarrow> byte list) \<Rightarrow> ('w \<Rightarrow> i32 \<Rightarrow> byte list) \<Rightarrow> 'w \<Rightarrow> 'w \<Rightarrow> bool" where
  "quiet_elsewhere fds sent rcvd w w' \<longleftrightarrow> (\<forall>fd. fd \<notin> fds \<longrightarrow> sent w' fd = sent w fd \<and> rcvd w' fd = rcvd w fd)"

definition proxied :: "i32 \<Rightarrow> i32 \<Rightarrow> ('w \<Rightarrow> i32 \<Rightarrow> byte list) \<Rightarrow> ('w \<Rightarrow> i32 \<Rightarrow> byte list) \<Rightarrow> 'w \<Rightarrow> 'w \<Rightarrow> bool" where
  "proxied client_fd server_fd sent rcvd w w' \<longleftrightarrow>
     passes (=) client_fd server_fd sent rcvd w w' \<and> passes subseq server_fd client_fd sent rcvd w w' \<and>
     quiet_elsewhere {client_fd, server_fd} sent rcvd w w'"

lemma in_order_passes:
  "in_order R ev from_fd to_fd sent rcvd p0 (p, es) \<Longrightarrow>
    passes R from_fd to_fd sent rcvd (io_world p0) (io_world p)"
  unfolding in_order_def passes_def using take_is_prefix by fastforce

lemma passes_own:
  assumes "in_order R ev from_fd to_fd sent rcvd p0 (p, ev # es)" "\<And>a s x. R a s \<Longrightarrow> R (a @ x) (s @ x)"
    "passed fds from_fd to_fd sent rcvd new k (io_world p) w"
  shows "passes R from_fd to_fd sent rcvd (io_world p0) w"
proof -
  from assms(1) obtain old s where o: "rcvd (io_world p) from_fd = rcvd (io_world p0) from_fd @ old"
    "sent (io_world p) to_fd = sent (io_world p0) to_fd @ s" "R old s"
    by (auto simp: in_order_def)
  then have "rcvd w from_fd = rcvd (io_world p0) from_fd @ old @ new"
    "sent w to_fd = sent (io_world p0) to_fd @ s @ take k new"
    using assms(3) by (simp_all add: passed_def)
  moreover have "prefix (old @ take k new) (old @ new)" by (simp add: take_is_prefix)
  moreover have "R (old @ take k new) (s @ take k new)" using assms(2) [OF o(3)] .
  ultimately show ?thesis unfolding passes_def by blast
qed

lemma passes_other:
  assumes "passes R from_fd to_fd sent rcvd w w'" "rcvd w2 from_fd = rcvd w' from_fd"
    "sent w2 to_fd = sent w' to_fd @ x" "\<And>a s. R a s \<Longrightarrow> R a (s @ x)"
  shows "passes R from_fd to_fd sent rcvd w w2"
  using assms unfolding passes_def by (metis append_assoc)

lemma quiet_elsewhere_passed:
  assumes "quiet_elsewhere {a, b} sent rcvd w w'" "passed fds a b sent rcvd new k w' w2" "fds \<subseteq> {a}"
  shows "quiet_elsewhere {a, b} sent rcvd w w2"
  using assms by (auto simp: quiet_elsewhere_def passed_def)

section \<open>A session\<close>

text \<open>The callbacks of one iteration keep the invariant of the session, also where they exit.\<close>

definition session_ok :: "i32 \<Rightarrow> i32 \<Rightarrow> ('w \<Rightarrow> i32 \<Rightarrow> byte list) \<Rightarrow> ('w \<Rightarrow> i32 \<Rightarrow> byte list) \<Rightarrow>
    'w proc \<Rightarrow> worker_event list \<Rightarrow> 'w proc \<Rightarrow> bool" where
  "session_ok client_fd server_fd sent rcvd p0 es p \<longleftrightarrow>
     session_inv client_fd server_fd sent rcvd p0 (p, es) \<and>
     quiet_elsewhere {client_fd, server_fd} sent rcvd (io_world p0) (io_world p)"

lemma session_ok_proxied:
  "session_ok client_fd server_fd sent rcvd p0 es p \<Longrightarrow>
    proxied client_fd server_fd sent rcvd (io_world p0) (io_world p)"
  by (auto simp: session_ok_def session_inv_def proxied_def intro: in_order_passes)

lemma callback_ends:
  assumes "kernel_ok os sent rcvd" "memory_ok 65535 (io_memory p)" "server_fd \<noteq> client_fd"
  shows "ends (relayed 65535 {client_fd} client_fd server_fd sent rcvd p)
      (cut_off {client_fd} client_fd server_fd sent rcvd p)
      (callback os fuel client_fd server_fd counter Client_readable p)"
    and "ends (relayed 65535 {} server_fd client_fd sent rcvd p) (cut_off {} server_fd client_fd sent rcvd p)
      (callback os fuel client_fd server_fd counter Server_readable p)"
  unfolding callback_def worker_event.case
  by (rule ends_then [OF pipeline_client_relays [OF assms(1,2) _ assms(3)]]; auto)
    (rule ends_then [OF pipeline_server_relays [OF assms(1,2)]]; auto)

text \<open>What a callback that exits has still passed on; both directions.\<close>

lemma cut_off_passes:
  assumes "cut_off fds from_fd to_fd sent rcvd p q" "from_fd \<noteq> to_fd" "fds \<subseteq> {from_fd}"
    "in_order R ev from_fd to_fd sent rcvd p0 (p, ev # es)" "\<And>a s x. R a s \<Longrightarrow> R (a @ x) (s @ x)"
    "in_order S ev' to_fd from_fd sent rcvd p0 (p, es')" "\<And>a s x. fds \<noteq> {} \<Longrightarrow> S a s \<Longrightarrow> S a (s @ x)"
    "quiet_elsewhere {from_fd, to_fd} sent rcvd (io_world p0) (io_world p)"
  shows "passes R from_fd to_fd sent rcvd (io_world p0) (io_world q) \<and>
    passes S to_fd from_fd sent rcvd (io_world p0) (io_world q) \<and>
    quiet_elsewhere {from_fd, to_fd} sent rcvd (io_world p0) (io_world q)"
proof -
  from assms(1) obtain new k where pd: "passed fds from_fd to_fd sent rcvd new k (io_world p) (io_world q)"
    by (auto simp: cut_off_def)
  then obtain x where x: "sent (io_world q) from_fd = sent (io_world p) from_fd @ x"
    by (auto simp: passed_def grows_def prefix_def)
  have "fds = {} \<Longrightarrow> x = []" using pd x assms(2) by (auto simp: passed_def)
  then have "S a s \<Longrightarrow> S a (s @ x)" for a s using assms(7) [of a s x] by (cases "fds = {}") auto
  moreover have "rcvd (io_world q) to_fd = rcvd (io_world p) to_fd" using pd assms(2) by (auto simp: passed_def)
  ultimately have "passes S to_fd from_fd sent rcvd (io_world p0) (io_world q)"
    using passes_other [OF in_order_passes [OF assms(6)] _ x] by blast
  moreover have "passes R from_fd to_fd sent rcvd (io_world p0) (io_world q)"
    using passes_own [OF assms(4) assms(5) pd] by blast
  ultimately show ?thesis using quiet_elsewhere_passed [OF assms(8) pd assms(3)] by simp
qed

lemma callback_ok:
  assumes "kernel_ok os sent rcvd" "server_fd \<noteq> client_fd"
    "session_ok client_fd server_fd sent rcvd p0 (e # es) p"
  shows "ends (session_ok client_fd server_fd sent rcvd p0 es)
    (\<lambda>q. proxied client_fd server_fd sent rcvd (io_world p0) (io_world q))
    (callback os fuel client_fd server_fd counter e p)"
proof -
  have inv: "session_inv client_fd server_fd sent rcvd p0 (p, e # es)"
    and other: "quiet_elsewhere {client_fd, server_fd} sent rcvd (io_world p0) (io_world p)"
    using assms(3) by (simp_all add: session_ok_def)
  have mem: "memory_ok 65535 (io_memory p)"
    and up: "in_order (=) Client_readable client_fd server_fd sent rcvd p0 (p, e # es)"
    and down: "in_order subseq Server_readable server_fd client_fd sent rcvd p0 (p, e # es)"
    using inv by (simp_all add: session_inv_def)
  note two = callback_ends [OF assms(1) mem assms(2), of fuel counter]
  show ?thesis
  proof (cases "callback os fuel client_fd server_fd counter e p")
    case (Returned q)
    have "quiet_elsewhere {client_fd, server_fd} sent rcvd (io_world p0) (io_world q)"
    proof (cases e)
      case Client_readable
      with two(1) Returned quiet_elsewhere_passed [OF other] show ?thesis by (auto simp: relayed_def)
    next
      case Server_readable
      with two(2) Returned quiet_elsewhere_passed [where a = server_fd and b = client_fd] other
      show ?thesis by (fastforce simp: relayed_def insert_commute)
    next
      case Sigquit
      with Returned other show ?thesis by (auto simp: callback_def sigquit_cb_def)
    qed
    with in_order_callback [OF assms(1,2) inv Returned] Returned show ?thesis by (simp add: session_ok_def)
  next
    case (Exited c q)
    have "proxied client_fd server_fd sent rcvd (io_world p0) (io_world q)"
    proof (cases e)
      case Client_readable
      with two(1) Exited have "cut_off {client_fd} client_fd server_fd sent rcvd p q" by simp
      from cut_off_passes [OF this _ _ up [unfolded Client_readable] _ down _ other] assms(2) subseq_grow
      show ?thesis by (auto simp: proxied_def)
    next
      case Server_readable
      with two(2) Exited have "cut_off {} server_fd client_fd sent rcvd p q" by simp
      from cut_off_passes [OF this assms(2) _ down [unfolded Server_readable] _ up] other list_emb_append_mono
      show ?thesis by (auto simp: proxied_def insert_commute)
    next
      case Sigquit
      with Exited show ?thesis by (simp add: callback_def sigquit_cb_def)
    qed
    with Exited show ?thesis by simp
  qed simp_all
qed

lemma callbacks_ok:
  assumes "kernel_ok os sent rcvd" "server_fd \<noteq> client_fd"
  shows "session_ok client_fd server_fd sent rcvd p0 es p \<Longrightarrow>
    ends (session_ok client_fd server_fd sent rcvd p0 [])
      (\<lambda>q. proxied client_fd server_fd sent rcvd (io_world p0) (io_world q))
      (callbacks os fuel client_fd server_fd counter es p)"
  by (induction es arbitrary: p) (auto intro: ends_then [OF callback_ok [OF assms]])

lemma polled_ok:
  assumes "poll_ok poll sent rcvd" "poll (io_world p) = (es, w)" "pr_running p"
    "session_ok client_fd server_fd sent rcvd p0 [] p"
  shows "session_ok client_fd server_fd sent rcvd p0 es (p\<lparr>io_world := w\<rparr>)"
proof -
  have "distinct es" "sent w = sent (io_world p)" "rcvd w = rcvd (io_world p)"
    using assms(1,2) by (auto simp: poll_ok_def)
  with assms(4) in_order_polled [OF assms(1-3)] show ?thesis
    by (simp add: session_ok_def session_inv_def quiet_elsewhere_def)
qed

lemma session_loop_ok:
  assumes "kernel_ok os sent rcvd" "poll_ok poll sent rcvd" "server_fd \<noteq> client_fd" "memory_ok 65535 (io_memory p)"
  shows "ends (session_ok client_fd server_fd sent rcvd p [])
    (\<lambda>q. proxied client_fd server_fd sent rcvd (io_world p) (io_world q))
    (run_loop (worker_step os poll fuel client_fd server_fd counter) n p)"
proof (rule ends_run_loop [where J = "session_ok client_fd server_fd sent rcvd p []"])
  show "session_ok client_fd server_fd sent rcvd p [] p"
    using assms(4) by (simp add: session_ok_def session_inv_def in_order_start quiet_elsewhere_def)
next
  fix q assume q: "session_ok client_fd server_fd sent rcvd p [] q"
  obtain es w where w: "poll (io_world q) = (es, w)" by fastforce
  show "case worker_step os poll fuel client_fd server_fd counter q of
      Again t \<Rightarrow> session_ok client_fd server_fd sent rcvd p [] t
    | Stop x \<Rightarrow> ends (session_ok client_fd server_fd sent rcvd p [])
        (\<lambda>q. proxied client_fd server_fd sent rcvd (io_world p) (io_world q)) x"
  proof (cases "pr_running q")
    case True
    from callbacks_ok [OF assms(1,3) polled_ok [OF assms(2) w True q], of fuel counter] w True show ?thesis
      by (cases "callbacks os fuel client_fd server_fd counter es (q\<lparr>io_world := w\<rparr>)")
        (auto simp: worker_step_def go_on_def)
  qed (use q in \<open>simp add: worker_step_def\<close>)
qed

section \<open>Around the session\<close>

text \<open>
  What is relied on of the socket calls: connecting and closing neither send nor receive anything on
  a stream. Then everything around the session leaves the streams as they are.
\<close>

definition net_silent :: "'w net \<Rightarrow> ('w \<Rightarrow> i32 \<Rightarrow> byte list) \<Rightarrow> ('w \<Rightarrow> i32 \<Rightarrow> byte list) \<Rightarrow> bool" where
  "net_silent net sent rcvd \<longleftrightarrow> (\<forall>w w'. net_call net w w' \<longrightarrow> sent w' = sent w \<and> rcvd w' = rcvd w)"

definition same_streams :: "('w \<Rightarrow> i32 \<Rightarrow> byte list) \<Rightarrow> ('w \<Rightarrow> i32 \<Rightarrow> byte list) \<Rightarrow> 'w \<Rightarrow> 'w \<Rightarrow> bool" where
  "same_streams sent rcvd w w' \<longleftrightarrow> sent w' = sent w \<and> rcvd w' = rcvd w"

lemma same_streams_refl [simp]: "same_streams sent rcvd w w"
  by (simp add: same_streams_def)

lemma proxied_streams:
  assumes "same_streams sent rcvd w w1" "proxied client_fd server_fd sent rcvd w1 w2" "same_streams sent rcvd w2 w3"
  shows "proxied client_fd server_fd sent rcvd w w3"
  using assms by (auto simp: same_streams_def proxied_def passes_def quiet_elsewhere_def)

lemma proxied_nothing: "proxied client_fd server_fd sent rcvd w w"
  by (simp add: proxied_def passes_def quiet_elsewhere_def)

definition undisturbed :: "'w net \<Rightarrow> ('w \<Rightarrow> i32 \<Rightarrow> byte list) \<Rightarrow> ('w \<Rightarrow> i32 \<Rightarrow> byte list) \<Rightarrow> 'w \<Rightarrow> 'w proc \<Rightarrow> bool" where
  "undisturbed net sent rcvd w p \<longleftrightarrow> net_silent net sent rcvd \<and> same_streams sent rcvd w (io_world p)"

interpretation around: quiet_calls net "undisturbed net sent rcvd w"
  for net :: "'w net" and sent rcvd w
  by unfold_locales (auto simp: undisturbed_def net_silent_def same_streams_def lock_log_def unlock_log_def)

lemma undisturbed_upd [simp]:
  "undisturbed net sent rcvd w (p\<lparr>io_memory := m\<rparr>) = undisturbed net sent rcvd w p"
  "undisturbed net sent rcvd w (p\<lparr>pr_logs := lg\<rparr>) = undisturbed net sent rcvd w p"
  "undisturbed net sent rcvd w (set_pids f p) = undisturbed net sent rcvd w p"
  "undisturbed net sent rcvd w (add_active n p) = undisturbed net sent rcvd w p"
  "undisturbed net sent rcvd w (open_log os p) = undisturbed net sent rcvd w p"
  by (simp_all add: undisturbed_def set_pids_def add_active_def open_log_def)

lemma add_active_memory [simp]: "io_memory (add_active n p) = io_memory p"
  by (simp add: add_active_def)

lemma worker_start_quiet:
  "undisturbed net sent rcvd w p \<Longrightarrow> ends (undisturbed net sent rcvd w) E (worker_start os client_fd p)"
  unfolding worker_start_def Let_def
  by (rule ends_then [OF ends_defined [where P = "\<lambda>_. True"]], simp,
      rule ends_then [OF around.log_client_keeps]) (auto intro: around.marker_keeps)

lemma worker_end_quiet:
  "undisturbed net sent rcvd w p \<Longrightarrow>
    ends (\<lambda>_. False) (undisturbed net sent rcvd w) (worker_end os net client_fd server_fd connected p)"
  unfolding worker_end_def
  apply (rule ends_then [OF around.log_client_keeps], assumption)
  apply (rule ends_then [where P = "undisturbed net sent rcvd w"], simp add: around.marker_keeps)
  apply (unfold Let_def, rule ends_then [OF ends_defined [where P = "\<lambda>_. True"]], simp)
  apply (auto intro: around.disconnect_keeps)
  done

section \<open>From the start to the exit\<close>

definition has_proxied :: "i32 \<Rightarrow> ('w \<Rightarrow> i32 \<Rightarrow> byte list) \<Rightarrow> ('w \<Rightarrow> i32 \<Rightarrow> byte list) \<Rightarrow> 'w \<Rightarrow> 'w proc \<Rightarrow> bool" where
  "has_proxied client_fd sent rcvd w q \<longleftrightarrow>
     (\<exists>server_fd. server_fd \<noteq> client_fd \<and> proxied client_fd server_fd sent rcvd w (io_world q))"

lemma undisturbed_proxied: "undisturbed net sent rcvd w q \<Longrightarrow> has_proxied client_fd sent rcvd w q"
  unfolding has_proxied_def undisturbed_def
  using proxied_streams [OF same_streams_refl proxied_nothing [of client_fd "client_fd + 1"]]
  by (intro exI [of _ "client_fd + 1"]) auto

lemma worker_session_proxies:
  assumes "kernel_ok os sent rcvd" "poll_ok poll sent rcvd" "server_fd \<noteq> client_fd"
    "memory_ok 65535 (io_memory p)" "undisturbed net sent rcvd w p"
  shows "ends (\<lambda>_. False) (has_proxied client_fd sent rcvd w) (and_then
    (worker_session os ev poll fuel client_fd server_fd counter p) (worker_end os net client_fd server_fd True))"
proof (rule ends_then)
  let ?P = "\<lambda>q. proxied client_fd server_fd sent rcvd w (io_world q)"
  have "ends (\<lambda>(v, q). undisturbed net sent rcvd w q \<and> memory_ok 65535 (io_memory q)) (has_proxied client_fd sent rcvd w)
      (libev ev (Some (cstr (cfg_libev (pr_config (add_active 1 p))))) (add_active 1 p))"
    by (rule ends_mono [OF ends_conj [OF around.libev_keeps seat.libev_keeps [OF seated_refl]]])
      (use assms(4,5) in \<open>auto simp: seated_def split: prod.splits\<close>)
  then show "ends ?P (has_proxied client_fd sent rcvd w)
      (worker_session os ev poll fuel client_fd server_fd counter p)"
    unfolding worker_session_def
  proof (rule ends_then, clarsimp)
    fix q assume q: "undisturbed net sent rcvd w q" "memory_ok 65535 (io_memory q)"
    have P: "proxied client_fd server_fd sent rcvd (io_world q) (io_world r) \<Longrightarrow> ?P r" for r
      using q(1) by (auto simp: undisturbed_def intro: proxied_streams)
    from session_loop_ok [OF assms(1-3) q(2), of fuel counter fuel]
    show "ends ?P (has_proxied client_fd sent rcvd w)
        (run_loop (worker_step os poll fuel client_fd server_fd counter) fuel q)"
      by (rule ends_mono) (erule P [OF session_ok_proxied], use P assms(3) in \<open>auto simp: has_proxied_def\<close>)
  qed
next
  fix q :: "'a proc" assume q: "proxied client_fd server_fd sent rcvd w (io_world q)"
  have silent: "net_silent net sent rcvd" using assms(5) by (simp add: undisturbed_def)
  show "ends (\<lambda>_. False) (has_proxied client_fd sent rcvd w) (worker_end os net client_fd server_fd True q)"
    by (rule ends_mono [OF worker_end_quiet [where net = net and w = "io_world q"]])
      (use silent assms(3) proxied_streams [OF same_streams_refl q]
        in \<open>auto simp: undisturbed_def has_proxied_def\<close>)
qed

lemma worker_proxies:
  assumes "kernel_ok os sent rcvd" "poll_ok poll sent rcvd" "net_silent net sent rcvd"
    "\<forall>a w w'. net_socket net a w \<noteq> (Inr client_fd, w')"
    "0 \<le> sint (cfg_buffer_size (pr_config p))" "sint (cfg_buffer_size (pr_config p)) \<le> 65535"
    "mem_data (io_memory p) = None"
  shows "ends (\<lambda>_. False) (has_proxied client_fd sent rcvd (io_world p))
    (worker os net ev poll fuel client_fd client_number p)"
  unfolding worker_def Let_def
proof (rule ends_then)
  let ?p = "p\<lparr>pr_running := True, pr_exit_code := WORKER_FAILURE\<rparr>"
  let ?ok = "\<lambda>q. undisturbed net sent rcvd (io_world p) q \<and> session_keeps (registered p) q"
  have "undisturbed net sent rcvd (io_world p) ?p" using assms(3) by (simp add: undisturbed_def)
  from ends_conj [OF worker_start_quiet [OF this, of "has_proxied client_fd sent rcvd (io_world p)" os client_fd]
      worker_start_keeps [of ?p "has_proxied client_fd sent rcvd (io_world p)" os client_fd]]
  show "ends ?ok (has_proxied client_fd sent rcvd (io_world p)) (worker_start os client_fd ?p)"
    using assms(5-7) by (simp add: registered_def)
next
  fix q assume q: "undisturbed net sent rcvd (io_world p) q \<and> session_keeps (registered p) q"
  let ?server = "cfg_server (pr_config q)"
  show "ends (\<lambda>_. False) (has_proxied client_fd sent rcvd (io_world p))
      (and_then (connect os net (cstr (srv_host ?server)) (srv_port ?server) (- 1) q) (\<lambda>(rv, server_fd, p).
        if rv = 0
        then and_then (worker_session os ev poll fuel client_fd server_fd client_number p)
          (worker_end os net client_fd server_fd True)
        else worker_end os net client_fd server_fd False p))"
  proof (rule ends_then [OF ends_conj [OF around.connect_keeps connect_seated [OF assms(4)]]])
    fix x :: "int \<times> i32 \<times> 'a proc"
    obtain rv fd r where x: "x = (rv, fd, r)" by (cases x)
    assume "(case x of (rv, fd, r) \<Rightarrow> undisturbed net sent rcvd (io_world p) r) \<and>
      (case x of (rv, fd, r) \<Rightarrow> session_keeps (registered p) r \<and> (rv = 0 \<longrightarrow> fd \<noteq> client_fd))"
    then have r: "undisturbed net sent rcvd (io_world p) r" "memory_ok 65535 (io_memory r)" "rv = 0 \<Longrightarrow> fd \<noteq> client_fd"
      by (simp_all add: x session_keeps_def)
    have "ends (\<lambda>_. False) (has_proxied client_fd sent rcvd (io_world p)) (worker_end os net client_fd fd False r)"
      by (rule ends_mono [OF worker_end_quiet [OF r(1)]]) (simp_all add: undisturbed_proxied)
    then show "ends (\<lambda>_. False) (has_proxied client_fd sent rcvd (io_world p)) (case x of (rv, server_fd, p) \<Rightarrow>
        if rv = 0
        then and_then (worker_session os ev poll fuel client_fd server_fd client_number p)
          (worker_end os net client_fd server_fd True)
        else worker_end os net client_fd server_fd False p)"
      using worker_session_proxies [OF assms(1,2) r(3,2,1)] by (simp add: x)
  qed (use q in auto)
qed

text \<open>
  C7. From its start to its exit, whatever the client, the server and the calls of the host do: when
  the process of a worker has ended, what was sent to the server is a prefix of what the client has
  sent, what was sent to the client contains in order a prefix of what the server has sent, and
  nothing has been read from or written to any other descriptor.
\<close>

theorem worker_is_proxy:
  assumes "kernel_ok os sent rcvd" "poll_ok poll sent rcvd" "net_silent net sent rcvd"
    "\<forall>a w w'. net_socket net a w \<noteq> (Inr client_fd, w')"
    "0 \<le> sint (cfg_buffer_size (pr_config p))" "sint (cfg_buffer_size (pr_config p)) \<le> 65535"
    "mem_data (io_memory p) = None"
    and "worker os net ev poll fuel client_fd client_number p = Exited c q"
  shows "\<exists>server_fd. server_fd \<noteq> client_fd \<and>
    passes (=) client_fd server_fd sent rcvd (io_world p) (io_world q) \<and>
    passes subseq server_fd client_fd sent rcvd (io_world p) (io_world q) \<and>
    (\<forall>fd. fd \<notin> {client_fd, server_fd} \<longrightarrow>
       sent (io_world q) fd = sent (io_world p) fd \<and> rcvd (io_world q) fd = rcvd (io_world p) fd)"
  using worker_proxies [OF assms(1-7), of ev fuel client_number] assms(8)
  by (auto simp: has_proxied_def proxied_def quiet_elsewhere_def)

text \<open>For the witness: a client that closes its connection at once.\<close>

lemma host_net_silent: "net_silent host_net (sent \<circ> fst) (rcvd \<circ> fst)"
  by (auto simp: net_silent_def host_net_def host_new_def elim!: net_call.cases split: prod.splits option.splits)

lemma fresh_worker_exits:
  "case worker (host_os wire_os) host_net demo_ev client_poll 20 9 0 fresh_worker of Exited c q \<Rightarrow> c = 2 | _ \<Rightarrow> False"
  by code_simp

theorem worker_is_proxy_witness:
  "\<exists>q server_fd. worker (host_os wire_os) host_net demo_ev client_poll 20 9 0 fresh_worker = Exited 2 q \<and>
    server_fd \<noteq> 9 \<and>
    passes (=) 9 server_fd (wire_out \<circ> fst) (wire_seen \<circ> fst) (io_world fresh_worker) (io_world q) \<and>
    passes subseq server_fd 9 (wire_out \<circ> fst) (wire_seen \<circ> fst) (io_world fresh_worker) (io_world q)"
proof -
  obtain q where q: "worker (host_os wire_os) host_net demo_ev client_poll 20 9 0 fresh_worker = Exited 2 q"
    using fresh_worker_exits by (auto split: outcome.splits)
  have "\<forall>a w w'. net_socket host_net a w \<noteq> (Inr 9, w')"
    by (auto simp: host_net_def host_new_def find_Some_iff split: option.splits)
  from worker_is_proxy [OF host_kernel_ok [OF wire_ok] client_poll_ok host_net_silent this _ _ _ q] q show ?thesis
    by (auto simp: fresh_worker_def host_proc_def proc_on_def io.defs demo_configuration_def
        zero_configuration_def memory_destroy_def)
qed

end
