(* ===== verification/Tally.thy ===== *)
theory Tally
  imports Proxy
begin

text \<open>
  The statistics of a session (\<open>protocol.c\<close>, \<open>pipeline.c\<close>, \<open>counter.c\<close>): what the counter of a client
  says about the bytes that came from it and from the server.
\<close>

section \<open>One callback\<close>

text \<open>What is behind the decoding neither counts nor receives anything.\<close>

lemma steady_upd [simp]:
  "steady os sent rcvd cs R (p\<lparr>pr_exit_code := c\<rparr>) = steady os sent rcvd cs R p"
  "steady os sent rcvd cs R (p\<lparr>pr_running := b\<rparr>) = steady os sent rcvd cs R p"
  "steady os sent rcvd cs R (p\<lparr>io_errno := e\<rparr>) = steady os sent rcvd cs R p"
  by (simp_all add: steady_def)

lemma settle:
  assumes "steady os sent rcvd cs R p"
  shows "ends (\<lambda>(b, q). steady os sent rcvd cs R q) E (session_error os what fd_name fd status code p)"
    and "ends (\<lambda>(b, q). steady os sent rcvd cs R q) E (session_done what fd_name fd status code' p)"
proof -
  have "ends (steady os sent rcvd cs R) E (say item p)" for item
    unfolding say_def by (rule ends_then [where P = "steady os sent rcvd cs R"])
      (use assms in \<open>auto simp: log_to_def lock_log_def unlock_log_def keeps steady_def split: option.split\<close>)
  then show "ends (\<lambda>(b, q). steady os sent rcvd cs R q) E (session_error os what fd_name fd status code p)"
    "ends (\<lambda>(b, q). steady os sent rcvd cs R q) E (session_done what fd_name fd status code' p)"
    unfolding session_error_def session_done_def
    by (auto intro!: ends_then [where P = "steady os sent rcvd cs R"] leave_ends)
qed

lemma write_settles:
  fixes p :: "'w proc"
  assumes "steady os sent rcvd cs R p" "msg_bytes msg = Some bytes" "length bytes < 2 ^ 31"
    "\<And>status q. steady os sent rcvd cs R q \<Longrightarrow> ends (\<lambda>(b, q). steady os sent rcvd cs R q) E (rest status q)"
  shows "ends (\<lambda>(b, q). steady os sent rcvd cs R q) E
    (and_then (write_message os fuel fd msg p) (\<lambda>(status, q). rest status q))"
  by (rule ends_then [OF write_stays_steady [OF assms(1-3)]]) (auto intro: assms(4))

lemma client_message_tallies:
  fixes p :: "'w proc"
  assumes "kernel_ok os sent rcvd" "msg_bytes msg = Some bytes" "length bytes < 2 ^ 31"
  shows "ends (\<lambda>(b, q). tallied rcvd (count_sent (msg_length msg)) counter p q) (\<lambda>_. True)
    (client_message os fuel client_fd server_fd counter msg p)"
  unfolding client_message_def
proof (rule ends_then [OF client_tallies [OF assms(1)]])
  fix q assume q: "tallied rcvd (count_sent (msg_length msg)) counter p q"
  let ?S = "steady os sent rcvd (pr_counters q) (rcvd (io_world p))"
  note s = tallied_steady [OF assms(1) q]
  then have save: "ends ?S (\<lambda>_. True) (client_save os msg q)"
    by (auto simp: client_save_def save_client_traffic_def Let_def
        intro!: ends_mono [OF steady.write_traffic_keeps] simp: steady_def)
  have "ends (\<lambda>(b, r). ?S r) (\<lambda>_. True) (and_then (client_save os msg q) (\<lambda>p.
      and_then (write_message os fuel server_fd msg p) (\<lambda>(status, p).
        if status \<noteq> MESSAGE_STATUS_OK
        then session_error os ''[C] server_error'' ''server_fd'' server_fd status WORKER_SERVER_FAILURE p
        else Returned (EVBREAK_ONE,
          if msg_kind msg = ch CHR ''X''
          then p\<lparr>pr_exit_code := WORKER_SUCCESS, pr_running := False\<rparr> else p))))"
    by (rule ends_then [OF save], rule write_settles [OF _ assms(2,3)])
      (auto intro!: settle simp del: of_char_Char)
  then show "ends (\<lambda>(b, q). tallied rcvd (count_sent (msg_length msg)) counter p q) (\<lambda>_. True)
      (and_then (client_save os msg q) (\<lambda>p.
      and_then (write_message os fuel server_fd msg p) (\<lambda>(status, p).
        if status \<noteq> MESSAGE_STATUS_OK
        then session_error os ''[C] server_error'' ''server_fd'' server_fd status WORKER_SERVER_FAILURE p
        else Returned (EVBREAK_ONE,
          if msg_kind msg = ch CHR ''X''
          then p\<lparr>pr_exit_code := WORKER_SUCCESS, pr_running := False\<rparr> else p))))"
    by (rule ends_mono) (auto intro: steady_tallied [OF q])
qed

lemma server_message_tallies:
  fixes p :: "'w proc"
  assumes "kernel_ok os sent rcvd" "msg_bytes msg = Some bytes" "length bytes < 2 ^ 31"
  shows "ends (\<lambda>(b, q). tallied rcvd (count_rcvd (msg_length msg)) counter p q) (\<lambda>_. True)
    (server_message os fuel client_fd server_fd counter msg p)"
  unfolding server_message_def
proof (rule ends_then [OF server_tallies [OF assms(1)]])
  fix q assume q: "tallied rcvd (count_rcvd (msg_length msg)) counter p q"
  let ?S = "steady os sent rcvd (pr_counters q) (rcvd (io_world p))"
  let ?rest = "\<lambda>status p. if status \<noteq> MESSAGE_STATUS_OK
       then session_error os ''[S] client_error'' ''client_fd'' client_fd status WORKER_CLIENT_FAILURE p
       else if msg_kind msg = ch CHR ''E''
       then and_then (defined (Option.bind (msg_data msg) is_fatal)) (\<lambda>fatal.
         Returned (EVBREAK_ONE,
           if fatal then p\<lparr>pr_exit_code := WORKER_SERVER_FATAL, pr_running := False\<rparr> else p))
       else Returned (EVBREAK_ONE, p)"
  note s = tallied_steady [OF assms(1) q]
  then have save: "ends ?S (\<lambda>_. True) (server_save os msg q)"
    by (auto simp: server_save_def save_server_traffic_def
        intro!: ends_mono [OF steady.write_traffic_keeps] simp: steady_def)
  have rest: "ends (\<lambda>(b, r). ?S r) (\<lambda>_. True) (?rest status r)" if "?S r" for status r
    using that settle(1) [OF that]
    by (auto intro!: ends_then [OF ends_defined [where P = "\<lambda>_. True"]] simp del: of_char_Char)
  have "ends (\<lambda>(b, r). ?S r) (\<lambda>_. True) (and_then (server_save os msg q) (\<lambda>p.
      and_then (write_message os fuel client_fd msg p) (\<lambda>(status, p). ?rest status p)))"
    by (rule ends_then [OF save], rule write_settles [OF _ assms(2,3) rest])
  then show "ends (\<lambda>(b, q). tallied rcvd (count_rcvd (msg_length msg)) counter p q) (\<lambda>_. True)
      (and_then (server_save os msg q) (\<lambda>p.
      and_then (write_message os fuel client_fd msg p) (\<lambda>(status, p). ?rest status p)))"
    by (rule ends_mono) (auto intro: steady_tallied [OF q])
qed

text \<open>
  A callback: what has arrived is counted, once and with its length, on the counter of this worker, and
  on no other.
\<close>

definition counts_new :: "('w \<Rightarrow> i32 \<Rightarrow> byte list) \<Rightarrow> i32 \<Rightarrow> (i64 \<Rightarrow> event_counter \<Rightarrow> event_counter) \<Rightarrow> nat \<Rightarrow>
    'w proc \<Rightarrow> 'w proc \<Rightarrow> bool" where
  "counts_new rcvd fd count counter p q \<longleftrightarrow>
     (\<exists>new. rcvd (io_world q) = (rcvd (io_world p))(fd := rcvd (io_world p) fd @ new) \<and>
       (if new = [] then pr_counters q = pr_counters p
        else update_counter (count (word_of_nat (length new))) counter (pr_counters p) = Some (pr_counters q)))"

lemma counts_nothing:
  "steady os sent rcvd (pr_counters p) (rcvd (io_world p)) q \<Longrightarrow> counts_new rcvd fd count counter p q"
  unfolding counts_new_def by (intro exI [of _ "[]"]) (simp add: steady_def)

lemma callback_counts:
  fixes p :: "'w proc"
  assumes "kernel_ok os sent rcvd" "memory_ok 65535 (io_memory p)"
    "\<And>msg bytes q. msg_bytes msg = Some bytes \<Longrightarrow> length bytes < 2 ^ 31 \<Longrightarrow>
      ends (\<lambda>(b, r). tallied rcvd (count (msg_length msg)) counter q r) (\<lambda>_. True) (message_part msg q)"
  shows "ends (\<lambda>(b, q). counts_new rcvd from_fd count counter p q) (\<lambda>_. True)
    (and_then (read_message os fuel from_fd False p) (\<lambda>(status, m, p).
       if status = MESSAGE_STATUS_OK
       then (case m of None \<Rightarrow> Undefined | Some msg \<Rightarrow> message_part msg p)
       else if status = MESSAGE_STATUS_ZERO
       then session_done what fd_name fd status code p
       else session_error os what' fd_name fd status code' p))"
proof (rule ends_then [OF read_message_ends [OF assms(1,2), of from_fd _ fuel]], simp)
  fix r :: "int \<times> message option \<times> 'w proc"
  obtain status m q where r: "r = (status, m, q)" by (cases r)
  assume rd: "read_done 65535 from_fd sent rcvd p r"
  then have more: "io.more q = io.more p" unfolding r by (simp add: read_done_def)
  have cs: "pr_counters q = pr_counters p" using more by (cases p; cases q; simp add: proc.defs)
  show "ends (\<lambda>(b, q). counts_new rcvd from_fd count counter p q) (\<lambda>_. True) (case r of (status, m, p) \<Rightarrow>
       if status = MESSAGE_STATUS_OK
       then (case m of None \<Rightarrow> Undefined | Some msg \<Rightarrow> message_part msg p)
       else if status = MESSAGE_STATUS_ZERO
       then session_done what fd_name fd status code p
       else session_error os what' fd_name fd status code' p)"
  proof (cases "status = MESSAGE_STATUS_OK")
    case True
    with rd obtain msg bytes where m: "m = Some msg" "msg_bytes msg = Some bytes" "bytes \<noteq> []" "length bytes \<le> 65535"
      "msg_length msg = word_of_nat (length bytes)"
      "rcvd (io_world q) = (rcvd (io_world p))(from_fd := rcvd (io_world p) from_fd @ bytes)"
      unfolding r by (auto simp: read_done_def message_status)
    then have "length bytes < 2 ^ 31" by simp
    from assms(3) [OF m(2) this, of q]
    have "ends (\<lambda>(b, q). counts_new rcvd from_fd count counter p q) (\<lambda>_. True) (message_part msg q)"
    proof (rule ends_mono)
      fix x assume "case x of (b, r) \<Rightarrow> tallied rcvd (count (msg_length msg)) counter q r"
      then obtain b r where x: "x = (b, r)" "tallied rcvd (count (msg_length msg)) counter q r" by (cases x) simp
      then show "case x of (b, q) \<Rightarrow> counts_new rcvd from_fd count counter p q"
        using m cs by (auto simp: tallied_def counts_new_def intro!: exI [of _ bytes])
    qed simp
    then show ?thesis using True m(1) by (simp add: r)
  next
    case False
    with rd have same: "rcvd (io_world q) = rcvd (io_world p)" unfolding r by (auto simp: read_done_def)
    have "steady os sent rcvd (pr_counters p) (rcvd (io_world p)) q" using assms(1) cs same by (simp add: steady_def)
    note ends = settle [OF this, where E = "\<lambda>_. True"]
    have "ends (\<lambda>(b, q). counts_new rcvd from_fd count counter p q) (\<lambda>_. True) (session_done what fd_name fd status code q)"
      by (rule ends_mono [OF ends(2)]) (auto intro: counts_nothing)
    moreover have "ends (\<lambda>(b, q). counts_new rcvd from_fd count counter p q) (\<lambda>_. True)
        (session_error os what' fd_name fd status code' q)"
      by (rule ends_mono [OF ends(1)]) (auto intro: counts_nothing)
    ultimately show ?thesis using False by (auto simp: r)
  qed
qed

section \<open>A session\<close>

text \<open>
  The counter says how many bytes have arrived in each direction since the state \<open>p0\<close>, in 64 bits; the
  counters of the other clients are as they were.
\<close>

definition tally_inv :: "('w \<Rightarrow> i32 \<Rightarrow> byte list) \<Rightarrow> i32 \<Rightarrow> i32 \<Rightarrow> nat \<Rightarrow> 'w proc \<Rightarrow> 'w proc \<Rightarrow> bool" where
  "tally_inv rcvd client_fd server_fd n p0 p \<longleftrightarrow>
     length (pr_counters p) = length (pr_counters p0) \<and>
     (\<forall>i < length (pr_counters p0). i \<noteq> n \<longrightarrow> pr_counters p ! i = pr_counters p0 ! i) \<and>
     (\<exists>up down. rcvd (io_world p) client_fd = rcvd (io_world p0) client_fd @ up \<and>
        rcvd (io_world p) server_fd = rcvd (io_world p0) server_fd @ down \<and>
        (n < length (pr_counters p0) \<longrightarrow>
          ec_sent_bytes (pr_counters p ! n) = ec_sent_bytes (pr_counters p0 ! n) + of_nat (length up) \<and>
          ec_rcvd_bytes (pr_counters p ! n) = ec_rcvd_bytes (pr_counters p0 ! n) + of_nat (length down)))"

lemma update_counter_iff: "update_counter f i cs = Some cs' \<longleftrightarrow> i < length cs \<and> cs' = cs[i := f (cs ! i)]"
  by (auto simp: update_counter_def counter_get_def)

text \<open>More has arrived in either direction, and the counter has grown by as much.\<close>

lemma tally_grow:
  assumes "tally_inv rcvd client_fd server_fd n p0 p"
    "rcvd (io_world q) client_fd = rcvd (io_world p) client_fd @ up"
    "rcvd (io_world q) server_fd = rcvd (io_world p) server_fd @ down"
    "length (pr_counters q) = length (pr_counters p)"
    "\<And>i. i < length (pr_counters p) \<Longrightarrow> i \<noteq> n \<Longrightarrow> pr_counters q ! i = pr_counters p ! i"
    "n < length (pr_counters p) \<Longrightarrow>
      ec_sent_bytes (pr_counters q ! n) = ec_sent_bytes (pr_counters p ! n) + of_nat (length up) \<and>
      ec_rcvd_bytes (pr_counters q ! n) = ec_rcvd_bytes (pr_counters p ! n) + of_nat (length down)"
  shows "tally_inv rcvd client_fd server_fd n p0 q"
proof -
  from assms(1) obtain up0 down0 where old: "rcvd (io_world p) client_fd = rcvd (io_world p0) client_fd @ up0"
    "rcvd (io_world p) server_fd = rcvd (io_world p0) server_fd @ down0"
    "n < length (pr_counters p0) \<longrightarrow>
      ec_sent_bytes (pr_counters p ! n) = ec_sent_bytes (pr_counters p0 ! n) + of_nat (length up0) \<and>
      ec_rcvd_bytes (pr_counters p ! n) = ec_rcvd_bytes (pr_counters p0 ! n) + of_nat (length down0)"
    "length (pr_counters p) = length (pr_counters p0)"
    "\<forall>i < length (pr_counters p0). i \<noteq> n \<longrightarrow> pr_counters p ! i = pr_counters p0 ! i"
    unfolding tally_inv_def by blast
  have new: "rcvd (io_world q) client_fd = rcvd (io_world p0) client_fd @ up0 @ up"
    "rcvd (io_world q) server_fd = rcvd (io_world p0) server_fd @ down0 @ down"
    "n < length (pr_counters p0) \<longrightarrow>
      ec_sent_bytes (pr_counters q ! n) = ec_sent_bytes (pr_counters p0 ! n) + of_nat (length (up0 @ up)) \<and>
      ec_rcvd_bytes (pr_counters q ! n) = ec_rcvd_bytes (pr_counters p0 ! n) + of_nat (length (down0 @ down))"
    using old assms(2,3,6) by simp_all
  moreover have "length (pr_counters q) = length (pr_counters p0)"
    "\<forall>i < length (pr_counters p0). i \<noteq> n \<longrightarrow> pr_counters q ! i = pr_counters p0 ! i"
    using old(4,5) assms(4,5) by simp_all
  ultimately show ?thesis unfolding tally_inv_def by blast
qed

lemma tally_client:
  assumes "tally_inv rcvd client_fd server_fd n p0 p" "counts_new rcvd client_fd count_sent n p q" "server_fd \<noteq> client_fd"
  shows "tally_inv rcvd client_fd server_fd n p0 q"
proof -
  from assms(2) obtain new where "rcvd (io_world q) = (rcvd (io_world p))(client_fd := rcvd (io_world p) client_fd @ new)"
    "new = [] \<and> pr_counters q = pr_counters p \<or> n < length (pr_counters p) \<and>
     pr_counters q = (pr_counters p)[n := count_sent (of_nat (length new)) (pr_counters p ! n)]"
    unfolding counts_new_def update_counter_iff by (metis (full_types))
  then show ?thesis using assms(3) by (intro tally_grow [OF assms(1), of q new "[]"]) (auto simp: count_sent_def)
qed

lemma tally_server:
  assumes "tally_inv rcvd client_fd server_fd n p0 p" "counts_new rcvd server_fd count_rcvd n p q" "server_fd \<noteq> client_fd"
  shows "tally_inv rcvd client_fd server_fd n p0 q"
proof -
  from assms(2) obtain new where "rcvd (io_world q) = (rcvd (io_world p))(server_fd := rcvd (io_world p) server_fd @ new)"
    "new = [] \<and> pr_counters q = pr_counters p \<or> n < length (pr_counters p) \<and>
     pr_counters q = (pr_counters p)[n := count_rcvd (of_nat (length new)) (pr_counters p ! n)]"
    unfolding counts_new_def update_counter_iff by (metis (full_types))
  then show ?thesis using assms(3) by (intro tally_grow [OF assms(1), of q "[]" new]) (auto simp: count_rcvd_def)
qed

definition tally_state :: "'w os \<Rightarrow> 'w poll \<Rightarrow> i32 \<Rightarrow> i32 \<Rightarrow> nat \<Rightarrow> ('w \<Rightarrow> i32 \<Rightarrow> byte list) \<Rightarrow>
    ('w \<Rightarrow> i32 \<Rightarrow> byte list) \<Rightarrow> 'w proc \<Rightarrow> 'w proc \<Rightarrow> bool" where
  "tally_state os poll client_fd server_fd n sent rcvd p0 p \<longleftrightarrow>
     kernel_ok os sent rcvd \<and> poll_ok poll sent rcvd \<and> server_fd \<noteq> client_fd \<and>
     memory_ok 65535 (io_memory p) \<and> tally_inv rcvd client_fd server_fd n p0 p"

lemma tally_callback:
  assumes "tally_state os poll client_fd server_fd n sent rcvd p0 p"
    "callback os fuel client_fd server_fd n e p = Returned q"
  shows "tally_state os poll client_fd server_fd n sent rcvd p0 q"
proof -
  from assms(1) have k: "kernel_ok os sent rcvd" "memory_ok 65535 (io_memory p)" "server_fd \<noteq> client_fd"
    and inv: "tally_inv rcvd client_fd server_fd n p0 p" by (simp_all add: tally_state_def)
  have mem: "memory_ok 65535 (io_memory q)" using callback_arrived [OF k(1,2,3) assms(2)] by simp
  have "tally_inv rcvd client_fd server_fd n p0 q"
  proof (cases e)
    case Client_readable
    have "ends (\<lambda>(b, q). counts_new rcvd client_fd count_sent n p q) (\<lambda>_. True)
        (pipeline_client os fuel client_fd server_fd n p)"
      unfolding pipeline_client_def by (rule callback_counts [OF k(1,2)]) (rule client_message_tallies [OF k(1)])
    with assms(2) Client_readable have "counts_new rcvd client_fd count_sent n p q"
      by (auto simp: callback_def and_then_Returned_iff)
    from tally_client [OF inv this k(3)] show ?thesis .
  next
    case Server_readable
    have "ends (\<lambda>(b, q). counts_new rcvd server_fd count_rcvd n p q) (\<lambda>_. True)
        (pipeline_server os fuel client_fd server_fd n p)"
      unfolding pipeline_server_def by (rule callback_counts [OF k(1,2)]) (rule server_message_tallies [OF k(1)])
    with assms(2) Server_readable have "counts_new rcvd server_fd count_rcvd n p q"
      by (auto simp: callback_def and_then_Returned_iff)
    from tally_server [OF inv this k(3)] show ?thesis .
  next
    case Sigquit
    with assms(2) inv show ?thesis by (auto simp: callback_def sigquit_cb_def tally_inv_def)
  qed
  with assms(1) mem show ?thesis by (simp add: tally_state_def)
qed

interpretation tally: machine "\<lambda>s. tally_state os poll client_fd server_fd n sent rcvd p0 p0 \<and> s = (p0, [])"
  "session_step os poll fuel client_fd server_fd n" "\<lambda>_. True"
  "\<lambda>s. tally_state os poll client_fd server_fd n sent rcvd p0 (fst s)"
  for os :: "'w os" and poll client_fd server_fd n sent rcvd p0 fuel
proof unfold_locales
  fix s e t assume inv: "tally_state os poll client_fd server_fd n sent rcvd p0 (fst s)"
    and step: "session_step os poll fuel client_fd server_fd n s e t"
  from step show "tally_state os poll client_fd server_fd n sent rcvd p0 (fst t)"
  proof (cases rule: session_step.cases)
    case (polled p es w)
    then have "rcvd w = rcvd (io_world p)" using inv by (auto simp: tally_state_def poll_ok_def)
    with inv polled show ?thesis by (auto simp: tally_state_def tally_inv_def)
  next
    case (called e p q es)
    then show ?thesis using inv tally_callback by fastforce
  qed
qed simp

text \<open>
  C15. The statistics are right: in every reachable state of a session, the counter of its client has
  grown by exactly the number of bytes that have arrived from the client, and from the server, in 64
  bits, and the counters of the other clients are unchanged.
\<close>

theorem statistics_exact:
  assumes "kernel_ok os sent rcvd" "poll_ok poll sent rcvd" "server_fd \<noteq> client_fd"
    "memory_ok 65535 (io_memory p)" "n < length (pr_counters p)"
    "runs (session_step os poll fuel client_fd server_fd n) (p, []) l (q, es)"
  shows "\<exists>up down c. rcvd (io_world q) client_fd = rcvd (io_world p) client_fd @ up \<and>
    rcvd (io_world q) server_fd = rcvd (io_world p) server_fd @ down \<and>
    pr_counters q = (pr_counters p)[n := c] \<and>
    ec_sent_bytes c = ec_sent_bytes (pr_counters p ! n) + of_nat (length up) \<and>
    ec_rcvd_bytes c = ec_rcvd_bytes (pr_counters p ! n) + of_nat (length down)"
proof -
  have "tally_state os poll client_fd server_fd n sent rcvd p p"
    using assms(1-4) by (simp add: tally_state_def tally_inv_def)
  with tally.runs_from_initial [OF assms(6)] have inv: "tally_inv rcvd client_fd server_fd n p q"
    by (fastforce simp: tally_state_def)
  have "pr_counters q = (pr_counters p)[n := pr_counters q ! n]"
    using inv assms(5) by (intro nth_equalityI) (auto simp: tally_inv_def nth_list_update)
  with inv assms(5) show ?thesis unfolding tally_inv_def by blast
qed

theorem statistics_exact_witness:
  "\<exists>q. runs (session_step wire_os client_poll 1 7 8 0) (demo_proc (\<lambda>_. []), []) [Poll, Callback Client_readable] (q, []) \<and>
    (\<exists>c. pr_counters q = [c] \<and> ec_sent_bytes c = of_nat (length (wire_seen (io_world q) 7)))"
proof -
  obtain q where q: "runs (session_step wire_os client_poll 1 7 8 0) (demo_proc (\<lambda>_. []), [])
      [Poll, Callback Client_readable] (q, [])" using demo_session by blast
  from statistics_exact [OF wire_ok client_poll_ok _ demo_memory _ q] q show ?thesis
    by (fastforce simp: zero_counter_def wire_start_def)
qed

end
