(* ===== verification/Pgmain.thy ===== *)
theory Pgmain
  imports Worker
begin

text \<open>
  \<open>src/src/main.c\<close> and \<open>src/src/libpgprtdbg/shmem.c\<close>: the process that reads the configuration, accepts
  clients and forks a worker for each, and the shared memory.
\<close>

section \<open>The host\<close>

text \<open>
  What else is needed of the host: the user id, whether memory can be mapped and unmapped, whether a
  semaphore can be initialised, what a file holds, and the calls around processes. \<open>fork\<close> gives 0 in
  the new process and the new process's id in the old one; the model follows whichever it is.
  \<open>host_loop\<close> is whether \<open>ev_default_loop\<close> succeeds with these flags, \<open>host_backend\<close> its engine.
  \<open>host_junk\<close> is the uninitialised variable of \<open>pgprtdbg_read_configuration\<close>.
\<close>

record 'w host =
  host_uid :: nat
  host_mmap :: bool
  host_munmap :: int
  host_sem :: bool
  host_file :: "ctext \<Rightarrow> byte list option"
  host_junk :: server
  host_fork :: "('w, i32) syscall"
  host_setsid :: "('w, unit) syscall"
  host_getpid :: "'w \<Rightarrow> i32"
  host_kill :: "i32 \<Rightarrow> int \<Rightarrow> ('w, unit) syscall"
  host_loop :: "i32 \<Rightarrow> bool"
  host_backend :: i32
  host_sizes :: "nat \<times> nat"

definition SIGQUIT :: int where "SIGQUIT = 3"

definition print_out :: "ctext list \<Rightarrow> 'w proc \<Rightarrow> 'w proc" where
  "print_out ts p = p\<lparr>pr_logs := (pr_logs p)
     \<lparr>log_stdout := log_stdout (pr_logs p) @ concat (map (\<lambda>t. t @ [newline]) ts)\<rparr>\<rparr>"

section \<open>Shared memory\<close>

text \<open>The segment holds the configuration and the counters, all bytes zero.\<close>

definition create_shared_memory :: "'w host \<Rightarrow> 'w proc \<Rightarrow> int \<times> 'w proc" where
  "create_shared_memory host p =
     (if host_mmap host then (0, p\<lparr>pr_config := zero_configuration, pr_counters := zero_counters\<rparr>)
      else (1, p\<lparr>io_errno := 0\<rparr>))"

definition destroy_shared_memory :: "'w host \<Rightarrow> int" where
  "destroy_shared_memory host = host_munmap host"

section \<open>Options\<close>

text \<open>The options as \<open>getopt_long\<close> gives them, one after the other.\<close>

datatype opt = Opt_config ctext | Opt_daemon | Opt_version | Opt_help | Opt_other

definition version_text :: "ctext list" where
  "version_text = [bs ''pgprtdbg 0.4.0'']"

definition usage_text :: "ctext list" where
  "usage_text = map bs [''pgprtdbg 0.4.0'', ''  PostgreSQL protocol debugging'', [],
     ''Usage:'', ''  pgprtdbg [ -c CONFIG_FILE ] [ -d ]'', [], ''Options:'',
     ''  -c, --config CONFIG_FILE Set the path to the pgprtdbg.conf file'',
     ''  -d, --daemon             Run as a daemon'',
     ''  -V, --version            Display version information'',
     ''  -?, --help               Display help'', []]"

definition stop_with :: "ctext list \<Rightarrow> 'w proc \<Rightarrow> ('w proc, 'a) outcome" where
  "stop_with ts p = Exited 1 (print_out ts p)"

fun options :: "opt list \<Rightarrow> ctext option \<Rightarrow> bool \<Rightarrow> 'w proc \<Rightarrow> ('w proc, ctext option \<times> bool) outcome" where
  "options [] path daemon p = Returned (path, daemon)"
| "options (Opt_config f # os) path daemon p = options os (Some f) daemon p"
| "options (Opt_daemon # os) path daemon p = options os path True p"
| "options (Opt_version # os) path daemon p = stop_with version_text p"
| "options (Opt_help # os) path daemon p = stop_with usage_text p"
| "options (Opt_other # os) path daemon p = options os path daemon p"

section \<open>Configuring\<close>

definition set_config :: "configuration \<Rightarrow> ctext list \<Rightarrow> 'w proc \<Rightarrow> 'w proc" where
  "set_config config printed p = print_out printed (p\<lparr>pr_config := config\<rparr>)"

definition make_daemon :: "'w host \<Rightarrow> 'w act" where
  "make_daemon host p =
     (if cfg_log_type (pr_config p) = LOGGING_TYPE_CONSOLE
      then stop_with [bs ''pgprtdbg: Daemon mode can't be used with console logging''] p
      else case call (host_fork host) p of
        (None, p) \<Rightarrow> stop_with [bs ''pgprtdbg: Daemon mode failed''] p
      | (Some pid, p) \<Rightarrow>
          if pid \<noteq> 0 then Exited 0 p
          else (case call (host_setsid host) p of
                  (None, p) \<Rightarrow> Exited 1 p
                | (Some _, p) \<Rightarrow> Returned p))"

text \<open>
  \<open>main\<close> up to where it starts logging. The result of \<open>pgprtdbg_init_configuration\<close> is ignored.
\<close>

definition configure :: "'w host \<Rightarrow> opt list \<Rightarrow> 'w act" where
  "configure host opts p =
     and_then (options opts None False p) (\<lambda>(path, daemon).
     if host_uid host = 0
     then stop_with [bs ''pgprtdbg: Using the root account is not allowed''] p
     else let (rv, p) = create_shared_memory host p
     in if rv \<noteq> 0 then stop_with [bs ''pgagroal: Error in creating shared memory''] p
     else let p = p\<lparr>pr_config := snd (init_configuration (host_sem host) (pr_config p))\<rparr>;
              f = (case path of Some f \<Rightarrow> f | None \<Rightarrow> bs ''/etc/pgprtdbg.conf'');
              (rv, config, printed) = read_configuration (host_junk host) (host_file host f) (pr_config p);
              p = set_config config printed p
     in if rv \<noteq> 0 then stop_with [bs ''pgprtdbg: Configuration not found: '' @ f] p
     else let (rv, config, printed) = validate_configuration (pr_config p);
              p = set_config config printed p
     in if rv \<noteq> 0 then Exited 1 p
     else if daemon then make_daemon host p else Returned p)"

section \<open>The state of main\<close>

text \<open>
  The statics of \<open>main.c\<close>: \<open>keep_running\<close>, \<open>unix_pgsql_socket\<close>, \<open>main_fds\<close>, \<open>client_number\<close>, and the
  sockets of \<open>io_main\<close> and \<open>io_uds\<close>, which are those that accept clients.
\<close>

record 'w main =
  mn_proc :: "'w proc"
  mn_keep_running :: bool
  mn_unix_socket :: i32
  mn_fds :: "i32 list"
  mn_io :: "i32 list"
  mn_uds :: i32
  mn_client_number :: nat

definition socket_name :: "configuration \<Rightarrow> ctext" where
  "socket_name config = snprintf MISC_LENGTH (bs ''.s.PGSQL.'' @ show_int (sint (cfg_port config)))"

definition has_unix_socket :: "configuration \<Rightarrow> bool" where
  "has_unix_socket config \<longleftrightarrow> cstr (cfg_unix_socket_dir config) \<noteq> []"

text \<open>The watchers of \<open>start_io\<close> and \<open>start_uds\<close>, and what \<open>shutdown_io\<close> and \<open>shutdown_uds\<close> undo.\<close>

definition start_io :: "'w main \<Rightarrow> 'w main" where
  "start_io m = m\<lparr>mn_io := mn_fds m\<rparr>"

definition start_uds :: "'w main \<Rightarrow> 'w main" where
  "start_uds m = m\<lparr>mn_uds := mn_unix_socket m\<rparr>"

definition disconnect_all :: "'w net \<Rightarrow> i32 list \<Rightarrow> 'w proc \<Rightarrow> 'w proc" where
  "disconnect_all net = fold (\<lambda>fd p. snd (disconnect net fd p))"

definition shutdown_io :: "'w net \<Rightarrow> 'w main \<Rightarrow> 'w main" where
  "shutdown_io net m = m\<lparr>mn_proc := disconnect_all net (mn_io m) (mn_proc m)\<rparr>"

definition shutdown_uds :: "'w net \<Rightarrow> 'w main \<Rightarrow> 'w main" where
  "shutdown_uds net m =
     (let config = pr_config (mn_proc m);
          p = (snd (disconnect net (mn_unix_socket m) (mn_proc m)))\<lparr>io_errno := 0\<rparr>;
          p = snd (remove_unix_socket net (cstr (cfg_unix_socket_dir config)) (socket_name config) p)
      in m\<lparr>mn_proc := p\<lparr>io_errno := 0\<rparr>\<rparr>)"

section \<open>Opening\<close>

definition MAX_FDS :: nat where "MAX_FDS = 64"

text \<open>
  The log, the trace file, whose \<open>fopen\<close> is not checked, and the sockets.
\<close>

definition bind_uds :: "'w os \<Rightarrow> 'w net \<Rightarrow> 'w proc \<Rightarrow> ('w proc, i32 \<times> 'w proc) outcome" where
  "bind_uds os net p =
     (if has_unix_socket (pr_config p)
      then (let dir = cstr (cfg_unix_socket_dir (pr_config p)); pgsql = socket_name (pr_config p)
            in and_then (bind_unix_socket os net dir pgsql p) (\<lambda>(rv, fd, p).
               if rv \<noteq> 0 then stop_with [bs ''pgprtdbg: Could not bind to '' @ dir @ bs ''/'' @ pgsql] p
               else Returned (fd, p)))
      else Returned (- 1, p))"

definition open_output :: "'w os \<Rightarrow> 'w proc \<Rightarrow> 'w proc" where
  "open_output os p = p\<lparr>pr_config := (pr_config p)\<lparr>cfg_file :=
     (if os_fopen os (cstr (cfg_output (pr_config p))) (io_world p) then Some [] else None)\<rparr>\<rparr>"

definition open_sockets :: "'w os \<Rightarrow> 'w net \<Rightarrow> 'w proc \<Rightarrow> ('w proc, 'w main) outcome" where
  "open_sockets os net p =
     and_then (bind_uds os net (open_output os (open_log os p))) (\<lambda>(unix_socket, p).
     let host = cstr (cfg_host (pr_config p)); port = cfg_port (pr_config p)
     in and_then (bind_all os net host port p) (\<lambda>(rv, fds, p).
        if rv \<noteq> 0
        then stop_with [bs ''pgprtdbg: Could not bind to '' @ host @ bs '':'' @ show_int (sint port)] p
        else if MAX_FDS < length fds
        then stop_with [bs ''pgprtdbg: Too many descriptors '' @ show_nat (length fds)] p
        else Returned \<lparr>mn_proc = p, mn_keep_running = True, mn_unix_socket = unix_socket, mn_fds = fds,
               mn_io = [], mn_uds = 0, mn_client_number = 0\<rparr>))"

text \<open>The event loop, the watchers, and what is logged at the start.\<close>

definition show_hex_lower :: "nat \<Rightarrow> ctext" where
  "show_hex_lower n = map to_lower (show_hex n)"

definition start_loop :: "'w host \<Rightarrow> ev_api \<Rightarrow> 'w main \<Rightarrow> ('w proc, 'w main) outcome" where
  "start_loop host ev m =
     (let engine = Some (cstr (cfg_libev (pr_config (mn_proc m))))
      in and_then (libev ev engine (mn_proc m)) (\<lambda>(flags, p).
         if \<not> host_loop host flags
         then and_then (libev ev engine p) (\<lambda>(flags, p).
           stop_with [bs ''pgprtdbg: No loop implementation ('' @ show_hex_lower (unat flags) @ bs '') ('' @
             show_hex_lower (unat (ev_supported ev)) @ bs '')''] p)
         else let m = m\<lparr>mn_proc := p\<rparr>
         in Returned (start_io (if has_unix_socket (pr_config p) then start_uds m else m))))"

definition log_startup :: "'w host \<Rightarrow> ev_api \<Rightarrow> 'w main \<Rightarrow> ('w proc, 'w main) outcome" where
  "log_startup host ev m =
     (let p = lock_log (mn_proc m); config = pr_config p
      in and_then (log_to ([line ''--------'', line ''Startup'',
             Line (bs ''pgprtdbg: started on '' @ cstr (cfg_host config) @ bs '':'' @ show_int (sint (cfg_port config)))] @
           map (\<lambda>fd. Line (bs ''Socket '' @ show_int (sint fd))) (mn_fds m)) p) (\<lambda>p.
         and_then (libev_engines ev p) (\<lambda>p.
         and_then (log_to [line_s ''libev engine: '' (libev_engine ev (host_backend host)),
             line_s ''Configuration size: '' (show_nat (fst (host_sizes host))),
             line_s ''Event counters size: '' (show_nat (snd (host_sizes host)))] p) (\<lambda>p.
           Returned (m\<lparr>mn_proc := unlock_log p\<rparr>)))))"

section \<open>Accepting clients\<close>

text \<open>
  \<open>accept_cb\<close> on the watcher of the socket \<open>fd\<close>. In the new process \<open>pgprtdbg_worker\<close> does not return.
  A failed \<open>fork\<close> goes the way of the old process.
\<close>

definition count_client :: "'w main \<Rightarrow> ('w proc, 'w main) outcome" where
  "count_client m =
     (if mn_client_number m < MAX_NUMBER_OF_COUNTERS
      then Returned (m\<lparr>mn_client_number := mn_client_number m + 1\<rparr>)
      else and_then (say (Line (bs ''pgprtdbg: maximum number of counters reached.'' @ [newline])) (mn_proc m)) (\<lambda>p.
        Returned (m\<lparr>mn_proc := p\<rparr>)))"

definition accept_child :: "'w os \<Rightarrow> 'w net \<Rightarrow> 'w host \<Rightarrow> ev_api \<Rightarrow> 'w poll \<Rightarrow> nat \<Rightarrow> i32 \<Rightarrow> i32 \<Rightarrow>
    'w main \<Rightarrow> ('w proc, 'w main) outcome" where
  "accept_child os net host ev poll fuel fd client_fd m =
     (let p = (mn_proc m)\<lparr>pr_pid := host_getpid host (io_world (mn_proc m))\<rparr>;
          m = shutdown_io net (m\<lparr>mn_proc := p\<rparr>);
          p = snd (disconnect net fd (mn_proc m))
      in and_then (worker os net ev poll fuel client_fd (mn_client_number m) p) (\<lambda>p.
           Returned (m\<lparr>mn_proc := p\<rparr>)))"

definition accept_cb :: "'w os \<Rightarrow> 'w net \<Rightarrow> 'w host \<Rightarrow> ev_api \<Rightarrow> 'w poll \<Rightarrow> nat \<Rightarrow> i32 \<Rightarrow> bool \<Rightarrow>
    'w main \<Rightarrow> ('w proc, 'w main) outcome" where
  "accept_cb os net host ev poll fuel fd ev_error m =
     (if ev_error then Returned m
      else if MAX_NUMBER_OF_CONNECTIONS < unat (cfg_active_connections (pr_config (mn_proc m))) then Returned m
      else case call (net_accept net fd) (mn_proc m) of
        (None, p) \<Rightarrow> Returned (m\<lparr>mn_proc := p\<rparr>)
      | (Some client_fd, p) \<Rightarrow>
          (case call (host_fork host) p of
             (pid, p) \<Rightarrow>
               and_then (if pid = Some 0
                 then accept_child os net host ev poll fuel fd client_fd (m\<lparr>mn_proc := p\<rparr>)
                 else Returned (m\<lparr>mn_proc := p\<rparr>)) (\<lambda>m.
               and_then (count_client m) (\<lambda>m.
                 Returned (m\<lparr>mn_proc := snd (disconnect net client_fd (mn_proc m))\<rparr>)))))"

definition shutdown_cb :: "'w main \<Rightarrow> ('w proc, 'w main) outcome" where
  "shutdown_cb m = Returned (m\<lparr>mn_keep_running := False\<rparr>)"

text \<open>\<open>abort\<close> ends the process by the signal \<open>SIGABRT\<close>, which a shell shows as the status 134.\<close>

definition coredump_cb :: "'w main \<Rightarrow> ('w proc, 'w main) outcome" where
  "coredump_cb m = Exited 134 (mn_proc m)"

section \<open>The loop and the end\<close>

datatype main_event = Accept i32 bool | Shutdown | Coredump

definition main_callback :: "'w os \<Rightarrow> 'w net \<Rightarrow> 'w host \<Rightarrow> ev_api \<Rightarrow> 'w poll \<Rightarrow> nat \<Rightarrow> main_event \<Rightarrow>
    'w main \<Rightarrow> ('w proc, 'w main) outcome" where
  "main_callback os net host ev poll fuel e m =
     (case e of
        Accept fd ev_error \<Rightarrow> accept_cb os net host ev poll fuel fd ev_error m
      | Shutdown \<Rightarrow> shutdown_cb m
      | Coredump \<Rightarrow> coredump_cb m)"

fun main_callbacks :: "'w os \<Rightarrow> 'w net \<Rightarrow> 'w host \<Rightarrow> ev_api \<Rightarrow> 'w poll \<Rightarrow> nat \<Rightarrow> main_event list \<Rightarrow>
    'w main \<Rightarrow> ('w proc, 'w main) outcome" where
  "main_callbacks os net host ev poll fuel [] m = Returned m"
| "main_callbacks os net host ev poll fuel (e # es) m =
     and_then (main_callback os net host ev poll fuel e m)
       (main_callbacks os net host ev poll fuel es)"

text \<open>\<open>while (keep_running) ev_loop (main_loop, 0)\<close>, the events of an iteration from \<open>main_poll\<close>.\<close>

definition main_step :: "'w os \<Rightarrow> 'w net \<Rightarrow> 'w host \<Rightarrow> ev_api \<Rightarrow> 'w poll \<Rightarrow>
    ('w \<Rightarrow> main_event list \<times> 'w) \<Rightarrow> nat \<Rightarrow> 'w main \<Rightarrow> ('w main, ('w proc, 'w main) outcome) iter" where
  "main_step os net host ev poll main_poll fuel m =
     (if mn_keep_running m
      then (let (events, w) = main_poll (io_world (mn_proc m))
            in case main_callbacks os net host ev poll fuel events
                   (m\<lparr>mn_proc := (mn_proc m)\<lparr>io_world := w\<rparr>\<rparr>) of
                 Returned m \<Rightarrow> Again m
               | r \<Rightarrow> Stop r)
      else Stop (Returned m))"

definition signal_workers :: "'w host \<Rightarrow> 'w proc \<Rightarrow> 'w proc" where
  "signal_workers host p =
     fold (\<lambda>pid p. if pid \<noteq> 0 then snd (call (host_kill host pid SIGQUIT) p) else p)
       (cfg_pids (pr_config p)) p"

text \<open>
  What is behind the loop: the sockets and the workers, then the statistics, the trace file and the
  log. The result of \<open>pgprtdbg_destroy_shared_memory\<close>, the last call, is ignored.
\<close>

definition stop_serving :: "'w net \<Rightarrow> 'w host \<Rightarrow> 'w main \<Rightarrow> 'w main" where
  "stop_serving net host m =
     (let m = shutdown_io net m;
          m = (if has_unix_socket (pr_config (mn_proc m)) then shutdown_uds net m else m)
      in m\<lparr>mn_proc := signal_workers host (mn_proc m)\<rparr>)"

text \<open>
  The file of the statistics is not closed: its pointer is a variable of
  \<open>pgprtdbg_counter_output_statistics\<close>. A file that has been closed is \<open>None\<close> again.
\<close>

definition write_statistics :: "'w os \<Rightarrow> nat \<Rightarrow> 'w act" where
  "write_statistics os client_number p =
     and_then (defined (counter_output_statistics (pr_config p) (\<lambda>f. os_fopen os f (io_world p))
       (pr_counters p) (int client_number))) (\<lambda>(file, t).
     Returned (case file of
         None \<Rightarrow> p\<lparr>pr_logs := (pr_logs p)\<lparr>log_stdout := log_stdout (pr_logs p) @ t\<rparr>\<rparr>
       | Some f \<Rightarrow> p\<lparr>pr_files := (pr_files p)(f := t), pr_unclosed := pr_unclosed p @ [f]\<rparr>))"

definition close_files :: "'w act" where
  "close_files p =
     and_then (defined (cfg_file (pr_config p))) (\<lambda>_.
     and_then (defined (stop_logging (pr_config p) (pr_logs p))) (\<lambda>lg.
       Returned (p\<lparr>pr_logs := lg, pr_config := (pr_config p)\<lparr>cfg_file := None\<rparr>\<rparr>)))"

definition shutdown_main :: "'w os \<Rightarrow> 'w net \<Rightarrow> 'w host \<Rightarrow> 'w main \<Rightarrow> ('w proc, int \<times> 'w main) outcome" where
  "shutdown_main os net host m =
     and_then (say (line ''pgprtdbg: shutdown'') (mn_proc m)) (\<lambda>p.
     let m = stop_serving net host (m\<lparr>mn_proc := p\<rparr>)
     in and_then (write_statistics os (mn_client_number m) (mn_proc m)) (\<lambda>p.
        and_then (close_files p) (\<lambda>p. Returned (0, m\<lparr>mn_proc := p\<rparr>))))"

definition main_run :: "'w os \<Rightarrow> 'w net \<Rightarrow> 'w host \<Rightarrow> ev_api \<Rightarrow> 'w poll \<Rightarrow>
    ('w \<Rightarrow> main_event list \<times> 'w) \<Rightarrow> nat \<Rightarrow> opt list \<Rightarrow> 'w proc \<Rightarrow> ('w proc, int \<times> 'w main) outcome" where
  "main_run os net host ev poll main_poll fuel opts p =
     and_then (configure host opts p) (\<lambda>p.
     and_then (open_sockets os net p) (\<lambda>m.
     and_then (start_loop host ev m) (\<lambda>m.
     and_then (log_startup host ev m) (\<lambda>m.
     and_then (run_loop (main_step os net host ev poll main_poll fuel) fuel m)
       (shutdown_main os net host)))))"

section \<open>What main hands to the workers\<close>

text \<open>
  What changes the state of \<open>main\<close> between two looks at it: a callback that returned, waiting for
  events, and the other processes, which write to the shared memory.
\<close>

datatype 'w main_move = Handled main_event | Waited 'w | Others configuration "event_counter list"

inductive main_moves :: "'w os \<Rightarrow> 'w net \<Rightarrow> 'w host \<Rightarrow> ev_api \<Rightarrow> 'w poll \<Rightarrow> nat \<Rightarrow>
    'w main \<Rightarrow> 'w main_move \<Rightarrow> 'w main \<Rightarrow> bool"
  for os :: "'w os" and net host ev poll fuel where
  handled: "main_callback os net host ev poll fuel e m = Returned m' \<Longrightarrow>
    main_moves os net host ev poll fuel m (Handled e) m'"
| waited: "main_moves os net host ev poll fuel m (Waited w) (m\<lparr>mn_proc := (mn_proc m)\<lparr>io_world := w\<rparr>\<rparr>)"
| others: "length cs = length (pr_counters (mn_proc m)) \<Longrightarrow>
    main_moves os net host ev poll fuel m (Others c cs)
      (m\<lparr>mn_proc := (mn_proc m)\<lparr>pr_config := c, pr_counters := cs\<rparr>\<rparr>)"

text \<open>The counters are never replaced by others, and the number of clients stays in their range.\<close>

definition main_ok :: "'w main \<Rightarrow> bool" where
  "main_ok m \<longleftrightarrow> mn_client_number m \<le> MAX_NUMBER_OF_COUNTERS \<and>
     length (pr_counters (mn_proc m)) = MAX_NUMBER_OF_COUNTERS + 1"

lemma call_counters: "call f p = (r, q) \<Longrightarrow> pr_counters q = pr_counters p"
  by (erule call_cases) simp_all

lemma disconnect_counters: "pr_counters (snd (disconnect net fd p)) = pr_counters p"
  by (auto simp: disconnect_def split: option.split prod.split dest: call_counters)

lemma say_counters: "say item p = Returned q \<Longrightarrow> pr_counters q = pr_counters p"
  by (auto simp: say_def log_to_def lock_log_def unlock_log_def and_then_Returned_iff split: option.splits)

lemma count_client_ok: "main_ok m \<Longrightarrow> count_client m = Returned m' \<Longrightarrow> main_ok m'"
  by (auto simp: main_ok_def count_client_def and_then_Returned_iff dest: say_counters split: if_splits)

text \<open>How \<open>accept_cb\<close> returns in the process of \<open>main\<close>.\<close>

lemma accept_cases:
  assumes "accept_cb os net host ev poll fuel fd ev_error m = Returned m'"
  obtains (refused) "m' = m"
        "ev_error \<or> MAX_NUMBER_OF_CONNECTIONS < unat (cfg_active_connections (pr_config (mn_proc m)))"
    | (no_client) p where "unat (cfg_active_connections (pr_config (mn_proc m))) \<le> MAX_NUMBER_OF_CONNECTIONS"
        "call (net_accept net fd) (mn_proc m) = (None, p)" "m' = m\<lparr>mn_proc := p\<rparr>" "\<not> ev_error"
    | (client) c p y q m1 where "unat (cfg_active_connections (pr_config (mn_proc m))) \<le> MAX_NUMBER_OF_CONNECTIONS"
        "call (net_accept net fd) (mn_proc m) = (Some c, p)" "call (host_fork host) p = (y, q)" "y \<noteq> Some 0"
        "count_client (m\<lparr>mn_proc := q\<rparr>) = Returned m1" "m' = m1\<lparr>mn_proc := snd (disconnect net c (mn_proc m1))\<rparr>" "\<not> ev_error"
proof -
  obtain x p where x: "call (net_accept net fd) (mn_proc m) = (x, p)" by fastforce
  obtain y q where y: "call (host_fork host) p = (y, q)" by fastforce
  have child: "accept_child os net host ev poll fuel fd c m1 \<noteq> Returned m2" for c m1 m2
    by (simp add: accept_child_def and_then_Returned_iff worker_never_returns Let_def)
  have "m' = m \<and> (ev_error \<or> MAX_NUMBER_OF_CONNECTIONS < unat (cfg_active_connections (pr_config (mn_proc m)))) \<or>
    \<not> ev_error \<and> unat (cfg_active_connections (pr_config (mn_proc m))) \<le> MAX_NUMBER_OF_CONNECTIONS \<and>
    (x = None \<and> m' = m\<lparr>mn_proc := p\<rparr> \<or> (\<exists>c m1. x = Some c \<and> y \<noteq> Some 0 \<and>
      count_client (m\<lparr>mn_proc := q\<rparr>) = Returned m1 \<and> m' = m1\<lparr>mn_proc := snd (disconnect net c (mn_proc m1))\<rparr>))"
    using assms x y child by (auto simp: accept_cb_def and_then_Returned_iff split: if_splits option.splits)
  with x y show thesis using refused no_client client by metis
qed

lemma accept_ok:
  assumes "main_ok m" "accept_cb os net host ev poll fuel fd ev_error m = Returned m'"
  shows "main_ok m'"
  using assms(2)
proof (cases rule: accept_cases)
  case (client c p y q m1)
  have "pr_counters q = pr_counters (mn_proc m)"
    using call_counters [OF client(2)] call_counters [OF client(3)] by simp
  then have "main_ok (m\<lparr>mn_proc := q\<rparr>)" using assms(1) by (simp add: main_ok_def)
  from count_client_ok [OF this client(5)] client(6) show ?thesis by (simp add: main_ok_def disconnect_counters)
qed (use assms(1) in \<open>auto simp: main_ok_def dest: call_counters\<close>)

interpretation main_machine: machine main_ok "main_moves os net host ev poll fuel" "\<lambda>_. True" main_ok
  for os :: "'w os" and net host ev poll fuel
proof unfold_locales
  fix m e m'
  assume inv: "main_ok m" and step: "main_moves os net host ev poll fuel m e m'"
  from step show "main_ok m'"
  proof (cases rule: main_moves.cases)
    case (handled e)
    show ?thesis
    proof (cases e)
      case (Accept fd ev_error)
      with handled(2) show ?thesis by (auto simp: main_callback_def intro: accept_ok [OF inv])
    qed (use handled(2) inv in \<open>auto simp: main_callback_def shutdown_cb_def coredump_cb_def main_ok_def\<close>)
  qed (use inv in \<open>simp_all add: main_ok_def\<close>)
qed

text \<open>
  C14. Whatever clients come and whatever the workers write to the shared memory, the number that
  \<open>main\<close> gives to the next client is that of a counter which exists, and the statistics at the end
  read no more counters than there are.
\<close>

theorem client_number_in_range:
  assumes "runs (main_moves os net host ev poll fuel) m l m'"
    "mn_client_number m = 0" "pr_counters (mn_proc m) = zero_counters"
  shows "counter_get (pr_counters (mn_proc m')) (mn_client_number m') \<noteq> None \<and>
    (counter_output_statistics config (\<lambda>_. True) (pr_counters (mn_proc m')) (int (mn_client_number m')) \<noteq> None)"
proof -
  have "main_ok m" using assms(2,3) by (simp add: main_ok_def zero_counters_def)
  with main_machine.runs_from_initial [OF assms(1)] have ok: "main_ok m'" by simp
  then have "mn_client_number m' < length (pr_counters (mn_proc m'))" by (simp add: main_ok_def)
  then show ?thesis
    using statistics_loop_spec [of 0 "mn_client_number m'" "pr_counters (mn_proc m')"]
    by (cases "mn_client_number m' = 0") (auto simp: counter_get_def counter_output_statistics_def Let_def)
qed

section \<open>What main keeps open\<close>

text \<open>Between two callbacks of \<open>main\<close>: its own sockets stay as they are.\<close>

definition same_sockets :: "'w main \<Rightarrow> 'w main \<Rightarrow> bool" where
  "same_sockets m m' \<longleftrightarrow> only_net (mn_proc m) (mn_proc m') \<and> mn_fds m' = mn_fds m \<and> mn_io m' = mn_io m \<and> mn_uds m' = mn_uds m \<and>
     mn_unix_socket m' = mn_unix_socket m \<and> mn_keep_running m' = mn_keep_running m"

lemma same_sockets_only: "only_net (mn_proc m) p \<Longrightarrow> same_sockets m (m\<lparr>mn_proc := p\<rparr>)"
  by (simp add: same_sockets_def)

lemma same_sockets_refl: "same_sockets m m"
  by (simp add: same_sockets_def only_net_refl)

lemma same_sockets_trans: "same_sockets m m' \<Longrightarrow> same_sockets m' m'' \<Longrightarrow> same_sockets m m''"
  by (auto simp: same_sockets_def intro: only_net_trans)

lemma count_client_gives:
  assumes "loggable (mn_proc m)"
  shows "gives (\<lambda>m'. same_sockets m m' \<and> io_world (mn_proc m') = io_world (mn_proc m) \<and>
      mn_client_number m \<le> mn_client_number m' \<and> mn_client_number m' \<le> mn_client_number m + 1) (count_client m)"
proof (cases "mn_client_number m < MAX_NUMBER_OF_COUNTERS")
  case True
  then show ?thesis by (simp add: count_client_def same_sockets_def only_net_refl)
next
  case False
  have "gives (\<lambda>m'. same_sockets m m' \<and> io_world (mn_proc m') = io_world (mn_proc m) \<and>
      mn_client_number m \<le> mn_client_number m' \<and> mn_client_number m' \<le> mn_client_number m + 1)
    (and_then (say (Line t) (mn_proc m)) (\<lambda>p. Returned (m\<lparr>mn_proc := p\<rparr>)))" for t
    by (rule gives_then [OF say_gives [OF assms]]) (simp_all add: same_sockets_only)
  with False show ?thesis by (simp add: count_client_def)
qed

definition stays_parent :: "'w host \<Rightarrow> ('w \<Rightarrow> i32 set) \<Rightarrow> bool" where
  "stays_parent host fds \<longleftrightarrow> keeps_open fds (host_fork host) \<and> (\<forall>w. fst (host_fork host w) \<noteq> Inr 0)"

lemma accept_gives:
  assumes "net_ok net fds" "stays_parent host fds" "loggable (mn_proc m)"
  shows "gives (\<lambda>m'. same_sockets m m' \<and> fds (io_world (mn_proc m')) = fds (io_world (mn_proc m)) \<and>
      mn_client_number m \<le> mn_client_number m' \<and> mn_client_number m' \<le> mn_client_number m + 1)
    (accept_cb os net host ev poll fuel fd ev_error m)" (is "gives ?P _")
proof -
  obtain x p where x: "call (net_accept net fd) (mn_proc m) = (x, p)" by fastforce
  note opened = call_opens [OF net_okD(2) [OF assms(1)] x]
  obtain y q where y: "call (host_fork host) p = (y, q)" by fastforce
  have "fds (io_world q) = fds (io_world p)"
    using call_keeps_open [OF _ y] assms(2) by (simp add: stays_parent_def)
  note opened = opened [folded this]
  have "y \<noteq> Some 0"
    using y assms(2) by (auto simp: stays_parent_def elim!: call_cases) (metis fst_conv)
  have only: "only_net (mn_proc m) q" by (rule only_net_trans [OF call_only [OF x] call_only [OF y]])
  then have log: "loggable (mn_proc (m\<lparr>mn_proc := q\<rparr>))" using only_net_keeps(1) [OF only] assms(3) by simp
  have closed: "gives ?P (and_then (count_client (m\<lparr>mn_proc := q\<rparr>)) (\<lambda>m.
      Returned (m\<lparr>mn_proc := snd (disconnect net c (mn_proc m))\<rparr>)))" if "x = Some c" for c
  proof (rule gives_then [OF count_client_gives [OF log]], clarify)
    fix m1 assume m1: "same_sockets (m\<lparr>mn_proc := q\<rparr>) m1"
      "io_world (mn_proc m1) = io_world (mn_proc (m\<lparr>mn_proc := q\<rparr>))"
      "mn_client_number (m\<lparr>mn_proc := q\<rparr>) \<le> mn_client_number m1"
      "mn_client_number m1 \<le> mn_client_number (m\<lparr>mn_proc := q\<rparr>) + 1"
    obtain rv r where d: "disconnect net c (mn_proc m1) = (rv, r)" by fastforce
    from opened that have "c \<noteq> - 1" by simp
    note r = disconnect_closes [OF assms(1) d this]
    have "same_sockets m1 (m1\<lparr>mn_proc := r\<rparr>)" using r same_sockets_only by blast
    then have "same_sockets m (m1\<lparr>mn_proc := r\<rparr>)"
      using same_sockets_trans [OF same_sockets_only [OF only]] m1(1) same_sockets_trans by blast
    with opened that m1(2-4) d r
    show "gives ?P (Returned (m1\<lparr>mn_proc := snd (disconnect net c (mn_proc m1))\<rparr>))" by auto
  qed
  have "fds (io_world p) = fds (io_world (mn_proc m))" if "x = None"
    using call_opens [OF net_okD(2) [OF assms(1)] x] that by simp
  with closed x y \<open>y \<noteq> Some 0\<close> same_sockets_only [OF call_only [OF x]] same_sockets_refl [of m] show ?thesis
    by (auto simp: accept_cb_def split: option.split)
qed

text \<open>
  In the process that accepts, the callback for a new client returns with exactly the descriptors
  open that were open before, whether the client is refused, \<open>accept\<close> or \<open>fork\<close> fails or a worker
  has been started: the client's socket does not stay with \<open>main\<close>. At most one client is counted.
\<close>

theorem accept_keeps_descriptors:
  assumes "net_ok net fds" "stays_parent host fds" "loggable (mn_proc m)"
  shows "\<exists>m'. accept_cb os net host ev poll fuel fd ev_error m = Returned m' \<and>
    fds (io_world (mn_proc m')) = fds (io_world (mn_proc m)) \<and> mn_io m' = mn_io m \<and>
    mn_client_number m \<le> mn_client_number m' \<and> mn_client_number m' \<le> mn_client_number m + 1"
  using accept_gives [OF assms, of os ev poll fuel fd ev_error] by (auto simp: gives_def same_sockets_def)

text \<open>For the witnesses: a host on which \<open>fork\<close> gives the id 5000 to the old process.\<close>

definition demo_host :: "'w host" where
  "demo_host = \<lparr>host_uid = 1000, host_mmap = True, host_munmap = 0, host_sem = True,
     host_file = (\<lambda>_. None), host_junk = zero_server, host_fork = (\<lambda>w. (Inr 5000, w)),
     host_setsid = (\<lambda>w. (Inr (), w)), host_getpid = (\<lambda>_. 5000), host_kill = (\<lambda>_ _ w. (Inr (), w)),
     host_loop = (\<lambda>_. True), host_backend = 4, host_sizes = (4096, 40040)\<rparr>"

definition demo_main :: "(wire \<times> i32 list) main" where
  "demo_main = \<lparr>mn_proc = (host_proc (\<lambda>_. []) [3])\<lparr>pr_counters := zero_counters\<rparr>, mn_keep_running = True,
     mn_unix_socket = - 1, mn_fds = [3], mn_io = [3], mn_uds = 0, mn_client_number = 0\<rparr>"

lemma demo_stays_parent: "stays_parent demo_host fds"
  by (simp add: stays_parent_def demo_host_def keeps_open_def)

lemma demo_main_loggable: "loggable (mn_proc demo_main)"
  using host_loggable [of "\<lambda>_. []" "[3]"] by (simp add: demo_main_def loggable_def)

theorem accept_keeps_descriptors_witness:
  "\<exists>m'. accept_cb (host_os wire_os) host_net demo_host demo_ev client_poll 9 3 False demo_main = Returned m' \<and>
    host_fds (io_world (mn_proc m')) = host_fds (io_world (mn_proc demo_main)) \<and> mn_io m' = mn_io demo_main \<and>
    mn_client_number demo_main \<le> mn_client_number m' \<and> mn_client_number m' \<le> mn_client_number demo_main + 1"
  by (rule accept_keeps_descriptors [OF host_net_ok demo_stays_parent demo_main_loggable])

lemma demo_accept:
  "\<exists>m'. accept_cb (host_os wire_os) host_net demo_host demo_ev client_poll 9 3 False demo_main = Returned m'"
  by (simp add: accept_cb_def count_client_def demo_host_def demo_main_def host_net_def host_new_def call_def
      MAX_NUMBER_OF_COUNTERS_def MAX_NUMBER_OF_CONNECTIONS_def demo_configuration_def zero_configuration_def)

theorem client_number_in_range_witness:
  "\<exists>m'. runs (main_moves (host_os wire_os) host_net demo_host demo_ev client_poll 9) demo_main
      [Handled (Accept 3 False), Handled Shutdown] m' \<and>
    counter_get (pr_counters (mn_proc m')) (mn_client_number m') \<noteq> None \<and>
    (counter_output_statistics zero_configuration (\<lambda>_. True) (pr_counters (mn_proc m'))
      (int (mn_client_number m')) \<noteq> None)"
proof -
  from demo_accept obtain m1 where
    "accept_cb (host_os wire_os) host_net demo_host demo_ev client_poll 9 3 False demo_main = Returned m1" by blast
  then have "runs (main_moves (host_os wire_os) host_net demo_host demo_ev client_poll 9) demo_main
      [Handled (Accept 3 False), Handled Shutdown] (m1\<lparr>mn_keep_running := False\<rparr>)"
    by (auto intro!: runs_Cons runs_Nil handled simp: main_callback_def shutdown_cb_def)
  from this client_number_in_range [OF this] show ?thesis by (auto simp: demo_main_def)
qed

end
