(* ===== verification/Lifecycle.thy ===== *)
theory Lifecycle
  imports Pgmain
begin

text \<open>
  The start and the end of \<open>main\<close> (\<open>src/src/main.c\<close>): what holds of the shared memory once the
  configuration has been read, and what is closed, signalled and printed at the shutdown.
\<close>

section \<open>The start\<close>

lemma options_daemon:
  "options opts path0 daemon0 p = Returned (path, daemon) \<Longrightarrow> daemon \<longleftrightarrow> daemon0 \<or> Opt_daemon \<in> set opts"
  by (induction opts path0 daemon0 p rule: options.induct) (auto simp: stop_with_def)

lemma make_daemon_keeps:
  "make_daemon host p = Returned q \<Longrightarrow> pr_config q = pr_config p \<and> pr_counters q = pr_counters p \<and>
    cfg_log_type (pr_config p) \<noteq> LOGGING_TYPE_CONSOLE"
  by (auto simp: make_daemon_def stop_with_def split: if_splits option.splits prod.splits elim!: call_cases)

lemma validate_configuration_accepts:
  "validate_configuration c = (0, c', out) \<Longrightarrow> config_ok c \<Longrightarrow>
    config_ok c' \<and> required_settings c' \<and> 0 <s cfg_backlog c'"
  by (auto simp: validate_configuration_def required_settings_def config_ok_def Let_def
      not_less word_sle_eq word_sless_alt split: if_splits)

lemma configured:
  assumes "configure host opts p = Returned q"
  shows "config_ok (pr_config q) \<and> required_settings (pr_config q) \<and> 0 <s cfg_backlog (pr_config q) \<and>
    pr_counters q = zero_counters \<and> host_uid host \<noteq> 0 \<and>
    (Opt_daemon \<in> set opts \<longrightarrow> cfg_log_type (pr_config q) \<noteq> LOGGING_TYPE_CONSOLE)"
proof -
  from assms obtain path daemon where o: "options opts None False p = Returned (path, daemon)"
    by (auto simp: configure_def and_then_Returned_iff)
  let ?p1 = "snd (create_shared_memory host p)"
  let ?f = "case path of Some f \<Rightarrow> f | None \<Rightarrow> bs ''/etc/pgprtdbg.conf''"
  obtain rv config printed where r: "read_configuration (host_junk host) (host_file host ?f)
      (snd (init_configuration (host_sem host) (pr_config ?p1))) = (rv, config, printed)" by (rule prod_cases3)
  obtain rv2 config2 printed2 where v: "validate_configuration config = (rv2, config2, printed2)" by (rule prod_cases3)
  have mapped: "host_mmap host" "host_uid host \<noteq> 0"
    using assms o by (auto simp: configure_def stop_with_def create_shared_memory_def split: if_splits)
  then have p1: "pr_config ?p1 = zero_configuration" "pr_counters ?p1 = zero_counters"
    by (simp_all add: create_shared_memory_def)
  have ok: "config_ok config"
    using read_configuration_keeps_ok [OF init_configuration_ok] r p1(1) by simp
  let ?p2 = "set_config config2 printed2 (set_config config printed
    (?p1\<lparr>pr_config := snd (init_configuration (host_sem host) (pr_config ?p1))\<rparr>))"
  have "rv = 0" "rv2 = 0" and q: "(if daemon then make_daemon host ?p2 else Returned ?p2) = Returned q"
    using assms o r v mapped
    by (auto simp: configure_def stop_with_def create_shared_memory_def set_config_def print_out_def Let_def
        split: if_splits)
  have "pr_config ?p2 = config2" "pr_counters ?p2 = zero_counters"
    using p1 by (simp_all add: set_config_def print_out_def)
  with q make_daemon_keeps [of host ?p2 q] options_daemon [OF o]
  have "pr_config q = config2 \<and> pr_counters q = zero_counters \<and>
      (Opt_daemon \<in> set opts \<longrightarrow> cfg_log_type config2 \<noteq> LOGGING_TYPE_CONSOLE)"
    by (auto split: if_splits)
  with validate_configuration_accepts [of config config2 printed2] v ok mapped \<open>rv2 = 0\<close> show ?thesis by simp
qed

text \<open>
  C23. When \<open>main\<close> goes on behind its configuration, whatever options it was given, whatever the file
  holds and whatever was in the shared memory: the account is not root's, every text setting is
  NUL-terminated in its array and the buffer size capped, the required settings are there, the backlog
  is positive, and all counters are zero. A daemon does not log to the console.
\<close>

theorem configured_settings:
  assumes "configure host opts p = Returned q"
  shows "config_ok (pr_config q) \<and> required_settings (pr_config q) \<and> 0 <s cfg_backlog (pr_config q) \<and>
    pr_counters q = zero_counters \<and> host_uid host \<noteq> 0 \<and>
    (Opt_daemon \<in> set opts \<longrightarrow> cfg_log_type (pr_config q) \<noteq> LOGGING_TYPE_CONSOLE)"
  by (rule configured [OF assms])

text \<open>For the witness: a host with a configuration file.\<close>

definition file_host :: "'w host" where
  "file_host = demo_host\<lparr>host_file := (\<lambda>_. Some (render_config (bs ''localhost'') 2346 (bs ''pgprtdbg.out'')
     (bs ''primary'') (bs ''db.example.org'') 5432))\<rparr>"

lemma demo_plain: "plain_value (bs ''localhost'')" "plain_value (bs ''pgprtdbg.out'')" "plain_section (bs ''primary'')"
  "plain_value (bs ''db.example.org'')"
  by (simp_all add: plain_value_def plain_section_def nul_free_def value_end_def separator_def MISC_LENGTH_def bs_def)

lemma file_host_configures: "\<exists>q. configure file_host [Opt_config (bs ''my.conf'')] p = Returned q"
  using read_rendered [OF demo_plain] rendered_valid [OF demo_plain]
  by (simp add: configure_def file_host_def demo_host_def create_shared_memory_def set_config_def print_out_def Let_def)

theorem configured_settings_witness:
  "\<exists>q. configure file_host [Opt_config (bs ''my.conf'')] (proc_on ()) = Returned q \<and>
    config_ok (pr_config q) \<and> required_settings (pr_config q) \<and> 0 <s cfg_backlog (pr_config q) \<and>
    pr_counters q = zero_counters \<and> host_uid (file_host :: unit host) \<noteq> 0 \<and>
    (Opt_daemon \<in> set [Opt_config (bs ''my.conf'')] \<longrightarrow> cfg_log_type (pr_config q) \<noteq> LOGGING_TYPE_CONSOLE)"
proof -
  from file_host_configures obtain q where q: "configure file_host [Opt_config (bs ''my.conf'')] (proc_on ()) = Returned q"
    by blast
  from q configured_settings [OF q] show ?thesis by blast
qed

section \<open>The limit on the connections\<close>

lemma worker_start_pids:
  "ends (\<lambda>q. cfg_pids (pr_config q) = replace_first 0 (pr_pid p) (cfg_pids (pr_config p))) E
    (worker_start os client_fd p)"
  unfolding worker_start_def Let_def
proof (rule ends_then [where P = "\<lambda>_. True", OF ends_defined])
  fix m
  let ?r = "set_pids (replace_first 0 (pr_pid (open_log os p))) ((open_log os p)\<lparr>io_memory := m\<rparr>)"
  have "cfg_pids (pr_config q) = replace_first 0 (pr_pid p) (cfg_pids (pr_config p))" if "seated ?r q" for q
    using that same_seatD(1) [of ?r q] by (simp add: seated_def set_pids_def open_log_def)
  then show "ends (\<lambda>q. cfg_pids (pr_config q) = replace_first 0 (pr_pid p) (cfg_pids (pr_config p))) E
      (and_then (log_client ''Start'' client_fd ?r) (\<lambda>p.
        if cfg_save_traffic (pr_config p) then save_begin_marker os p else Returned p))"
    by (intro ends_then [OF seat.log_client_keeps [OF seated_refl]])
      (auto elim: ends_mono [OF seat.marker_keeps(1)])
qed simp

text \<open>
  The limit on the connections lies one above the number of places in the process table: with up
  to 1000 clients connected another one is accepted, counted and given a process, and the worker of
  the 1001st finds no place for its process id, so that the shutdown does not signal it.
\<close>

theorem accept_limit:
  assumes "call (net_accept net fd) (mn_proc m) = (Some client_fd, p)"
    "call (host_fork host) p = (Some pid, q)" "pid \<noteq> 0" "mn_client_number m < MAX_NUMBER_OF_COUNTERS"
    "0 \<notin> set (cfg_pids (pr_config r))" "worker_start os client_fd r = Returned s"
  shows "accept_cb os net host ev poll fuel fd False m = Returned
      (if unat (cfg_active_connections (pr_config (mn_proc m))) \<le> 1000
       then m\<lparr>mn_client_number := mn_client_number m + 1, mn_proc := snd (disconnect net client_fd q)\<rparr> else m) \<and>
    cfg_pids (pr_config s) = cfg_pids (pr_config r)"
  using worker_start_pids [of r "\<lambda>_. True" os client_fd] replace_absent [OF assms(5)] assms
  by (simp add: accept_cb_def count_client_def MAX_NUMBER_OF_CONNECTIONS_def)

definition full_table :: "(wire \<times> i32 list) proc" where
  "full_table = (host_proc (\<lambda>_. []) [3])\<lparr>pr_config := demo_configuration\<lparr>cfg_pids := replicate 1000 77\<rparr>,
     io_memory := \<lparr>mem_message = None, mem_data = None\<rparr>\<rparr>"

lemma full_table_starts: "\<exists>s. worker_start (host_os wire_os) 4 full_table = Returned s"
proof -
  have log: "gives (\<lambda>q. \<not> cfg_save_traffic (pr_config q)) (log_client ''Start'' 4 p)"
    if "cfg_log_type (pr_config p) = 0" "\<not> cfg_save_traffic (pr_config p)" for p :: "(wire \<times> i32 list) proc"
    using that by (simp add: log_client_def log_to_def lock_log_def log_lock_def log_one_open can_log_def
        unlock_log_def log_unlock_def LOGGING_TYPE_FILE_def)
  have c: "cfg_log_type (pr_config full_table) = 0" "\<not> cfg_save_traffic (pr_config full_table)"
    "\<exists>m. memory_init (pr_config full_table) (io_memory full_table) = Some m"
    by (simp_all add: full_table_def demo_configuration_def zero_configuration_def memory_init_def)
  have "gives (\<lambda>_. True) (worker_start (host_os wire_os) 4 full_table)"
    using c unfolding worker_start_def Let_def
    by (auto simp: open_log_def set_pids_def intro!: gives_then [OF log])
  then show ?thesis by (simp add: gives_def)
qed

theorem accept_limit_witness:
  "\<exists>s m'. worker_start (host_os wire_os) 4 full_table = Returned s \<and> cfg_pids (pr_config s) = replicate 1000 77 \<and>
    accept_cb (host_os wire_os) host_net demo_host demo_ev client_poll 9 3 False demo_main = Returned m' \<and>
    mn_client_number m' = 1"
proof -
  from full_table_starts obtain s where s: "worker_start (host_os wire_os) 4 full_table = Returned s" by blast
  let ?p = "(mn_proc demo_main)\<lparr>io_world := (wire_start (\<lambda>_. []), [4, 3])\<rparr>"
  have 1: "call (net_accept host_net 3) (mn_proc demo_main) = (Some 4, ?p)"
    "call (host_fork demo_host) ?p = (Some 5000, ?p)"
    by (simp_all add: demo_main_def host_net_def host_new_def call_def demo_host_def)
  have 2: "mn_client_number demo_main < MAX_NUMBER_OF_COUNTERS" "0 \<notin> set (cfg_pids (pr_config full_table))"
    "cfg_pids (pr_config full_table) = replicate 1000 77"
    "cfg_active_connections (pr_config (mn_proc demo_main)) = 0" "mn_client_number demo_main = 0"
    by (simp_all add: demo_main_def full_table_def MAX_NUMBER_OF_COUNTERS_def
        MAX_NUMBER_OF_CONNECTIONS_def demo_configuration_def zero_configuration_def)
  from accept_limit [OF 1 _ 2(1,2) s, of demo_ev client_poll 9] s 2 show ?thesis by simp
qed

section \<open>The end\<close>

text \<open>
  What is relied on of the host: \<open>kill\<close> is noted in the list of the signals sent, \<open>close\<close> closes its
  descriptor, and neither does anything else to the two.
\<close>

definition signals_ok :: "'w net \<Rightarrow> 'w host \<Rightarrow> ('w \<Rightarrow> i32 set) \<Rightarrow> ('w \<Rightarrow> (i32 \<times> int) list) \<Rightarrow> bool" where
  "signals_ok net host fds told \<longleftrightarrow> net_ok net fds \<and>
     (\<forall>fd w. told (snd (net_close net fd w)) = told w) \<and>
     (\<forall>path w. told (snd (net_unlink net path w)) = told w) \<and>
     (\<forall>pid sig w. fds (snd (host_kill host pid sig w)) = fds w \<and>
        told (snd (host_kill host pid sig w)) = told w @ [(pid, sig)])"

text \<open>Between two states, the descriptors \<open>C\<close> were closed and the signals \<open>S\<close> sent.\<close>

definition closing :: "('w \<Rightarrow> i32 set) \<Rightarrow> ('w \<Rightarrow> (i32 \<times> int) list) \<Rightarrow> 'w proc \<Rightarrow> i32 set \<Rightarrow> (i32 \<times> int) list \<Rightarrow>
    'w proc \<Rightarrow> bool" where
  "closing fds told p C S q \<longleftrightarrow> only_net p q \<and> fds (io_world q) = fds (io_world p) - C \<and>
     told (io_world q) = told (io_world p) @ S"

lemma closing_refl: "closing fds told p {} [] p"
  by (simp add: closing_def only_net_refl)

lemma closing_trans:
  "closing fds told p C S q \<Longrightarrow> closing fds told q D T r \<Longrightarrow> closing fds told p (C \<union> D) (S @ T) r"
  by (auto simp: closing_def intro: only_net_trans)

lemma disconnect_closing:
  assumes "signals_ok net host fds told" "- 1 \<notin> fds (io_world p)"
  shows "closing fds told p {fd} [] (snd (disconnect net fd p))"
proof (cases "fd = - 1")
  case True
  then show ?thesis using assms(2) by (auto simp: closing_def disconnect_def only_net_refl)
next
  case False
  obtain rv q where d: "disconnect net fd p = (rv, q)" by fastforce
  have "net_ok net fds" using assms(1) by (simp add: signals_ok_def)
  from disconnect_closes [OF this d False] have "only_net p q \<and> fds (io_world q) = fds (io_world p) - {fd}" .
  moreover have "told (io_world q) = told (io_world p)"
    using d False assms(1) by (auto simp: disconnect_def signals_ok_def dest!: call_world split: option.splits prod.splits)
  ultimately show ?thesis by (simp add: closing_def d)
qed

lemma disconnect_all_closing:
  assumes "signals_ok net host fds told"
  shows "- 1 \<notin> fds (io_world p) \<Longrightarrow> closing fds told p (set l) [] (disconnect_all net l p)"
proof (induction l arbitrary: p)
  case Nil
  then show ?case by (simp add: disconnect_all_def closing_refl)
next
  case (Cons fd l)
  note one = disconnect_closing [OF assms Cons.prems, of fd]
  then have "- 1 \<notin> fds (io_world (snd (disconnect net fd p)))" using Cons.prems by (simp add: closing_def)
  from closing_trans [OF one Cons.IH [OF this]] show ?case by (simp add: disconnect_all_def)
qed

lemma signal_closing:
  assumes "signals_ok net host fds told"
  shows "closing fds told p {} (map (\<lambda>pid. (pid, SIGQUIT)) (filter (\<lambda>pid. pid \<noteq> 0) pids))
    (fold (\<lambda>pid p. if pid \<noteq> 0 then snd (call (host_kill host pid SIGQUIT) p) else p) pids p)"
proof (induction pids arbitrary: p)
  case Nil
  then show ?case by (simp add: closing_refl)
next
  case (Cons pid pids)
  obtain r q where c: "call (host_kill host pid SIGQUIT) p = (r, q)" by fastforce
  have "closing fds told p {} [(pid, SIGQUIT)] q"
    using call_only [OF c] call_world [OF c] assms by (simp add: closing_def signals_ok_def)
  from closing_trans [OF this Cons.IH [of q]] Cons.IH [of p] show ?case by (simp add: c)
qed

lemma shutdown_uds_closing:
  assumes "signals_ok net host fds told" "- 1 \<notin> fds (io_world (mn_proc m))"
  shows "closing fds told (mn_proc m) {mn_unix_socket m} [] (mn_proc (shutdown_uds net m)) \<and>
    shutdown_uds net m = m\<lparr>mn_proc := mn_proc (shutdown_uds net m)\<rparr>"
proof -
  let ?p = "(snd (disconnect net (mn_unix_socket m) (mn_proc m)))\<lparr>io_errno := 0\<rparr>"
  have errno: "closing fds told q {} [] (q\<lparr>io_errno := 0\<rparr>)" for q
    by (simp add: closing_def only_net_call)
  have removed: "closing fds told q {} [] (snd (remove_unix_socket net dir name q))" for dir name q
  proof -
    obtain r q' where c: "call (net_unlink net (snprintf MISC_LENGTH (dir @ bs ''/'' @ name))) q = (r, q')" by fastforce
    have "net_ok net fds" using assms(1) by (simp add: signals_ok_def)
    from call_keeps_open [OF net_okD(11) [OF this] c] call_only [OF c] call_world [OF c] assms(1)
    show ?thesis by (simp add: closing_def remove_unix_socket_def Let_def c signals_ok_def)
  qed
  from closing_trans [OF closing_trans [OF closing_trans [OF disconnect_closing [OF assms] errno] removed] errno]
  show ?thesis by (simp add: shutdown_uds_def Let_def)
qed

lemma stop_serving_closing:
  fixes m :: "'w main"
  assumes sok: "signals_ok net host fds told" and no: "- 1 \<notin> fds (io_world (mn_proc m))"
  defines "config \<equiv> pr_config (mn_proc m)"
  shows "closing fds told (mn_proc m)
      (set (mn_io m) \<union> (if has_unix_socket config then {mn_unix_socket m} else {}))
      (map (\<lambda>pid. (pid, SIGQUIT)) (filter (\<lambda>pid. pid \<noteq> 0) (cfg_pids config)))
      (mn_proc (stop_serving net host m)) \<and>
    mn_client_number (stop_serving net host m) = mn_client_number m"
proof -
  let ?m1 = "shutdown_io net m"
  have c1: "closing fds told (mn_proc m) (set (mn_io m)) [] (mn_proc ?m1)"
    using disconnect_all_closing [of net host fds told "mn_proc m" "mn_io m", OF sok no] by (simp add: shutdown_io_def)
  then have unix: "has_unix_socket (pr_config (mn_proc ?m1)) = has_unix_socket config"
    by (auto simp: closing_def only_net_def has_unix_socket_def config_def)
  define m2 where "m2 = (if has_unix_socket config then shutdown_uds net ?m1 else ?m1)"
  have no1: "- 1 \<notin> fds (io_world (mn_proc ?m1))" using c1 no by (simp add: closing_def)
  have c2: "closing fds told (mn_proc m)
      (set (mn_io m) \<union> (if has_unix_socket config then {mn_unix_socket m} else {})) [] (mn_proc m2)"
    using c1 closing_trans [OF c1, of "{mn_unix_socket m}" "[]" "mn_proc (shutdown_uds net ?m1)"]
      shutdown_uds_closing [OF sok no1] by (simp add: m2_def shutdown_io_def)
  have "cfg_pids (pr_config (mn_proc m2)) = cfg_pids config"
    using c2 only_net_keeps(12) [of "mn_proc m" "mn_proc m2"] by (simp add: closing_def config_def)
  with closing_trans [OF c2 signal_closing [OF sok, of "mn_proc m2" "cfg_pids config"]]
  have "closing fds told (mn_proc m)
      (set (mn_io m) \<union> (if has_unix_socket config then {mn_unix_socket m} else {}))
      (map (\<lambda>pid. (pid, SIGQUIT)) (filter (\<lambda>pid. pid \<noteq> 0) (cfg_pids config))) (signal_workers host (mn_proc m2))"
    by (simp add: signal_workers_def)
  moreover have "stop_serving net host m = m2\<lparr>mn_proc := signal_workers host (mn_proc m2)\<rparr>"
    by (simp add: stop_serving_def Let_def unix m2_def)
  moreover have "mn_client_number m2 = mn_client_number m"
    by (simp add: m2_def shutdown_io_def shutdown_uds_def Let_def)
  ultimately show ?thesis by simp
qed

lemma write_statistics_gives:
  assumes "n \<le> length (pr_counters p)" "path = cstr (cfg_statistics_output (pr_config p))"
    "1 < length path \<longrightarrow> os_fopen os path (io_world p)"
  shows "write_statistics os n p = Returned (if 1 < length path
    then p\<lparr>pr_files := (pr_files p)(path := statistics_spec (pr_counters p) n), pr_unclosed := pr_unclosed p @ [path]\<rparr>
    else p\<lparr>pr_logs := (pr_logs p)\<lparr>log_stdout := log_stdout (pr_logs p) @ statistics_spec (pr_counters p) n\<rparr>\<rparr>)"
  using output_statistics [where n = n and counters = "pr_counters p" and config = "pr_config p" and
    opens = "\<lambda>f. os_fopen os f (io_world p)"] assms
  by (simp add: write_statistics_def)

text \<open>
  The files that are open: the trace file, the log where there is one, and those whose pointers are lost.
\<close>

definition open_streams :: "'w proc \<Rightarrow> ctext list" where
  "open_streams p = (if cfg_file (pr_config p) \<noteq> None then [cstr (cfg_output (pr_config p))] else []) @
     (if cfg_log_type (pr_config p) = LOGGING_TYPE_FILE \<and> log_file (pr_logs p) \<noteq> None
      then [log_path (pr_config p)] else []) @ pr_unclosed p"

lemma close_files_gives:
  assumes "cfg_file (pr_config p) \<noteq> None" "loggable p"
  shows "gives (\<lambda>q. io_world q = io_world p \<and> pr_files q = pr_files p \<and>
    log_stdout (pr_logs q) = log_stdout (pr_logs p) \<and> open_streams q = pr_unclosed p) (close_files p)"
  using assms by (auto simp: open_streams_def close_files_def stop_logging_def loggable_def can_log_def split: option.splits)

lemma shutdown_done:
  fixes m :: "'w main"
  defines "p \<equiv> mn_proc m" and "config \<equiv> pr_config (mn_proc m)"
  defines "path \<equiv> cstr (cfg_statistics_output (pr_config (mn_proc m)))"
  assumes "signals_ok net host fds told" "- 1 \<notin> fds (io_world p)" "loggable p" "cfg_file config \<noteq> None"
    "mn_client_number m \<le> length (pr_counters p)" "\<And>w. 1 < length path \<Longrightarrow> os_fopen os path w"
  shows "\<exists>m'. shutdown_main os net host m = Returned (0, m') \<and>
    fds (io_world (mn_proc m')) = fds (io_world p) - set (mn_io m) -
      (if has_unix_socket config then {mn_unix_socket m} else {}) \<and>
    told (io_world (mn_proc m')) = told (io_world p) @
      map (\<lambda>pid. (pid, SIGQUIT)) (filter (\<lambda>pid. pid \<noteq> 0) (cfg_pids config)) \<and>
    (let t = statistics_spec (pr_counters p) (mn_client_number m)
     in if 1 < length path then pr_files (mn_proc m') path = t
        else suffix t (log_stdout (pr_logs (mn_proc m')))) \<and>
    open_streams (mn_proc m') = pr_unclosed p @ (if 1 < length path then [path] else [])"
proof -
  from say_gives [OF assms(6), of "line ''pgprtdbg: shutdown''"] obtain p1 where
    p1: "say (line ''pgprtdbg: shutdown'') p = Returned p1" "only_net p p1" "io_world p1 = io_world p"
    by (auto simp: gives_def)
  let ?m = "stop_serving net host (m\<lparr>mn_proc := p1\<rparr>)"
  let ?C = "set (mn_io m) \<union> (if has_unix_socket config then {mn_unix_socket m} else {})"
  let ?S = "map (\<lambda>pid. (pid, SIGQUIT)) (filter (\<lambda>pid. pid \<noteq> 0) (cfg_pids config))"
  let ?t = "statistics_spec (pr_counters p) (mn_client_number m)"
  have same: "has_unix_socket (pr_config p1) = has_unix_socket config" "cfg_pids (pr_config p1) = cfg_pids config"
    using p1(2) by (auto simp: only_net_def has_unix_socket_def config_def p_def)
  have c: "closing fds told p1 ?C ?S (mn_proc ?m)" and n: "mn_client_number ?m = mn_client_number m"
    using stop_serving_closing [OF assms(4), of "m\<lparr>mn_proc := p1\<rparr>"] assms(5) p1(3) same by (simp_all cong: if_cong)
  then have only: "only_net p (mn_proc ?m)" using p1(2) by (auto simp: closing_def intro: only_net_trans)
  then have kept: "cstr (cfg_statistics_output (pr_config (mn_proc ?m))) = path" "pr_counters (mn_proc ?m) = pr_counters p"
      "cfg_file (pr_config (mn_proc ?m)) = cfg_file config" "loggable (mn_proc ?m)" "pr_unclosed (mn_proc ?m) = pr_unclosed p"
    using assms(6) by (auto simp: only_net_def path_def config_def p_def loggable_def)
  let ?q = "if 1 < length path then (mn_proc ?m)\<lparr>pr_files := (pr_files (mn_proc ?m))(path := ?t), pr_unclosed := pr_unclosed (mn_proc ?m) @ [path]\<rparr>
    else (mn_proc ?m)\<lparr>pr_logs := (pr_logs (mn_proc ?m))\<lparr>log_stdout := log_stdout (pr_logs (mn_proc ?m)) @ ?t\<rparr>\<rparr>"
  have stats: "write_statistics os (mn_client_number ?m) (mn_proc ?m) = Returned ?q"
    using write_statistics_gives [of "mn_client_number ?m" "mn_proc ?m" path os] kept n assms(8,9) by simp
  have "cfg_file (pr_config ?q) \<noteq> None" "loggable ?q"
    using kept assms(7) by (simp_all add: loggable_def can_log_def)
  from close_files_gives [OF this] obtain q where q: "close_files ?q = Returned q" "io_world q = io_world (mn_proc ?m)"
      "pr_files q = pr_files ?q" "log_stdout (pr_logs q) = log_stdout (pr_logs ?q)" "open_streams q = pr_unclosed ?q"
    by (auto simp: gives_def)
  have "shutdown_main os net host m = Returned (0, ?m\<lparr>mn_proc := q\<rparr>)"
    using p1(1) stats q(1) by (simp add: shutdown_main_def p_def Let_def)
  then show ?thesis using c p1(3) q kept(5) by (auto simp: closing_def suffix_def Let_def)
qed

text \<open>
  C18. At the shutdown, exactly the sockets on which clients were accepted are closed, every worker in
  the process table gets one \<open>SIGQUIT\<close>, in the order of the table, and nobody else, and the statistics
  of all clients counted are written, to their file or at the end of the standard output; \<open>main\<close>
  returns 0.
\<close>

theorem shutdown_ends:
  fixes m :: "'w main"
  defines "p \<equiv> mn_proc m" and "config \<equiv> pr_config (mn_proc m)"
  defines "path \<equiv> cstr (cfg_statistics_output (pr_config (mn_proc m)))"
  assumes "signals_ok net host fds told" "- 1 \<notin> fds (io_world p)" "loggable p" "cfg_file config \<noteq> None"
    "mn_client_number m \<le> length (pr_counters p)" "\<And>w. 1 < length path \<Longrightarrow> os_fopen os path w"
  shows "\<exists>m'. shutdown_main os net host m = Returned (0, m') \<and>
    fds (io_world (mn_proc m')) = fds (io_world p) - set (mn_io m) -
      (if has_unix_socket config then {mn_unix_socket m} else {}) \<and>
    told (io_world (mn_proc m')) = told (io_world p) @
      map (\<lambda>pid. (pid, SIGQUIT)) (filter (\<lambda>pid. pid \<noteq> 0) (cfg_pids config)) \<and>
    (let t = statistics_spec (pr_counters p) (mn_client_number m)
     in if 1 < length path then pr_files (mn_proc m') path = t
        else suffix t (log_stdout (pr_logs (mn_proc m'))))"
  using shutdown_done [of net host fds told m os] assms(4-) unfolding assms(1-3) by blast

text \<open>For the witness: a host whose world is the list of the signals sent and that of the open descriptors.\<close>

definition signal_host :: "((i32 \<times> int) list \<times> i32 list) host" where
  "signal_host = demo_host\<lparr>host_kill := (\<lambda>pid sig (w, l). (Inr (), (w @ [(pid, sig)], l)))\<rparr>"

definition signal_os :: "((i32 \<times> int) list \<times> i32 list) os" where
  "signal_os = \<lparr>os_read = (\<lambda>_ _ w. (Got [], w)), os_write = (\<lambda>_ bytes w. (Wrote (length bytes), w)),
     os_fopen = (\<lambda>_ _. True), os_clock = (\<lambda>_. (0, 0)), os_strerror = (\<lambda>_. [])\<rparr>"

definition serving_main :: "((i32 \<times> int) list \<times> i32 list) main" where
  "serving_main = \<lparr>mn_proc = (proc_on ([], [3, 4, 5]))\<lparr>pr_config := demo_configuration\<lparr>cfg_pids := [77, 0, 78]\<rparr>\<rparr>,
     mn_keep_running = False, mn_unix_socket = - 1, mn_fds = [3, 4], mn_io = [3, 4], mn_uds = 0, mn_client_number = 1\<rparr>"

lemma signal_host_ok: "signals_ok host_net signal_host host_fds fst"
  by (auto simp: signals_ok_def host_net_ok) (auto simp: host_net_def signal_host_def demo_host_def host_fds_def)

theorem shutdown_ends_witness:
  "\<exists>m'. shutdown_main signal_os host_net signal_host serving_main = Returned (0, m') \<and>
    host_fds (io_world (mn_proc m')) = {5} \<and> fst (io_world (mn_proc m')) = [(77, SIGQUIT), (78, SIGQUIT)] \<and>
    suffix (statistics_spec [zero_counter] 1) (log_stdout (pr_logs (mn_proc m')))"
proof -
  let ?p = "mn_proc serving_main"
  have p: "io_world ?p = ([], [3, 4, 5])" "pr_config ?p = demo_configuration\<lparr>cfg_pids := [77, 0, 78]\<rparr>"
    "pr_counters ?p = [zero_counter]" "loggable ?p"
    by (simp_all add: serving_main_def loggable_def demo_can(2)) (simp_all add: proc_on_def io.defs)
  have c: "cstr (cfg_statistics_output demo_configuration) = []" "cstr (cfg_unix_socket_dir demo_configuration) = []"
    "cfg_file demo_configuration = Some []"
    by (simp_all add: demo_configuration_def zero_configuration_def zero_text_def MISC_LENGTH_def numeral_eq_Suc)
  have fds: "- 1 \<notin> host_fds (io_world ?p)" "{3, 4, 5} - {3, 4 :: i32} = {5}"
    by (auto simp: p host_fds_def)
  have n: "mn_client_number serving_main \<le> length (pr_counters ?p)" unfolding p(3) by (simp add: serving_main_def)
  have "cfg_file (pr_config ?p) \<noteq> None" by (simp add: p c)
  from shutdown_ends [OF signal_host_ok fds(1) p(4) this n, of signal_os]
  show ?thesis by (simp add: p c has_unix_socket_def host_fds_def Let_def fds(2)) (simp add: serving_main_def fds(2))
qed

end
