(* ===== verification/Serving.thy ===== *)
theory Serving
  imports Lifecycle
begin

text \<open>
  The whole of \<open>main\<close> (\<open>src/src/main.c\<close>): whatever happens at the start, and however many clients come
  before the signal that ends it.
\<close>

section \<open>Runs that end\<close>

text \<open>The call returns with \<open>P\<close>, or it ends the process; it is defined, and it does not go on forever.\<close>

definition finishes :: "('a \<Rightarrow> bool) \<Rightarrow> ('s, 'a) outcome \<Rightarrow> bool" where
  "finishes P r = (case r of Returned a \<Rightarrow> P a | Exited c s \<Rightarrow> True | _ \<Rightarrow> False)"

lemma finishes_simps [simp]: "finishes P (Returned a) = P a" "finishes P (Exited c s)"
  "\<not> finishes P Undefined" "\<not> finishes P Diverged"
  by (simp_all add: finishes_def)

lemma finishes_then: "finishes P m \<Longrightarrow> (\<And>a. m = Returned a \<Longrightarrow> P a \<Longrightarrow> finishes Q (f a)) \<Longrightarrow> finishes Q (and_then m f)"
  by (cases m) simp_all

lemma gives_finishes: "gives P r \<Longrightarrow> finishes P r"
  by (auto simp: gives_def)

lemma finishes_mono: "finishes P r \<Longrightarrow> (\<And>a. P a \<Longrightarrow> Q a) \<Longrightarrow> finishes Q r"
  by (cases r) simp_all

section \<open>The start\<close>

lemma options_finish: "finishes (\<lambda>_. True) (options opts path daemon p)"
  by (induction opts path daemon p rule: options.induct) (simp_all add: stop_with_def)

lemma set_config_world [simp]: "io_world (set_config c t p) = io_world p" "pr_unclosed (set_config c t p) = pr_unclosed p"
  by (simp_all add: set_config_def print_out_def)

lemma make_daemon_finishes:
  assumes "stays_parent host fds"
  shows "finishes (\<lambda>q. io_world q = io_world p \<and> pr_unclosed q = pr_unclosed p) (make_daemon host p)"
proof -
  obtain y q where y: "call (host_fork host) p = (y, q)" by fastforce
  have "y \<noteq> Some 0"
    using y assms by (auto simp: stays_parent_def elim!: call_cases) (metis fst_conv)
  with y show ?thesis by (simp add: make_daemon_def stop_with_def split: option.split)
qed

lemma configure_finishes:
  assumes "stays_parent host fds"
  shows "finishes (\<lambda>q. io_world q = io_world p \<and> pr_unclosed q = pr_unclosed p) (configure host opts p)"
  unfolding configure_def
  by (rule finishes_then [OF options_finish])
    (auto simp: stop_with_def create_shared_memory_def Let_def intro: make_daemon_finishes [OF assms, THEN finishes_mono]
      split: prod.split option.split)

text \<open>All files can be opened.\<close>

definition opens_files :: "'w os \<Rightarrow> bool" where
  "opens_files os \<longleftrightarrow> (\<forall>name w. os_fopen os name w)"

lemma opened_files:
  assumes "opens_files os"
  shows "loggable (open_output os (open_log os p))" "cfg_file (pr_config (open_output os (open_log os p))) \<noteq> None"
    "io_world (open_output os (open_log os p)) = io_world p" "pr_counters (open_output os (open_log os p)) = pr_counters p"
    "cfg_port (pr_config (open_output os (open_log os p))) = cfg_port (pr_config p)"
    "pr_unclosed (open_output os (open_log os p)) = pr_unclosed p"
    "cfg_statistics_output (pr_config (open_output os (open_log os p))) = cfg_statistics_output (pr_config p)"
  using assms by (simp_all add: opens_files_def open_output_def open_log_def start_logging_def loggable_def can_log_def)

text \<open>
  While \<open>main\<close> serves: the sockets it listens on, and nothing else, have been opened since \<open>p0\<close>.
\<close>

definition uds :: "'w main \<Rightarrow> i32 set" where
  "uds m = (if has_unix_socket (pr_config (mn_proc m)) then {mn_unix_socket m} else {})"

definition serves_on :: "('w \<Rightarrow> i32 set) \<Rightarrow> 'w proc \<Rightarrow> 'w main \<Rightarrow> bool" where
  "serves_on fds p0 m \<longleftrightarrow> only_net p0 (mn_proc m) \<and>
     fds (io_world (mn_proc m)) = fds (io_world p0) \<union> set (mn_fds m) \<union> uds m \<and>
     (set (mn_fds m) \<union> uds m) \<inter> fds (io_world p0) = {} \<and> - 1 \<notin> set (mn_fds m) \<union> uds m"

lemma only_net_unix: "only_net p q \<Longrightarrow> has_unix_socket (pr_config q) = has_unix_socket (pr_config p)"
  by (auto simp: only_net_def has_unix_socket_def)

lemma bind_uds_finishes:
  assumes "net_ok net fds" "loggable p"
  shows "finishes (\<lambda>(s, q). only_net p q \<and> (if has_unix_socket (pr_config p) then holding fds p s q
    else fds (io_world q) = fds (io_world p))) (bind_uds os net p)"
proof (cases "has_unix_socket (pr_config p)")
  case True
  then show ?thesis
    unfolding bind_uds_def Let_def
    by (auto intro!: finishes_then [OF gives_finishes [OF bind_unix_done [OF assms(1,2)]]]
        simp: stop_with_def holding_def)
qed (simp add: bind_uds_def only_net_refl)

lemma open_sockets_finishes:
  assumes "net_ok net fds" "opens_files os" "- 1 \<notin> fds (io_world p)"
    "sint (cfg_port (pr_config p)) < 10000" "- 1000 < sint (cfg_port (pr_config p))"
  defines "p0 \<equiv> open_output os (open_log os p)"
  shows "finishes (\<lambda>m. serves_on fds p0 m \<and> mn_client_number m = 0) (open_sockets os net p)"
proof -
  note p0 = opened_files [OF assms(2), of p, folded p0_def]
  show ?thesis
    unfolding open_sockets_def p0_def [symmetric]
  proof (rule finishes_then [OF bind_uds_finishes [OF assms(1) p0(1)]], clarify)
    fix s q assume only: "only_net p0 q" and s: "if has_unix_socket (pr_config p0) then holding fds p0 s q
      else fds (io_world q) = fds (io_world p0)"
    let ?port = "cfg_port (pr_config q)" and ?host = "cstr (cfg_host (pr_config q))"
    have port: "?port = cfg_port (pr_config p0)" using only by (auto simp: only_net_def)
    have log: "loggable q" using only_net_keeps(1) [OF only] p0(1) by simp
    have "sint ?port < 10000" "- 1000 < sint ?port" using assms(4,5) p0(5) port by simp_all
    from bind_all_done [OF assms(1) log this, of os ?host]
    obtain rv fs r where b: "bind_all os net ?host ?port q = Returned (rv, fs, r)" and only': "only_net q r"
      and fs: "- 1 \<notin> set fs" "set fs \<inter> fds (io_world q) = {}" "fds (io_world r) = fds (io_world q) \<union> set fs"
      by auto
    have "only_net p0 r" by (rule only_net_trans [OF only only'])
    then show "finishes (\<lambda>m. serves_on fds p0 m \<and> mn_client_number m = 0)
      (let host = ?host; port = ?port in and_then (bind_all os net host port q) (\<lambda>(rv, fds, p).
        if rv \<noteq> 0 then stop_with [bs ''pgprtdbg: Could not bind to '' @ host @ bs '':'' @ show_int (sint port)] p
        else if MAX_FDS < length fds then stop_with [bs ''pgprtdbg: Too many descriptors '' @ show_nat (length fds)] p
        else Returned \<lparr>mn_proc = p, mn_keep_running = True, mn_unix_socket = s, mn_fds = fds,
               mn_io = [], mn_uds = 0, mn_client_number = 0\<rparr>))"
      using b fs s only_net_unix [of p0 r] only_net_unix [OF only]
      by (auto simp: Let_def stop_with_def serves_on_def uds_def holding_def split: if_splits)
  qed
qed

lemma serves_on_move:
  assumes "serves_on fds p0 m" "only_net (mn_proc m) (mn_proc m')" "mn_fds m' = mn_fds m"
    "mn_unix_socket m' = mn_unix_socket m" "fds (io_world (mn_proc m')) = fds (io_world (mn_proc m))"
  shows "serves_on fds p0 m'"
  using assms only_net_unix [OF assms(2)]
  by (auto simp: serves_on_def uds_def intro: only_net_trans split: if_splits)

lemma complain_gives:
  assumes "loggable p" "item_ok item"
  shows "gives (\<lambda>(v, q). only_net p q \<and> io_world q = io_world p) (complain v item p)"
proof -
  have "complain v item p = and_then (say item p) (\<lambda>p. Returned (v, p))"
    using assms by (simp add: complain_def say_def lock_log_def log_to_def log_one_open log_lock_def loggable_def)
  moreover have "gives (\<lambda>(v, q). only_net p q \<and> io_world q = io_world p) (and_then (say item p) (\<lambda>p. Returned (v, p)))"
    by (rule gives_then [OF say_gives [OF assms]]) simp
  ultimately show ?thesis by simp
qed

lemma libev_gives:
  assumes "loggable p"
  shows "gives (\<lambda>(v, q). only_net p q \<and> io_world q = io_world p) (libev ev engine p)"
proof -
  have ask: "gives (\<lambda>(v, q). only_net p q \<and> io_world q = io_world p) (ask ev backend name p)" for backend name
    using complain_gives [OF assms] by (simp add: ask_def only_net_refl)
  show ?thesis
    using ask complain_gives [OF assms] by (auto simp: libev_def only_net_refl split: option.split)
qed

lemma start_loop_gives:
  assumes "loggable (mn_proc m)" "\<And>flags. host_loop host flags"
  shows "gives (\<lambda>m'. only_net (mn_proc m) (mn_proc m') \<and> io_world (mn_proc m') = io_world (mn_proc m) \<and>
    m' = start_io (let m = m\<lparr>mn_proc := mn_proc m'\<rparr> in if has_unix_socket (pr_config (mn_proc m)) then start_uds m else m))
    (start_loop host ev m)"
  unfolding start_loop_def Let_def
  by (rule gives_then [OF libev_gives [OF assms(1)]]) (use assms(2) in \<open>auto simp: start_io_def start_uds_def\<close>)

lemma log_to_gives:
  assumes "loggable p" "list_all item_ok items"
  shows "gives (\<lambda>q. only_net p q \<and> io_world q = io_world p) (log_to items p)"
proof -
  let ?lg = "add_log (cfg_log_type (pr_config p)) (items_text items) (pr_logs p)"
  have "log_to items p = Returned (p\<lparr>pr_logs := ?lg\<rparr>)"
    using assms by (simp add: log_to_def log_all_open loggable_def)
  moreover have "only_net p (p\<lparr>pr_logs := ?lg\<rparr>)"
    unfolding only_net_def
    by (intro exI [of _ "io_world p"] exI [of _ "io_errno p"] exI [of _ ?lg] exI [of _ "cfg_log_lock (pr_config p)"]) simp
  ultimately show ?thesis by simp
qed

lemma only_net_lock: "only_net p (lock_log p)" "only_net p (unlock_log p)"
  unfolding only_net_def lock_log_def unlock_log_def log_lock_def log_unlock_def
  by (intro exI [of _ "io_world p"] exI [of _ "io_errno p"] exI [of _ "pr_logs p"], auto)+

lemma log_then:
  assumes "loggable p" "list_all item_ok items" "only_net p0 p" "io_world p = io_world p0"
    "\<And>q. only_net p0 q \<Longrightarrow> io_world q = io_world p0 \<Longrightarrow> loggable q \<Longrightarrow> gives P (f q)"
  shows "gives P (and_then (log_to items p) f)"
proof (rule gives_then [OF log_to_gives [OF assms(1,2)]], elim conjE)
  fix q assume q: "only_net p q" "io_world q = io_world p"
  then show "gives P (f q)"
    using assms(1,4) only_net_keeps(1) [OF q(1)] by (intro assms(5) only_net_trans [OF assms(3)]) simp_all
qed

lemma log_startup_gives:
  assumes "loggable (mn_proc m)"
  shows "gives (\<lambda>m'. only_net (mn_proc m) (mn_proc m') \<and> io_world (mn_proc m') = io_world (mn_proc m) \<and>
    m' = m\<lparr>mn_proc := mn_proc m'\<rparr>) (log_startup host ev m)"
proof -
  have lock: "loggable (lock_log (mn_proc m))" "io_world (lock_log (mn_proc m)) = io_world (mn_proc m)"
    "\<And>q :: 'a proc. io_world (unlock_log q) = io_world q"
    using assms only_net_keeps(1) [OF only_net_lock(1)] by (auto simp: lock_log_def unlock_log_def)
  show ?thesis
    unfolding log_startup_def libev_engines_def Let_def
    by (rule log_then [OF lock(1) _ only_net_lock(1) lock(2)], simp add: list_all_iff,
        rule log_then, assumption, force simp: list_all_iff, assumption, assumption,
        rule log_then, assumption, simp, assumption, assumption)
      (simp add: lock(3) only_net_trans [OF _ only_net_lock(2)])
qed

section \<open>The loop\<close>

text \<open>
  What is relied on of the polls of \<open>main\<close>: they open and close nothing, and a signal for the shutdown
  comes: \<open>late\<close> bounds the polls before it, and the calls in between do not put it off.
\<close>

definition signal_comes :: "'w net \<Rightarrow> 'w host \<Rightarrow> ('w \<Rightarrow> main_event list \<times> 'w) \<Rightarrow> ('w \<Rightarrow> i32 set) \<Rightarrow>
    ('w \<Rightarrow> nat) \<Rightarrow> bool" where
  "signal_comes net host main_poll fds late \<longleftrightarrow>
     (\<forall>w. fds (snd (main_poll w)) = fds w \<and>
       (Shutdown \<in> set (fst (main_poll w)) \<or> late (snd (main_poll w)) < late w)) \<and>
     (\<forall>fd w. late (snd (net_accept net fd w)) \<le> late w) \<and> (\<forall>w. late (snd (host_fork host w)) \<le> late w) \<and>
     (\<forall>fd w. late (snd (net_close net fd w)) \<le> late w)"

definition no_abort :: "('w \<Rightarrow> main_event list \<times> 'w) \<Rightarrow> bool" where
  "no_abort main_poll \<longleftrightarrow> (\<forall>w. Coredump \<notin> set (fst (main_poll w)))"

lemma say_world: "say item p = Returned q \<Longrightarrow> io_world q = io_world p"
  by (auto simp: say_def log_to_def lock_log_def unlock_log_def and_then_Returned_iff split: option.splits)

lemma accept_not_late:
  assumes "signal_comes net host main_poll fds late" "accept_cb os net host ev poll fuel fd ev_error m = Returned m'"
  shows "late (io_world (mn_proc m')) \<le> late (io_world (mn_proc m))"
  using assms(2)
proof (cases rule: accept_cases)
  case (no_client p)
  then show ?thesis using assms(1) call_world by (fastforce simp: signal_comes_def)
next
  case (client c p y q m1)
  have "late (io_world p) \<le> late (io_world (mn_proc m))" "late (io_world q) \<le> late (io_world p)"
    using assms(1) call_world [OF client(2)] call_world [OF client(3)] by (simp_all add: signal_comes_def)
  moreover have "io_world (mn_proc m1) = io_world q"
    using client(5) by (auto simp: count_client_def and_then_Returned_iff dest: say_world split: if_splits)
  moreover have "late (io_world (snd (disconnect net c r))) \<le> late (io_world r)" for r
    using assms(1) by (auto simp: disconnect_def signal_comes_def dest!: call_world split: option.split prod.split)
  then have "late (io_world (mn_proc m')) \<le> late (io_world (mn_proc m1))" by (simp add: client(6))
  ultimately show ?thesis by simp
qed simp

text \<open>What every callback of \<open>main\<close> keeps while it serves.\<close>

definition still_serves :: "('w \<Rightarrow> i32 set) \<Rightarrow> 'w proc \<Rightarrow> 'w main \<Rightarrow> bool" where
  "still_serves fds p0 m \<longleftrightarrow> serves_on fds p0 m \<and> mn_io m = mn_fds m \<and> main_ok m \<and>
     (has_unix_socket (pr_config (mn_proc m)) \<longrightarrow> mn_uds m = mn_unix_socket m)"

text \<open>Clients are accepted on every socket that has been opened.\<close>

lemma all_watched:
  "still_serves fds p0 m \<Longrightarrow> fds (io_world (mn_proc m)) = fds (io_world p0) \<union> set (mn_io m) \<union>
    (if has_unix_socket (pr_config (mn_proc m)) then {mn_uds m} else {})"
  by (auto simp: still_serves_def serves_on_def uds_def)

lemma serving_callback:
  assumes "net_ok net fds" "stays_parent host fds" "loggable p0" "still_serves fds p0 m" "e \<noteq> Coredump"
  shows "gives (\<lambda>m'. still_serves fds p0 m' \<and> (mn_keep_running m' \<longleftrightarrow> mn_keep_running m \<and> e \<noteq> Shutdown))
    (main_callback os net host ev poll fuel e m)"
proof (cases e)
  case (Accept fd ev_error)
  have log: "loggable (mn_proc m)"
    using assms(3,4) only_net_keeps(1) [of p0 "mn_proc m"] by (simp add: still_serves_def serves_on_def)
  from accept_gives [OF assms(1,2) log, of os ev poll fuel fd ev_error] obtain m' where
    m': "accept_cb os net host ev poll fuel fd ev_error m = Returned m'" "same_sockets m m'"
      "fds (io_world (mn_proc m')) = fds (io_world (mn_proc m))"
    by (auto simp: gives_def)
  have "main_ok m'" using accept_ok [OF _ m'(1)] assms(4) by (simp add: still_serves_def)
  moreover have "serves_on fds p0 m'"
    using serves_on_move [of fds p0 m m'] m'(2,3) assms(4) by (simp add: still_serves_def same_sockets_def)
  ultimately show ?thesis
    using m'(1,2) Accept assms(4) only_net_unix [of "mn_proc m" "mn_proc m'"]
    by (simp add: main_callback_def still_serves_def same_sockets_def)
next
  case Shutdown
  have "serves_on fds p0 (m\<lparr>mn_keep_running := False\<rparr>)"
    by (rule serves_on_move [of fds p0 m]) (use assms(4) in \<open>simp_all add: still_serves_def only_net_refl\<close>)
  with Shutdown assms(4) show ?thesis
    by (simp add: main_callback_def shutdown_cb_def still_serves_def main_ok_def)
qed (use assms(5) in simp)

lemma serving_callbacks:
  assumes "net_ok net fds" "stays_parent host fds" "loggable p0"
  shows "still_serves fds p0 m \<Longrightarrow> Coredump \<notin> set es \<Longrightarrow>
    gives (\<lambda>m'. still_serves fds p0 m' \<and> (mn_keep_running m' \<longleftrightarrow> mn_keep_running m \<and> Shutdown \<notin> set es))
      (main_callbacks os net host ev poll fuel es m)"
proof (induction es arbitrary: m)
  case (Cons e es)
  then have "e \<noteq> Coredump" by auto
  from gives_then [OF serving_callback [OF assms Cons.prems(1) this]] Cons show ?case
    by (auto intro!: gives_then [OF serving_callback [OF assms Cons.prems(1) \<open>e \<noteq> Coredump\<close>]]
        elim!: gives_mono [OF Cons.IH])
qed simp

lemma callbacks_not_late:
  assumes "signal_comes net host main_poll fds late"
  shows "main_callbacks os net host ev poll fuel es m = Returned m' \<Longrightarrow>
    late (io_world (mn_proc m')) \<le> late (io_world (mn_proc m))"
proof (induction es arbitrary: m)
  case (Cons e es)
  then obtain m1 where m1: "main_callback os net host ev poll fuel e m = Returned m1"
    "main_callbacks os net host ev poll fuel es m1 = Returned m'" by (auto simp: and_then_Returned_iff)
  have "late (io_world (mn_proc m1)) \<le> late (io_world (mn_proc m))"
    using m1(1) accept_not_late [OF assms]
    by (cases e) (auto simp: main_callback_def shutdown_cb_def coredump_cb_def)
  with Cons.IH [OF m1(2)] show ?case by simp
qed simp

text \<open>A round of the loop: all its callbacks return, and it is the last one if a signal has come.\<close>

lemma main_step_gives:
  assumes "net_ok net fds" "stays_parent host fds" "signal_comes net host main_poll fds late" "no_abort main_poll"
    "loggable p0" "still_serves fds p0 m"
  shows "case main_step os net host ev poll main_poll fuel m of
      Again m' \<Rightarrow> still_serves fds p0 m' \<and> mn_keep_running m \<and>
        (mn_keep_running m' \<longrightarrow> late (io_world (mn_proc m')) < late (io_world (mn_proc m)))
    | Stop r \<Rightarrow> r = Returned m"
proof (cases "mn_keep_running m")
  case True
  obtain es w where p: "main_poll (io_world (mn_proc m)) = (es, w)" by fastforce
  let ?m = "m\<lparr>mn_proc := (mn_proc m)\<lparr>io_world := w\<rparr>\<rparr>"
  have w: "fds w = fds (io_world (mn_proc m))" "Shutdown \<in> set es \<or> late w < late (io_world (mn_proc m))"
    using assms(3) p by (auto simp: signal_comes_def dest!: spec [of _ "io_world (mn_proc m)"])
  have es: "Coredump \<notin> set es" using assms(4) p by (auto simp: no_abort_def) (metis fst_conv)
  have "serves_on fds p0 ?m"
    by (rule serves_on_move [of fds p0 m]) (use assms(6) w(1) in \<open>simp_all add: still_serves_def only_net_call\<close>)
  then have "still_serves fds p0 ?m" using assms(6) by (simp add: still_serves_def main_ok_def)
  from serving_callbacks [OF assms(1,2,5) this es, of os ev poll fuel] obtain m' where
    "main_callbacks os net host ev poll fuel es ?m = Returned m'" "still_serves fds p0 m'"
    "mn_keep_running m' \<longleftrightarrow> mn_keep_running m \<and> Shutdown \<notin> set es"
    by (auto simp: gives_def)
  with p True w(2) callbacks_not_late [OF assms(3) this(1)] show ?thesis by (auto simp: main_step_def)
qed (simp add: main_step_def)

definition main_variant :: "('w \<Rightarrow> nat) \<Rightarrow> 'w main \<Rightarrow> nat" where
  "main_variant late m = (if mn_keep_running m then late (io_world (mn_proc m)) + 1 else 0)"

interpretation serving_loop: variant_loop "main_step os net host ev poll main_poll fuel"
  "\<lambda>m. net_ok net fds \<and> stays_parent host fds \<and> signal_comes net host main_poll fds late \<and> no_abort main_poll \<and>
    loggable p0 \<and> still_serves fds p0 m"
  "main_variant late"
  for os :: "'w os" and net host ev poll main_poll fuel fds late p0
proof unfold_locales
  fix m m' :: "'w main"
  assume inv: "net_ok net fds \<and> stays_parent host fds \<and> signal_comes net host main_poll fds late \<and>
      no_abort main_poll \<and> loggable p0 \<and> still_serves fds p0 m"
    and step: "main_step os net host ev poll main_poll fuel m = Again m'"
  note after = main_step_gives [of net fds host main_poll late p0 m os ev poll fuel, unfolded step iter.case]
  with inv show "net_ok net fds \<and> stays_parent host fds \<and> signal_comes net host main_poll fds late \<and>
      no_abort main_poll \<and> loggable p0 \<and> still_serves fds p0 m'" by blast
  from after inv show "main_variant late m' < main_variant late m" by (auto simp: main_variant_def)
qed

lemma serving_loop_gives:
  assumes "net_ok net fds" "stays_parent host fds" "signal_comes net host main_poll fds late" "no_abort main_poll"
    "loggable p0" "still_serves fds p0 m" "main_variant late m < fuel"
  shows "gives (still_serves fds p0) (run_loop (main_step os net host ev poll main_poll fuel) fuel m)"
proof -
  from serving_loop.enough_fuel [of net fds host main_poll late p0 m fuel os ev poll fuel] assms obtain r where
    r: "loop (main_step os net host ev poll main_poll fuel) fuel m = Some r" by blast
  have "gives (still_serves fds p0) r"
  proof (rule loop_result [where J = "still_serves fds p0", OF _ r assms(6)])
    fix x assume "still_serves fds p0 x"
    with main_step_gives [OF assms(1-5) this, of os ev poll fuel]
    show "case main_step os net host ev poll main_poll fuel x of Again y \<Rightarrow> still_serves fds p0 y
      | Stop r \<Rightarrow> gives (still_serves fds p0) r" by (auto split: iter.splits)
  qed
  with r show ?thesis by (simp add: run_loop_def)
qed

section \<open>From the start to the end\<close>

lemma only_net_files: "only_net p q \<Longrightarrow> cfg_file (pr_config q) = cfg_file (pr_config p)"
  "only_net p q \<Longrightarrow> pr_unclosed q = pr_unclosed p"
  "only_net p q \<Longrightarrow> cfg_statistics_output (pr_config q) = cfg_statistics_output (pr_config p)"
  by (auto simp: only_net_def)

text \<open>What \<open>main\<close> leaves open: nothing, except for the file of the statistics, where there is one.\<close>

definition leaves_open :: "('w \<Rightarrow> i32 set) \<Rightarrow> 'w proc \<Rightarrow> int \<times> 'w main \<Rightarrow> bool" where
  "leaves_open fds p0 = (\<lambda>(rc, m'). rc = 0 \<and> fds (io_world (mn_proc m')) = fds (io_world p0) \<and>
     (let path = cstr (cfg_statistics_output (pr_config p0))
      in open_streams (mn_proc m') = pr_unclosed p0 @ (if 1 < length path then [path] else [])))"

lemma serving_ends:
  assumes "signals_ok net host fds told" "opens_files os" "loggable p0" "cfg_file (pr_config p0) \<noteq> None"
    "- 1 \<notin> fds (io_world p0)" "still_serves fds p0 m"
  shows "gives (leaves_open fds p0) (shutdown_main os net host m)"
proof -
  have m: "only_net p0 (mn_proc m)" "- 1 \<notin> fds (io_world (mn_proc m))" "mn_io m = mn_fds m" "main_ok m"
    "fds (io_world (mn_proc m)) = fds (io_world p0) \<union> set (mn_fds m) \<union> uds m"
    "(set (mn_fds m) \<union> uds m) \<inter> fds (io_world p0) = {}"
    using assms(5,6) by (auto simp: still_serves_def serves_on_def)
  have log: "loggable (mn_proc m)" "cfg_file (pr_config (mn_proc m)) \<noteq> None"
    using only_net_keeps(1) [OF m(1)] only_net_files [OF m(1)] assms(3,4) by simp_all
  have n: "mn_client_number m \<le> length (pr_counters (mn_proc m))" using m(4) by (simp add: main_ok_def)
  have "os_fopen os path w" for path w using assms(2) by (simp add: opens_files_def)
  note shut = shutdown_done [OF assms(1) m(2) log n this]
  have "fds (io_world (mn_proc m)) - set (mn_io m) - uds m = fds (io_world p0)"
    unfolding m(3,5) using m(6) by auto
  with shut show ?thesis
    by (auto simp: uds_def leaves_open_def Let_def only_net_files [OF m(1)])
qed

lemma start_serves:
  assumes "serves_on fds p0 m" "mn_client_number m = 0" "loggable p0" "pr_counters p0 = zero_counters"
    "\<And>flags. host_loop host flags"
  shows "gives (still_serves fds p0) (and_then (start_loop host ev m) (log_startup host ev))"
proof -
  have only: "only_net p0 (mn_proc m)" using assms(1) by (simp add: serves_on_def)
  have log: "loggable (mn_proc m)" using only_net_keeps(1) [OF only] assms(3) by simp
  from start_loop_gives [OF log assms(5), of ev] obtain m1 where
    m1: "start_loop host ev m = Returned m1" "only_net (mn_proc m) (mn_proc m1)"
      "io_world (mn_proc m1) = io_world (mn_proc m)" "m1 = start_io (let m = m\<lparr>mn_proc := mn_proc m1\<rparr> in
        if has_unix_socket (pr_config (mn_proc m)) then start_uds m else m)"
    by (auto simp: gives_def)
  have "loggable (mn_proc m1)" using only_net_keeps(1) [OF m1(2)] log by simp
  from log_startup_gives [OF this, of host ev] obtain m2 where
    m2: "log_startup host ev m1 = Returned m2" "only_net (mn_proc m1) (mn_proc m2)"
      "io_world (mn_proc m2) = io_world (mn_proc m1)" "m2 = m1\<lparr>mn_proc := mn_proc m2\<rparr>"
    by (auto simp: gives_def)
  have parts: "mn_fds m2 = mn_fds m" "mn_unix_socket m2 = mn_unix_socket m" "mn_io m2 = mn_fds m"
    "mn_client_number m2 = 0" "has_unix_socket (pr_config (mn_proc m1)) \<longrightarrow> mn_uds m2 = mn_unix_socket m"
    by (subst m2(4), subst m1(4), simp add: start_io_def start_uds_def assms(2) Let_def)+
  have "serves_on fds p0 m2"
    by (rule serves_on_move [OF assms(1) only_net_trans [OF m1(2) m2(2)]]) (simp_all add: parts m1(3) m2(3))
  moreover have "pr_counters (mn_proc m2) = pr_counters p0"
    using only_net_keeps(10) [OF only_net_trans [OF only only_net_trans [OF m1(2) m2(2)]]] .
  ultimately have "still_serves fds p0 m2"
    using assms(4) parts only_net_unix [OF m2(2)] by (simp add: still_serves_def main_ok_def zero_counters_def)
  with m1(1) m2(1) show ?thesis by simp
qed

text \<open>
  C8. Once its sockets are open, \<open>main\<close> serves until a signal for the shutdown comes, whatever clients
  come before it and whether they are refused, accepted or cannot be given a process; then it returns
  0. Of the descriptors that the calls of the network open, those are open that were open at its
  start. Of the files, the trace file and the log are closed, and the file of the statistics is left
  open where one is configured.
\<close>

theorem main_run_ends:
  assumes "configure host opts p = Returned q" "open_sockets os net q = Returned m" "\<And>flags. host_loop host flags"
    and "signals_ok net host fds told" "stays_parent host fds" "signal_comes net host main_poll fds late"
    "no_abort main_poll" "opens_files os" "- 1 \<notin> fds (io_world p)"
    and "sint (cfg_port (pr_config q)) < 10000" "- 1000 < sint (cfg_port (pr_config q))"
  shows "\<exists>n. \<forall>fuel \<ge> n. \<exists>m'. main_run os net host ev poll main_poll fuel opts p = Returned (0, m') \<and>
    fds (io_world (mn_proc m')) = fds (io_world p) \<and>
    open_streams (mn_proc m') = pr_unclosed p @
      (let path = cstr (cfg_statistics_output (pr_config q)) in if 1 < length path then [path] else [])"
proof -
  define p0 where "p0 = open_output os (open_log os q)"
  note p0 = opened_files [OF assms(8), of q, folded p0_def]
  have q: "io_world q = io_world p" "pr_counters q = zero_counters" "pr_unclosed q = pr_unclosed p"
    using configure_finishes [OF assms(5), of p opts] configured [OF assms(1)] assms(1) by simp_all
  have net: "net_ok net fds" using assms(4) by (simp add: signals_ok_def)
  have no: "- 1 \<notin> fds (io_world q)" "- 1 \<notin> fds (io_world p0)" using assms(9) q(1) p0(3) by simp_all
  from open_sockets_finishes [OF net assms(8) no(1) assms(10,11), folded p0_def, unfolded assms(2) finishes_simps]
  have m: "serves_on fds p0 m" "mn_client_number m = 0" by simp_all
  from start_serves [OF m p0(1) _ assms(3), of ev] p0(4) q(2) obtain m1 m2 where
    m2: "start_loop host ev m = Returned m1" "log_startup host ev m1 = Returned m2" "still_serves fds p0 m2"
    by (auto simp: gives_def and_then_Returned_iff)
  have "gives (leaves_open fds p0)
      (main_run os net host ev poll main_poll fuel opts p)" if "main_variant late m2 < fuel" for fuel
    unfolding main_run_def assms(1,2) and_then.simps m2(1,2)
    by (rule gives_then [OF serving_loop_gives [OF net assms(5-7) p0(1) m2(3) that]
          serving_ends [OF assms(4,8) p0(1,2) no(2)]])
  then show ?thesis
    using p0(3,6,7) q(1,3)
    by (intro exI [of _ "main_variant late m2 + 1"]) (auto simp: gives_def leaves_open_def Let_def Suc_le_eq)
qed

text \<open>
  For the witness: a host with a configuration file, on which a client comes together with the signal.
\<close>

definition run_host :: "((i32 \<times> int) list \<times> i32 list) host" where
  "run_host = signal_host\<lparr>host_file := host_file (file_host :: unit host)\<rparr>"

definition run_poll :: "'w \<Rightarrow> main_event list \<times> 'w" where
  "run_poll w = ([Accept 3 False, Shutdown], w)"

definition run_config :: configuration where
  "run_config = (rendered (bs ''localhost'') 2346 (bs ''pgprtdbg.out'') (bs ''primary'')
     (bs ''db.example.org'') 5432)\<lparr>cfg_backlog := 4\<rparr>"

lemma run_host_configures:
  "\<exists>q. configure run_host [Opt_config (bs ''my.conf'')] p = Returned q \<and> pr_config q = run_config \<and>
    io_world q = io_world p"
  using read_rendered [OF demo_plain] rendered_valid [OF demo_plain]
  by (simp add: configure_def run_host_def signal_host_def file_host_def demo_host_def create_shared_memory_def
      set_config_def print_out_def Let_def run_config_def)

lemma run_config_settings: "cfg_port run_config = 2346" "cstr (cfg_host run_config) = bs ''localhost''"
  "\<not> has_unix_socket run_config" "cstr (cfg_statistics_output run_config) = []" "pr_unclosed (proc_on w) = []"
proof -
  from rendered_settings [OF demo_plain] show "cstr (cfg_host run_config) = bs ''localhost''" by (simp add: run_config_def)
  show "cfg_port run_config = 2346" "\<not> has_unix_socket run_config" "cstr (cfg_statistics_output run_config) = []"
    by (simp_all add: run_config_def rendered_def has_unix_socket_def init_configuration_def zero_configuration_def
        zero_text_def MISC_LENGTH_def numeral_eq_Suc)
  show "pr_unclosed (proc_on w) = []" by (simp add: proc_on_def io.defs)
qed

lemma host_bind_address:
  assumes "io_world p = (w, l)" "host_new (w, l) = (Inr fd, (w, fd # l))"
  shows "bind_address os host_net hostname port a p = Returned (Some fd, p\<lparr>io_world := (w, fd # l)\<rparr>)"
  using assms by (simp add: bind_address_def call_def host_net_def socket_buffers_def tcp_nodelay_def Let_def)

lemma run_opens:
  assumes "pr_config q = run_config" "io_world q = (w :: 'a, [])"
  shows "\<exists>m. open_sockets os host_net q = Returned m"
proof -
  let ?p = "open_output os (open_log os q)"
  have p: "io_world ?p = (w, [])" "cfg_port (pr_config ?p) = 2346" "cstr (cfg_host (pr_config ?p)) = bs ''localhost''"
    "\<not> has_unix_socket (pr_config ?p)"
    using assms run_config_settings by (simp_all add: open_output_def open_log_def has_unix_socket_def)
  have "sport 2346 = Some (show_int 2346)" by (simp add: sport_text)
  moreover have "bs ''localhost'' \<noteq> bs ''*''" by simp
  moreover have "host_new (w, []) = (Inr 3, (w, [3]))" "host_new (w, [3]) = (Inr 4, (w, [4, 3]))"
    by (simp_all add: host_new_def)
  moreover have "net_getaddrinfo host_net hostname service b (v :: 'a \<times> i32 list) = (Inr [Resolved 1, Resolved 2], v)"
    for hostname service b v by (simp add: host_net_def)
  ultimately show ?thesis
    using p by (simp add: open_sockets_def bind_uds_def bind_all_def bind_host_def host_bind_address MAX_FDS_def Let_def)
qed

theorem main_run_ends_witness:
  "\<exists>n. \<forall>fuel \<ge> n. \<exists>m'. main_run signal_os host_net run_host demo_ev client_poll run_poll fuel
      [Opt_config (bs ''my.conf'')] (proc_on ([], [])) = Returned (0, m') \<and>
    host_fds (io_world (mn_proc m')) = {} \<and> open_streams (mn_proc m') = []"
proof -
  obtain q where q: "configure run_host [Opt_config (bs ''my.conf'')] (proc_on ([], [])) = Returned q"
    "pr_config q = run_config" "io_world q = ([], [])"
    using run_host_configures [of "proc_on ([], [])"] by auto
  from run_opens [OF q(2,3), of signal_os] obtain m where m: "open_sockets signal_os host_net q = Returned m" by blast
  have loops: "host_loop run_host flags" for flags by (simp add: run_host_def signal_host_def demo_host_def)
  have calls: "signals_ok host_net run_host host_fds fst" "stays_parent run_host host_fds" "opens_files signal_os"
    using signal_host_ok by (simp_all add: signals_ok_def run_host_def signal_host_def demo_host_def stays_parent_def
        keeps_open_def opens_files_def signal_os_def)
  have polls: "signal_comes host_net run_host run_poll host_fds (\<lambda>_. 0)" "no_abort run_poll"
    by (simp_all add: signal_comes_def run_poll_def no_abort_def)
  have start: "- 1 \<notin> host_fds (io_world (proc_on ([] :: (i32 \<times> int) list, [])))" by (simp add: host_fds_def)
  from main_run_ends [OF q(1) m loops calls(1,2) polls calls(3) start, of demo_ev client_poll] show ?thesis
    by (simp add: q(2) run_config_settings host_fds_def Let_def)
qed

end
