(* ===== verification/Registry.thy ===== *)
theory Registry
  imports Lifecycle Proxy
begin

text \<open>
  The places in the shared memory for which the processes compete: the table \<open>pids\<close> of the workers
  and the number of active connections (\<open>src/src/libpgprtdbg/worker.c\<close>, \<open>accept_cb\<close> of
  \<open>src/src/main.c\<close>). Any number of workers and \<open>main\<close> interleave at every access to them.
\<close>

section \<open>State\<close>

text \<open>
  Where a worker is: before the entry it looks at next to register, between seeing that an entry is
  free and writing its own id there, connecting, in its session, before the entry it looks at next to
  find its id again, between finding it and clearing the entry, and behind that.
\<close>

datatype place = Looking nat | Claiming nat | Connecting | Serving | Searching nat | Clearing nat | Leaving

text \<open>
  \<open>wk_number\<close> is the index of its counter and \<open>wk_connected\<close> the variable \<open>connected\<close>. The value that
  the loop variable \<open>i\<close> has at the \<open>break\<close> of the first loop, the entry the worker has written to, is
  \<open>wk_slot\<close>: no code reads it, it serves to state what the table holds.
\<close>

record client_worker =
  wk_place :: place
  wk_number :: nat
  wk_connected :: bool
  wk_slot :: "nat option"

text \<open>
  The workers that live, by process id, whether \<open>main\<close> is behind the check of the limit, and the number it
  gives to the next client.
\<close>

record registry =
  rg_pids :: "i32 list"
  rg_active :: "16 word"
  rg_workers :: "i32 \<rightharpoonup> client_worker"
  rg_passed :: bool
  rg_next :: nat

definition registry_start :: "registry \<Rightarrow> bool" where
  "registry_start r \<longleftrightarrow> rg_pids r = cfg_pids zero_configuration \<and>
     rg_active r = cfg_active_connections zero_configuration \<and> rg_workers r = Map.empty \<and>
     \<not> rg_passed r \<and> rg_next r = 0"

definition new_worker :: "nat \<Rightarrow> client_worker" where
  "new_worker n = \<lparr>wk_place = Looking 0, wk_number = n, wk_connected = False, wk_slot = None\<rparr>"

abbreviation put_worker :: "i32 \<Rightarrow> client_worker \<Rightarrow> registry \<Rightarrow> registry" where
  "put_worker p w r \<equiv> r\<lparr>rg_workers := (rg_workers r)(p \<mapsto> w)\<rparr>"

abbreviation go_to :: "i32 \<Rightarrow> client_worker \<Rightarrow> place \<Rightarrow> registry \<Rightarrow> registry" where
  "go_to p w pl r \<equiv> put_worker p (w\<lparr>wk_place := pl\<rparr>) r"

section \<open>Steps\<close>

text \<open>
  The loop that registers a worker: one step per look at an entry, and one for the write behind a look
  that saw 0. No lock is held between the two.
\<close>

inductive register_step :: "i32 \<Rightarrow> registry \<Rightarrow> registry \<Rightarrow> bool" for p :: i32 where
  look_taken: "rg_workers r p = Some w \<Longrightarrow> wk_place w = Looking i \<Longrightarrow> i < MAX_NUMBER_OF_CONNECTIONS \<Longrightarrow>
    rg_pids r ! i \<noteq> 0 \<Longrightarrow> register_step p r (go_to p w (Looking (i + 1)) r)"
| look_free: "rg_workers r p = Some w \<Longrightarrow> wk_place w = Looking i \<Longrightarrow> i < MAX_NUMBER_OF_CONNECTIONS \<Longrightarrow>
    rg_pids r ! i = 0 \<Longrightarrow> register_step p r (go_to p w (Claiming i) r)"
| look_none: "rg_workers r p = Some w \<Longrightarrow> wk_place w = Looking i \<Longrightarrow> MAX_NUMBER_OF_CONNECTIONS \<le> i \<Longrightarrow>
    register_step p r (go_to p w Connecting r)"
| claim: "rg_workers r p = Some w \<Longrightarrow> wk_place w = Claiming i \<Longrightarrow>
    register_step p r (go_to p (w\<lparr>wk_slot := Some i\<rparr>) Connecting (r\<lparr>rg_pids := (rg_pids r)[i := p]\<rparr>))"

text \<open>Connecting to the server, with the atomic increment behind a success, and the end of the session.\<close>

inductive session_part :: "i32 \<Rightarrow> registry \<Rightarrow> registry \<Rightarrow> bool" for p :: i32 where
  connected: "rg_workers r p = Some w \<Longrightarrow> wk_place w = Connecting \<Longrightarrow>
    session_part p r (go_to p (w\<lparr>wk_connected := True\<rparr>) Serving (r\<lparr>rg_active := rg_active r + 1\<rparr>))"
| not_connected: "rg_workers r p = Some w \<Longrightarrow> wk_place w = Connecting \<Longrightarrow>
    session_part p r (go_to p w (Searching 0) r)"
| session_over: "rg_workers r p = Some w \<Longrightarrow> wk_place w = Serving \<Longrightarrow>
    session_part p r (go_to p w (Searching 0) r)"

text \<open>The loop that gives the entry back, and the atomic decrement; nothing shared is used behind it.\<close>

inductive unregister_step :: "i32 \<Rightarrow> registry \<Rightarrow> registry \<Rightarrow> bool" for p :: i32 where
  search_other: "rg_workers r p = Some w \<Longrightarrow> wk_place w = Searching i \<Longrightarrow> i < MAX_NUMBER_OF_CONNECTIONS \<Longrightarrow>
    rg_pids r ! i \<noteq> p \<Longrightarrow> unregister_step p r (go_to p w (Searching (i + 1)) r)"
| search_found: "rg_workers r p = Some w \<Longrightarrow> wk_place w = Searching i \<Longrightarrow> i < MAX_NUMBER_OF_CONNECTIONS \<Longrightarrow>
    rg_pids r ! i = p \<Longrightarrow> unregister_step p r (go_to p w (Clearing i) r)"
| search_none: "rg_workers r p = Some w \<Longrightarrow> wk_place w = Searching i \<Longrightarrow> MAX_NUMBER_OF_CONNECTIONS \<le> i \<Longrightarrow>
    unregister_step p r (go_to p w Leaving r)"
| clear: "rg_workers r p = Some w \<Longrightarrow> wk_place w = Clearing i \<Longrightarrow>
    unregister_step p r (go_to p w Leaving (r\<lparr>rg_pids := (rg_pids r)[i := 0]\<rparr>))"
| leave: "rg_workers r p = Some w \<Longrightarrow> wk_place w = Leaving \<Longrightarrow>
    unregister_step p r (r\<lparr>rg_workers := (rg_workers r)(p := None),
      rg_active := rg_active r - (if wk_connected w then 1 else 0)\<rparr>)"

text \<open>
  \<open>accept_cb\<close>: the check of the limit, and behind it \<open>accept\<close>, which may give no client, and \<open>fork\<close>,
  which gives a process id that no other worker has, or fails; the client number is counted either
  way. The workers may move between the check and the fork.
\<close>

definition next_number :: "registry \<Rightarrow> nat" where
  "next_number r = (if rg_next r < MAX_NUMBER_OF_COUNTERS then rg_next r + 1 else rg_next r)"

datatype accept_move = Passes_limit | No_client | Forks "i32 option"

inductive accept_step :: "accept_move \<Rightarrow> registry \<Rightarrow> registry \<Rightarrow> bool" where
  passes_limit: "\<not> rg_passed r \<Longrightarrow> \<not> MAX_NUMBER_OF_CONNECTIONS < unat (rg_active r) \<Longrightarrow>
    accept_step Passes_limit r (r\<lparr>rg_passed := True\<rparr>)"
| no_client: "rg_passed r \<Longrightarrow> accept_step No_client r (r\<lparr>rg_passed := False\<rparr>)"
| forked: "rg_passed r \<Longrightarrow> p \<noteq> 0 \<Longrightarrow> rg_workers r p = None \<Longrightarrow> accept_step (Forks (Some p)) r
    (put_worker p (new_worker (rg_next r)) (r\<lparr>rg_passed := False, rg_next := next_number r\<rparr>))"
| not_forked: "rg_passed r \<Longrightarrow> accept_step (Forks None) r (r\<lparr>rg_passed := False, rg_next := next_number r\<rparr>)"

text \<open>\<open>Lost\<close> is a worker that ends without its last steps, as by \<open>exit (1)\<close> in \<open>fe_zero\<close> or by a crash.\<close>

datatype registry_event = Accepts accept_move | Registers i32 | Serves i32 | Unregisters i32 | Lost i32

inductive registry_step :: "registry \<Rightarrow> registry_event \<Rightarrow> registry \<Rightarrow> bool" where
  accepts: "accept_step m r r' \<Longrightarrow> registry_step r (Accepts m) r'"
| registers: "register_step p r r' \<Longrightarrow> registry_step r (Registers p) r'"
| serves: "session_part p r r' \<Longrightarrow> registry_step r (Serves p) r'"
| unregisters: "unregister_step p r r' \<Longrightarrow> registry_step r (Unregisters p) r'"
| lost: "rg_workers r p = Some w \<Longrightarrow>
    registry_step r (Lost p) (r\<lparr>rg_workers := (rg_workers r)(p := None)\<rparr>)"

inductive_cases registry_stepE: "registry_step r e r'"
inductive_cases register_stepE: "register_step p r r'"
inductive_cases session_partE: "session_part p r r'"
inductive_cases unregister_stepE: "unregister_step p r r'"
inductive_cases accept_stepE: "accept_step p r r'"

definition nobody_lost :: "registry_event \<Rightarrow> bool" where
  "nobody_lost e \<longleftrightarrow> (\<forall>p. e \<noteq> Lost p)"

section \<open>What holds in every interleaving\<close>

text \<open>
  A worker may still find its id in the entry \<open>i\<close>: it has written there, and its search has not gone
  past it.
\<close>

definition has_entry :: "nat \<Rightarrow> client_worker \<Rightarrow> bool" where
  "has_entry i w \<longleftrightarrow> wk_slot w = Some i \<and> (case wk_place w of
     Looking j \<Rightarrow> False | Claiming j \<Rightarrow> False | Searching j \<Rightarrow> j \<le> i | Clearing j \<Rightarrow> j = i
   | Leaving \<Rightarrow> False | _ \<Rightarrow> True)"

definition in_session :: "(i32 \<rightharpoonup> client_worker) \<Rightarrow> i32 set" where
  "in_session ws = {p. \<exists>w. ws p = Some w \<and> wk_connected w}"

definition worker_inv :: "client_worker \<Rightarrow> bool" where
  "worker_inv w \<longleftrightarrow> (case wk_place w of
     Looking j \<Rightarrow> \<not> wk_connected w | Claiming j \<Rightarrow> \<not> wk_connected w \<and> j < MAX_NUMBER_OF_CONNECTIONS
   | Connecting \<Rightarrow> \<not> wk_connected w | Clearing j \<Rightarrow> wk_slot w = Some j | _ \<Rightarrow> True)"

definition table_inv :: "registry \<Rightarrow> bool" where
  "table_inv r \<longleftrightarrow> length (rg_pids r) = MAX_NUMBER_OF_CONNECTIONS \<and> rg_workers r 0 = None \<and>
     (\<forall>p w. rg_workers r p = Some w \<longrightarrow> worker_inv w) \<and>
     (\<forall>i < MAX_NUMBER_OF_CONNECTIONS. rg_pids r ! i \<noteq> 0 \<longrightarrow>
        (\<exists>w. rg_workers r (rg_pids r ! i) = Some w \<and> has_entry i w))"

definition count_inv :: "registry \<Rightarrow> bool" where
  "count_inv r \<longleftrightarrow> finite (dom (rg_workers r)) \<and> rg_active r = of_nat (card (in_session (rg_workers r)))"

definition number_inv :: "registry \<Rightarrow> bool" where
  "number_inv r \<longleftrightarrow> rg_next r \<le> MAX_NUMBER_OF_COUNTERS \<and>
     (\<forall>p w. rg_workers r p = Some w \<longrightarrow> wk_number w \<le> rg_next r \<and>
        (wk_number w < MAX_NUMBER_OF_COUNTERS \<longrightarrow> wk_number w < rg_next r)) \<and>
     (\<forall>p q w v. rg_workers r p = Some w \<longrightarrow> rg_workers r q = Some v \<longrightarrow> wk_number w = wk_number v \<longrightarrow>
        wk_number w < MAX_NUMBER_OF_COUNTERS \<longrightarrow> p = q)"

text \<open>Steps in which workers keep their numbers, or end.\<close>

definition same_numbers :: "registry \<Rightarrow> registry \<Rightarrow> bool" where
  "same_numbers r r' \<longleftrightarrow> rg_next r' = rg_next r \<and>
     (\<forall>q. rg_workers r' q \<noteq> None \<longrightarrow> map_option wk_number (rg_workers r' q) = map_option wk_number (rg_workers r q))"

lemma number_inv_move:
  assumes "number_inv r" "same_numbers r r'"
  shows "number_inv r'"
proof -
  have old: "\<exists>v. rg_workers r q = Some v \<and> wk_number v = wk_number w" if "rg_workers r' q = Some w" for q w
  proof -
    have "map_option wk_number (rg_workers r q) = Some (wk_number w)"
      using assms(2) that unfolding same_numbers_def by (metis option.distinct(1) option.simps(9))
    then show ?thesis by auto
  qed
  show ?thesis
    unfolding number_inv_def
  proof (intro conjI allI impI)
    fix p q w v assume "rg_workers r' p = Some w" "rg_workers r' q = Some v" "wk_number w = wk_number v"
      "wk_number w < MAX_NUMBER_OF_COUNTERS"
    then show "p = q" using assms(1) old [of p w] old [of q v] unfolding number_inv_def by metis
  qed (use assms in \<open>fastforce simp: number_inv_def same_numbers_def dest: old\<close>)+
qed

lemma number_inv_new:
  "number_inv r \<Longrightarrow> number_inv (put_worker p (new_worker (rg_next r)) (r\<lparr>rg_passed := b, rg_next := next_number r\<rparr>))"
  unfolding number_inv_def next_number_def new_worker_def
  by (auto split: if_splits intro: le_SucI less_SucI) (metis less_irrefl)+

lemma number_inv_uncounted:
  "number_inv r \<Longrightarrow> number_inv (r\<lparr>rg_passed := b, rg_next := next_number r\<rparr>)"
  "number_inv r \<Longrightarrow> number_inv (r\<lparr>rg_passed := b\<rparr>)"
  unfolding number_inv_def next_number_def by (auto intro: le_SucI less_SucI)

lemma in_session_simps:
  "in_session (ws(p \<mapsto> w)) = (if wk_connected w then insert p (in_session ws) else in_session ws - {p})"
  "in_session (ws(p := None)) = in_session ws - {p}"
  by (auto simp: in_session_def)

lemma in_session_iff: "ws p = Some w \<Longrightarrow> p \<in> in_session ws \<longleftrightarrow> wk_connected w"
  "ws p = None \<Longrightarrow> p \<notin> in_session ws"
  by (simp_all add: in_session_def)

lemma finite_in_session: "finite (dom ws) \<Longrightarrow> finite (in_session ws)"
  by (rule finite_subset [of _ "dom ws"]) (auto simp: in_session_def)

text \<open>The table: an entry is only written by the worker whose id it gets, and cleared by anyone.\<close>

lemma table_inv_move:
  assumes "table_inv r" "rg_workers r p = Some w" "worker_inv w'" 
    "\<And>i. has_entry i w \<Longrightarrow> i < MAX_NUMBER_OF_CONNECTIONS \<Longrightarrow> rg_pids r ! i = p \<Longrightarrow> has_entry i w'"
  shows "table_inv (put_worker p w' r)"
  using assms by (auto simp: table_inv_def)

lemma table_inv_entry:
  assumes "table_inv r" "x \<noteq> 0 \<Longrightarrow> \<exists>w. rg_workers r x = Some w \<and> has_entry i w"
  shows "table_inv (r\<lparr>rg_pids := (rg_pids r)[i := x]\<rparr>)"
  unfolding table_inv_def
proof (intro conjI allI impI)
  fix j assume j: "j < MAX_NUMBER_OF_CONNECTIONS" "rg_pids (r\<lparr>rg_pids := (rg_pids r)[i := x]\<rparr>) ! j \<noteq> 0"
  then show "\<exists>w. rg_workers (r\<lparr>rg_pids := (rg_pids r)[i := x]\<rparr>) (rg_pids (r\<lparr>rg_pids := (rg_pids r)[i := x]\<rparr>) ! j) =
      Some w \<and> has_entry j w"
    using assms by (cases "j = i") (auto simp: table_inv_def)
qed (use assms(1) in \<open>auto simp: table_inv_def\<close>)

lemma table_inv_cong:
  "table_inv r \<Longrightarrow> rg_pids r' = rg_pids r \<Longrightarrow> rg_workers r' = rg_workers r \<Longrightarrow> table_inv r'"
  by (simp add: table_inv_def)

lemma table_invD:
  assumes "table_inv r" "rg_workers r p = Some w"
  shows "worker_inv w" "p \<noteq> 0" "i < MAX_NUMBER_OF_CONNECTIONS \<Longrightarrow> rg_pids r ! i = p \<Longrightarrow> has_entry i w"
  using assms by (auto simp: table_inv_def)

text \<open>An entry in which a worker can no longer find its id is not its entry.\<close>

lemma table_inv_past:
  assumes "table_inv r" "rg_workers r p = Some w" "\<And>i. \<not> has_entry i w"
  shows "table_inv (r\<lparr>rg_workers := (rg_workers r)(p := None)\<rparr>)"
  using assms by (auto simp: table_inv_def)

text \<open>A worker that moves without connecting.\<close>

lemma count_inv_move:
  assumes "count_inv r" "rg_workers r p = Some w" "wk_connected w' = wk_connected w"
  shows "count_inv (put_worker p w' r)" "count_inv (r\<lparr>rg_pids := l, rg_workers := (rg_workers r)(p \<mapsto> w')\<rparr>)"
proof -
  have "in_session ((rg_workers r)(p \<mapsto> w')) = in_session (rg_workers r)"
    using assms(2,3) by (auto simp: in_session_simps in_session_iff)
  then show "count_inv (put_worker p w' r)" "count_inv (r\<lparr>rg_pids := l, rg_workers := (rg_workers r)(p \<mapsto> w')\<rparr>)"
    using assms(1) by (simp_all add: count_inv_def)
qed

lemma count_inv_step:
  "count_inv r \<Longrightarrow> table_inv r \<Longrightarrow> registry_step r e r' \<Longrightarrow> nobody_lost e \<Longrightarrow> count_inv r'"
proof (erule registry_stepE)
  fix p assume "count_inv r" "accept_step p r r'"
  then show "count_inv r'"
    by (elim accept_stepE) (auto simp: count_inv_def in_session_simps in_session_iff new_worker_def)
next
  fix p assume "count_inv r" "register_step p r r'"
  then show "count_inv r'" by (elim register_stepE) (auto intro: count_inv_move)
next
  fix p assume a: "count_inv r" "table_inv r" "session_part p r r'"
  from a(3) show "count_inv r'"
  proof cases
    case (connected w)
    have "p \<notin> in_session (rg_workers r)"
      using table_invD(1) [OF a(2) connected(2)] connected(2,3) by (simp add: worker_inv_def in_session_iff)
    then show ?thesis using a(1) by (auto simp: count_inv_def connected(1) in_session_simps finite_in_session)
  qed (use a(1) in \<open>auto intro: count_inv_move\<close>)
next
  fix p assume a: "count_inv r" "unregister_step p r r'"
  from a(2) show "count_inv r'"
  proof cases
    case (leave w)
    have "card (in_session (rg_workers r)) = (if wk_connected w then 1 else 0) + card (in_session (rg_workers r) - {p})"
      using card_Suc_Diff1 [of "in_session (rg_workers r)" p] finite_in_session [of "rg_workers r"] a(1)
        in_session_iff(1) [of "rg_workers r", OF leave(2)]
      by (simp add: count_inv_def del: card_Diff_insert card_Diff_singleton_if)
    then show ?thesis using a(1) by (auto simp: count_inv_def leave(1) in_session_simps)
  qed (use a(1) in \<open>auto intro: count_inv_move\<close>)
qed (simp add: nobody_lost_def)

lemma table_inv_step: "table_inv r \<Longrightarrow> registry_step r e r' \<Longrightarrow> nobody_lost e \<Longrightarrow> table_inv r'"
proof (erule registry_stepE)
  fix p assume "table_inv r" "accept_step p r r'"
  then show "table_inv r'"
    by (elim accept_stepE) (auto simp: table_inv_def new_worker_def worker_inv_def)
next
  fix p assume a: "table_inv r" "register_step p r r'"
  from a(2) show "table_inv r'"
  proof cases
    case (claim w i)
    let ?w = "w\<lparr>wk_slot := Some i, wk_place := Connecting\<rparr>"
    have "table_inv (put_worker p ?w r)"
      using table_invD(1) [OF a(1) claim(2)] claim(3)
      by (intro table_inv_move [OF a(1) claim(2)]) (auto simp: worker_inv_def has_entry_def)
    from table_inv_entry [OF this, of p i] have "table_inv ((put_worker p ?w r)\<lparr>rg_pids := (rg_pids r)[i := p]\<rparr>)"
      by (simp add: has_entry_def)
    then show ?thesis by (rule table_inv_cong) (simp_all add: claim(1))
  qed (use a(1) in \<open>auto intro!: table_inv_move simp: worker_inv_def has_entry_def dest: table_invD(1)\<close>)
next
  fix p assume a: "table_inv r" "session_part p r r'"
  from a(2) show "table_inv r'"
  proof cases
    case (connected w)
    have "table_inv (put_worker p (w\<lparr>wk_connected := True, wk_place := Serving\<rparr>) r)"
      by (rule table_inv_move [OF a(1) connected(2)]) (use connected in \<open>auto simp: worker_inv_def has_entry_def\<close>)
    then show ?thesis by (rule table_inv_cong) (simp_all add: connected(1))
  qed (use a(1) in \<open>auto intro!: table_inv_move simp: worker_inv_def has_entry_def\<close>)
next
  fix p assume a: "table_inv r" "unregister_step p r r'"
  from a(2) show "table_inv r'"
  proof cases
    case (search_other w i)
    have "table_inv (put_worker p (w\<lparr>wk_place := Searching (i + 1)\<rparr>) r)"
      by (rule table_inv_move [OF a(1) search_other(2)])
        (use search_other in \<open>auto simp: worker_inv_def has_entry_def Suc_le_eq order.strict_iff_order\<close>)
    then show ?thesis by (simp add: search_other(1))
  next
    case (search_found w i)
    from table_invD(3) [OF a(1) search_found(2,4,5)] search_found(3) have "wk_slot w = Some i"
      by (simp add: has_entry_def)
    then have "table_inv (put_worker p (w\<lparr>wk_place := Clearing i\<rparr>) r)"
      by (intro table_inv_move [OF a(1) search_found(2)]) (auto simp: worker_inv_def has_entry_def)
    then show ?thesis by (simp add: search_found(1))
  next
    case (search_none w i)
    have "table_inv (put_worker p (w\<lparr>wk_place := Leaving\<rparr>) r)"
      by (rule table_inv_move [OF a(1) search_none(2)]) (use search_none in \<open>auto simp: worker_inv_def has_entry_def\<close>)
    then show ?thesis by (simp add: search_none(1))
  next
    case (clear w i)
    have i: "table_inv (r\<lparr>rg_pids := (rg_pids r)[i := 0]\<rparr>)" by (rule table_inv_entry [OF a(1)]) simp
    have "length (rg_pids r) = MAX_NUMBER_OF_CONNECTIONS" using a(1) by (simp add: table_inv_def)
    then have "table_inv (put_worker p (w\<lparr>wk_place := Leaving\<rparr>) (r\<lparr>rg_pids := (rg_pids r)[i := 0]\<rparr>))"
      using clear(2,3) table_invD(2) [OF a(1) clear(2)]
      by (intro table_inv_move [OF i]) (auto simp: worker_inv_def has_entry_def)
    then show ?thesis by (simp add: clear(1))
  next
    case (leave w)
    have "table_inv (r\<lparr>rg_workers := (rg_workers r)(p := None)\<rparr>)"
      by (rule table_inv_past [OF a(1) leave(2)]) (simp add: has_entry_def leave(3))
    then show ?thesis by (rule table_inv_cong) (simp_all add: leave(1))
  qed
qed (simp add: nobody_lost_def)

lemma number_inv_step: "number_inv r \<Longrightarrow> registry_step r e r' \<Longrightarrow> number_inv r'"
proof (erule registry_stepE)
  fix p assume "number_inv r" "accept_step p r r'"
  from this(2) show "number_inv r'" by cases (use \<open>number_inv r\<close> in \<open>simp_all only: number_inv_new number_inv_uncounted\<close>)
next
  fix p assume a: "number_inv r" "register_step p r r'"
  from a(2) have "same_numbers r r'" by cases (auto simp: same_numbers_def)
  with a(1) show "number_inv r'" by (rule number_inv_move)
next
  fix p assume a: "number_inv r" "session_part p r r'"
  from a(2) have "same_numbers r r'" by cases (auto simp: same_numbers_def)
  with a(1) show "number_inv r'" by (rule number_inv_move)
next
  fix p assume a: "number_inv r" "unregister_step p r r'"
  from a(2) have "same_numbers r r'" by cases (auto simp: same_numbers_def)
  with a(1) show "number_inv r'" by (rule number_inv_move)
qed (erule number_inv_move, simp add: same_numbers_def)

text \<open>The machine: as long as no worker is lost, all three hold, and the numbers in any case.\<close>

definition registry_inv :: "registry \<Rightarrow> bool" where
  "registry_inv r \<longleftrightarrow> table_inv r \<and> count_inv r \<and> number_inv r"

lemma registry_start_inv: "registry_start r \<Longrightarrow> registry_inv r"
  by (auto simp: registry_start_def registry_inv_def table_inv_def count_inv_def number_inv_def
      zero_configuration_def in_session_def)

interpretation registry_machine: machine registry_start registry_step nobody_lost registry_inv
  using registry_start_inv by unfold_locales
    (auto simp: registry_inv_def intro: table_inv_step count_inv_step number_inv_step)

interpretation number_machine: machine registry_start registry_step "\<lambda>_. True" number_inv
  using registry_start_inv by unfold_locales (auto simp: registry_inv_def intro: number_inv_step)

section \<open>Registering without a race\<close>

text \<open>Two workers have seen the same entry free, and neither has written to it.\<close>

definition contested :: "registry \<Rightarrow> bool" where
  "contested r \<longleftrightarrow> (\<exists>p q w v i. p \<noteq> q \<and> rg_workers r p = Some w \<and> rg_workers r q = Some v \<and>
     wk_place w = Claiming i \<and> wk_place v = Claiming i)"

definition quiet_step :: "registry \<Rightarrow> registry_event \<Rightarrow> registry \<Rightarrow> bool" where
  "quiet_step r e r' \<longleftrightarrow> registry_step r e r' \<and> \<not> contested r"

definition placed :: "registry \<Rightarrow> i32 \<Rightarrow> client_worker \<Rightarrow> bool" where
  "placed r p w \<longleftrightarrow> (\<forall>i. wk_place w = Claiming i \<longrightarrow> rg_pids r ! i = 0) \<and>
     (\<forall>i. wk_slot w = Some i \<longrightarrow> wk_place w \<noteq> Leaving \<longrightarrow> i < MAX_NUMBER_OF_CONNECTIONS \<and> rg_pids r ! i = p)"

definition place_inv :: "registry \<Rightarrow> bool" where
  "place_inv r \<longleftrightarrow> table_inv r \<and> (\<forall>p w. rg_workers r p = Some w \<longrightarrow> placed r p w)"

lemma place_inv_step:
  assumes inv: "place_inv r" and step: "quiet_step r e r'" and "nobody_lost e"
  shows "place_inv r'"
proof -
  have "table_inv r'" using assms by (auto simp: place_inv_def quiet_step_def intro: table_inv_step)
  moreover have "\<forall>q v. rg_workers r' q = Some v \<longrightarrow> placed r' q v"
  proof -
    have all: "\<forall>q v. rg_workers r q = Some v \<longrightarrow> placed r q v" and tab: "table_inv r"
      using inv by (simp_all add: place_inv_def)
    have len: "length (rg_pids r) = MAX_NUMBER_OF_CONNECTIONS" using tab by (simp add: table_inv_def)
    from step have "registry_step r e r'" "\<not> contested r" by (simp_all add: quiet_step_def)
    then show ?thesis
    proof cases
      case (accepts p)
      from accepts(2) show ?thesis
        by cases (use all in \<open>auto simp: placed_def new_worker_def\<close>)
    next
      case (registers p)
      from registers(2) show ?thesis
      proof cases
        case (claim w i)
        then have i: "rg_pids r ! i = 0" "i < MAX_NUMBER_OF_CONNECTIONS" "p \<noteq> 0"
          using all table_invD(1,2) [OF tab claim(2)] by (auto simp: placed_def worker_inv_def)
        show ?thesis
        proof (intro allI impI)
          fix q v assume v: "rg_workers r' q = Some v"
          show "placed r' q v"
          proof (cases "q = p")
            case True
            with v i len show ?thesis by (auto simp: claim(1) placed_def)
          next
            case False
            then have old: "rg_workers r q = Some v" using v by (simp add: claim(1))
            have "wk_place v \<noteq> Claiming i" using \<open>\<not> contested r\<close> False old claim(2,3) unfolding contested_def by blast
            moreover have "q \<noteq> 0" using table_invD(2) [OF tab old] .
            ultimately show ?thesis using all old i len by (auto simp: claim(1) placed_def nth_list_update)
          qed
        qed
      qed (use all in \<open>auto simp: placed_def\<close>)
    next
      case (serves p)
      from serves(2) show ?thesis by cases (use all in \<open>auto simp: placed_def\<close>)
    next
      case (unregisters p)
      from unregisters(2) show ?thesis
      proof cases
        case (clear w i)
        have w: "wk_slot w = Some i" using table_invD(1) [OF tab clear(2)] clear(3) by (simp add: worker_inv_def)
        show ?thesis
        proof (intro allI impI)
          fix q v assume v: "rg_workers r' q = Some v"
          show "placed r' q v"
          proof (cases "q = p")
            case True
            with v show ?thesis by (auto simp: clear(1) placed_def)
          next
            case False
            then have old: "rg_workers r q = Some v" using v by (simp add: clear(1))
            have i: "rg_pids r ! i = p" "i < length (rg_pids r)" using all clear(2,3) w len by (auto simp: placed_def)
            show ?thesis using all old i False by (auto simp: clear(1) placed_def nth_list_update)
          qed
        qed
      qed (use all in \<open>auto simp: placed_def split: if_splits\<close>)
    qed (use \<open>nobody_lost e\<close> in \<open>simp add: nobody_lost_def\<close>)
  qed
  ultimately show ?thesis by (simp add: place_inv_def)
qed

interpretation place_machine: machine registry_start quiet_step nobody_lost place_inv
proof unfold_locales
  fix r assume "registry_start r"
  then show "place_inv r" using registry_start_inv by (simp add: place_inv_def registry_inv_def registry_start_def)
qed (rule place_inv_step)

section \<open>A worker alone\<close>

lemma runs_one: "step s e t \<Longrightarrow> runs step s [e] t"
  by (blast intro: runs_Cons runs_Nil)

text \<open>
  When nobody else moves, the loops change the table as the sequential model of the worker does: the
  first free entry gets the id, and the first entry with the id is cleared.
\<close>

lemma replace_first_update:
  "i < length l \<Longrightarrow> l ! i = a \<Longrightarrow> a \<notin> set (take i l) \<Longrightarrow> replace_first a b l = l[i := b]"
proof (induction l arbitrary: i)
  case (Cons x l)
  then show ?case by (cases i) auto
qed simp

lemma length_replace_first [simp]: "length (replace_first a b l) = length l"
  by (induction l) simp_all

lemma take_Suc_nth_in: "i < length l \<Longrightarrow> a \<notin> set (take (Suc i) l) \<longleftrightarrow> a \<notin> set (take i l) \<and> l ! i \<noteq> a"
  by (auto simp: take_Suc_conv_app_nth)

lemma registers_from:
  assumes "rg_workers r p = Some w" "wk_place w = Looking i" "length (rg_pids r) = MAX_NUMBER_OF_CONNECTIONS"
    "i \<le> MAX_NUMBER_OF_CONNECTIONS" "0 \<notin> set (take i (rg_pids r))"
  shows "\<exists>n s. runs registry_step r (replicate n (Registers p)) (put_worker p
    (w\<lparr>wk_slot := s, wk_place := Connecting\<rparr>) (r\<lparr>rg_pids := replace_first 0 p (rg_pids r)\<rparr>))"
  using assms
proof (induction "MAX_NUMBER_OF_CONNECTIONS - i" arbitrary: r w i)
  case 0
  then have "0 \<notin> set (rg_pids r)" "MAX_NUMBER_OF_CONNECTIONS \<le> i" by simp_all
  with 0 have "registry_step r (Registers p) (put_worker p (w\<lparr>wk_slot := wk_slot w, wk_place := Connecting\<rparr>)
      (r\<lparr>rg_pids := replace_first 0 p (rg_pids r)\<rparr>))"
    using registers [OF look_none [of r p w i]] by (simp add: replace_absent)
  from runs_one [of registry_step, OF this] have "runs registry_step r (replicate 1 (Registers p)) (put_worker p
      (w\<lparr>wk_slot := wk_slot w, wk_place := Connecting\<rparr>) (r\<lparr>rg_pids := replace_first 0 p (rg_pids r)\<rparr>))" by simp
  then show ?case by blast
next
  case (Suc n)
  then have i: "i < MAX_NUMBER_OF_CONNECTIONS" by simp
  show ?case
  proof (cases "rg_pids r ! i = 0")
    case True
    let ?r = "go_to p w (Claiming i) r"
    have a: "registry_step r (Registers p) ?r" by (rule registers, rule look_free) (use Suc i True in simp_all)
    have "register_step p ?r (go_to p ((w\<lparr>wk_place := Claiming i\<rparr>)\<lparr>wk_slot := Some i\<rparr>) Connecting
        (?r\<lparr>rg_pids := (rg_pids ?r)[i := p]\<rparr>))"
      by (rule claim) simp_all
    moreover have "replace_first 0 p (rg_pids r) = (rg_pids r)[i := p]"
      using Suc.prems i True by (intro replace_first_update) simp_all
    ultimately have b: "registry_step ?r (Registers p) (put_worker p (w\<lparr>wk_slot := Some i, wk_place := Connecting\<rparr>)
        (r\<lparr>rg_pids := replace_first 0 p (rg_pids r)\<rparr>))"
      by (simp add: registers)
    from runs_Cons [of registry_step, OF a runs_one [of registry_step, OF b]] have "runs registry_step r (replicate 2 (Registers p))
        (put_worker p (w\<lparr>wk_slot := Some i, wk_place := Connecting\<rparr>) (r\<lparr>rg_pids := replace_first 0 p (rg_pids r)\<rparr>))"
      by (simp add: numeral_eq_Suc)
    then show ?thesis by blast
  next
    case False
    let ?w = "w\<lparr>wk_place := Looking (i + 1)\<rparr>"
    have a: "registry_step r (Registers p) (put_worker p ?w r)"
      by (rule registers, rule look_taken) (use Suc i False in simp_all)
    have "n = MAX_NUMBER_OF_CONNECTIONS - (i + 1)" using Suc.hyps(2) by simp
    from Suc.hyps(1) [OF this, of "put_worker p ?w r" ?w] obtain k s where
      "runs registry_step (put_worker p ?w r) (replicate k (Registers p)) (put_worker p
        (w\<lparr>wk_slot := s, wk_place := Connecting\<rparr>) (r\<lparr>rg_pids := replace_first 0 p (rg_pids r)\<rparr>))"
      using Suc.prems i False by (auto simp: take_Suc_nth_in)
    from runs_Cons [of registry_step, OF a this] have "runs registry_step r (replicate (Suc k) (Registers p)) (put_worker p
        (w\<lparr>wk_slot := s, wk_place := Connecting\<rparr>) (r\<lparr>rg_pids := replace_first 0 p (rg_pids r)\<rparr>))" by simp
    then show ?thesis by blast
  qed
qed

lemma unregisters_from:
  assumes "rg_workers r p = Some w" "wk_place w = Searching i" "length (rg_pids r) = MAX_NUMBER_OF_CONNECTIONS"
    "i \<le> MAX_NUMBER_OF_CONNECTIONS" "p \<notin> set (take i (rg_pids r))"
  shows "\<exists>n. runs registry_step r (replicate n (Unregisters p))
    (go_to p w Leaving (r\<lparr>rg_pids := replace_first p 0 (rg_pids r)\<rparr>))"
  using assms
proof (induction "MAX_NUMBER_OF_CONNECTIONS - i" arbitrary: r w i)
  case 0
  then have "p \<notin> set (rg_pids r)" "MAX_NUMBER_OF_CONNECTIONS \<le> i" by simp_all
  with 0 have "registry_step r (Unregisters p) (go_to p w Leaving (r\<lparr>rg_pids := replace_first p 0 (rg_pids r)\<rparr>))"
    using unregisters [OF search_none [of r p w i]] by (simp add: replace_absent)
  from runs_one [of registry_step, OF this] show ?case by (metis replicate_Suc replicate_0)
next
  case (Suc n)
  then have i: "i < MAX_NUMBER_OF_CONNECTIONS" by simp
  show ?case
  proof (cases "rg_pids r ! i = p")
    case True
    let ?r = "go_to p w (Clearing i) r"
    have a: "registry_step r (Unregisters p) ?r" by (rule unregisters, rule search_found) (use Suc i True in simp_all)
    have "unregister_step p ?r (go_to p (w\<lparr>wk_place := Clearing i\<rparr>) Leaving (?r\<lparr>rg_pids := (rg_pids ?r)[i := 0]\<rparr>))"
      by (rule clear) simp_all
    moreover have "replace_first p 0 (rg_pids r) = (rg_pids r)[i := 0]"
      using Suc.prems i True by (intro replace_first_update) simp_all
    ultimately have b: "registry_step ?r (Unregisters p) (go_to p w Leaving
        (r\<lparr>rg_pids := replace_first p 0 (rg_pids r)\<rparr>))"
      by (simp add: unregisters)
    from runs_Cons [of registry_step, OF a runs_one [of registry_step, OF b]] show ?thesis
      by (metis replicate_Suc replicate_0)
  next
    case False
    let ?w = "w\<lparr>wk_place := Searching (i + 1)\<rparr>"
    have a: "registry_step r (Unregisters p) (put_worker p ?w r)"
      by (rule unregisters, rule search_other) (use Suc i False in simp_all)
    have "n = MAX_NUMBER_OF_CONNECTIONS - (i + 1)" using Suc.hyps(2) by simp
    from Suc.hyps(1) [OF this, of "put_worker p ?w r" ?w] obtain k where
      "runs registry_step (put_worker p ?w r) (replicate k (Unregisters p))
        (go_to p w Leaving (r\<lparr>rg_pids := replace_first p 0 (rg_pids r)\<rparr>))"
      using Suc.prems i False by (auto simp: take_Suc_nth_in)
    from runs_Cons [of registry_step, OF a this] show ?thesis by (metis replicate_Suc)
  qed
qed

lemma registers_alone:
  assumes "rg_workers r p = Some w" "wk_place w = Looking 0" "length (rg_pids r) = MAX_NUMBER_OF_CONNECTIONS"
  shows "\<exists>n s. runs registry_step r (replicate n (Registers p)) (put_worker p
    (w\<lparr>wk_slot := s, wk_place := Connecting\<rparr>) (r\<lparr>rg_pids := replace_first 0 p (rg_pids r)\<rparr>))"
  by (rule registers_from [OF assms]) simp_all

lemma unregisters_alone:
  assumes "rg_workers r p = Some w" "wk_place w = Searching 0" "length (rg_pids r) = MAX_NUMBER_OF_CONNECTIONS"
  shows "\<exists>n. runs registry_step r (replicate n (Unregisters p))
    (go_to p w Leaving (r\<lparr>rg_pids := replace_first p 0 (rg_pids r)\<rparr>))"
  by (rule unregisters_from [OF assms]) simp_all

text \<open>
  What the sequential model of a worker does to the process table in one piece, registering and
  giving the entry back, is a run of the interleaved steps in which only this worker moves.
\<close>

lemma table_loops_refined:
  assumes "rg_workers r (pr_pid q) = Some w" "rg_pids r = cfg_pids (pr_config q)"
    "length (rg_pids r) = MAX_NUMBER_OF_CONNECTIONS"
  shows "wk_place w = Looking 0 \<Longrightarrow> \<exists>n r'. runs registry_step r (replicate n (Registers (pr_pid q))) r' \<and>
      rg_pids r' = cfg_pids (pr_config (set_pids (replace_first 0 (pr_pid q)) q)) \<and> rg_active r' = rg_active r"
    and "wk_place w = Searching 0 \<Longrightarrow> \<exists>n r'. runs registry_step r (replicate n (Unregisters (pr_pid q))) r' \<and>
      rg_pids r' = cfg_pids (pr_config (set_pids (replace_first (pr_pid q) 0) q)) \<and>
      rg_active r' = rg_active r - (if wk_connected w then 1 else 0) \<and> rg_workers r' (pr_pid q) = None"
proof -
  assume "wk_place w = Looking 0"
  from registers_alone [OF assms(1) this assms(3)] show "\<exists>n r'. runs registry_step r (replicate n (Registers (pr_pid q))) r' \<and>
      rg_pids r' = cfg_pids (pr_config (set_pids (replace_first 0 (pr_pid q)) q)) \<and> rg_active r' = rg_active r"
    using assms(2) by (fastforce simp: set_pids_def)
next
  assume "wk_place w = Searching 0"
  from unregisters_alone [OF assms(1) this assms(3)] obtain n where
    n: "runs registry_step r (replicate n (Unregisters (pr_pid q)))
      (go_to (pr_pid q) w Leaving (r\<lparr>rg_pids := replace_first (pr_pid q) 0 (rg_pids r)\<rparr>))" (is "runs _ _ _ ?r") by blast
  have "registry_step ?r (Unregisters (pr_pid q)) (?r\<lparr>rg_workers := (rg_workers ?r)(pr_pid q := None),
      rg_active := rg_active ?r - (if wk_connected w then 1 else 0)\<rparr>)" (is "registry_step _ _ ?r'")
    using unregisters [OF leave [of ?r "pr_pid q" "w\<lparr>wk_place := Leaving\<rparr>"]] by simp
  from runs_append [OF n runs_one [of registry_step, OF this]] have
    "runs registry_step r (replicate (Suc n) (Unregisters (pr_pid q))) ?r'"
    by (simp add: replicate_append_same)
  then show "\<exists>n r'. runs registry_step r (replicate n (Unregisters (pr_pid q))) r' \<and>
      rg_pids r' = cfg_pids (pr_config (set_pids (replace_first (pr_pid q) 0) q)) \<and>
      rg_active r' = rg_active r - (if wk_connected w then 1 else 0) \<and> rg_workers r' (pr_pid q) = None"
    using assms(2) by (fastforce simp: set_pids_def)
qed

section \<open>What main can rely on\<close>

lemma distinct_filter_nth:
  "(\<And>i j. i < length xs \<Longrightarrow> j < length xs \<Longrightarrow> P (xs ! i) \<Longrightarrow> xs ! i = xs ! j \<Longrightarrow> i = j) \<Longrightarrow> distinct (filter P xs)"
proof (induction xs)
  case (Cons x xs)
  have "x \<notin> set xs" if "P x"
    using Cons.prems [of 0 "Suc i" for i] that by (force simp: in_set_conv_nth)
  moreover have "distinct (filter P xs)"
    using Cons.prems [of "Suc i" "Suc j" for i j] by (intro Cons.IH) auto
  ultimately show ?case by simp
qed simp

text \<open>The entries that are not 0, in the order of the table: those whom the shutdown signals.\<close>

lemma table_distinct:
  assumes "table_inv r"
  shows "distinct (filter (\<lambda>pid. pid \<noteq> 0) (rg_pids r))"
    "set (filter (\<lambda>pid. pid \<noteq> 0) (rg_pids r)) \<subseteq> dom (rg_workers r)"
proof -
  have entry: "\<exists>w. rg_workers r (rg_pids r ! i) = Some w \<and> wk_slot w = Some i"
    if "i < length (rg_pids r)" "rg_pids r ! i \<noteq> 0" for i
    using assms that by (fastforce simp: table_inv_def has_entry_def)
  show "distinct (filter (\<lambda>pid. pid \<noteq> 0) (rg_pids r))"
    by (rule distinct_filter_nth) (metis entry option.inject)
  show "set (filter (\<lambda>pid. pid \<noteq> 0) (rg_pids r)) \<subseteq> dom (rg_workers r)"
    using entry by (fastforce simp: in_set_conv_nth)
qed

lemma placed_in_table:
  assumes inv: "place_inv r" and "rg_workers r p = Some w" "wk_slot w \<noteq> None" "wk_place w \<noteq> Leaving"
  shows "p \<in> set (filter (\<lambda>pid. pid \<noteq> 0) (rg_pids r))"
proof -
  from inv have "length (rg_pids r) = MAX_NUMBER_OF_CONNECTIONS" "p \<noteq> 0"
    using table_invD(2) assms(2) by (auto simp: place_inv_def table_inv_def)
  moreover obtain i where "i < MAX_NUMBER_OF_CONNECTIONS" "rg_pids r ! i = p"
    using inv assms(2-4) unfolding place_inv_def placed_def by blast
  ultimately show ?thesis by auto
qed

text \<open>
  C9. However \<open>main\<close> and any number of workers interleave, as long as each worker runs to its end: the
  number of active connections is that of the workers in a session (modulo its 16 bits), and those
  whom the shutdown signals, the entries of the table that are not 0, are workers that still live, each
  once.
\<close>

theorem registry_consistent:
  assumes "registry_start r0" "runs registry_step r0 es r" "\<forall>e \<in> set es. nobody_lost e"
  shows "rg_active r = of_nat (card {p. \<exists>w. rg_workers r p = Some w \<and> wk_connected w}) \<and>
    distinct (filter (\<lambda>pid. pid \<noteq> 0) (rg_pids r)) \<and>
    set (filter (\<lambda>pid. pid \<noteq> 0) (rg_pids r)) \<subseteq> dom (rg_workers r)"
proof -
  from registry_machine.runs_from_initial [OF assms(2,1,3)] have tab: "table_inv r" and count: "count_inv r"
    by (simp_all add: registry_inv_def)
  with table_distinct [OF tab] show ?thesis by (simp add: count_inv_def in_session_def)
qed

text \<open>
  As long as no two workers look at the same free entry before one of them has written to it, every
  worker that has found an entry is in the table until it gives it back, so that the shutdown reaches
  it.
\<close>

theorem quiet_registration:
  assumes "registry_start r0" "runs quiet_step r0 es r" "\<forall>e \<in> set es. nobody_lost e"
    and "rg_workers r p = Some w" "wk_slot w \<noteq> None" "wk_place w \<noteq> Leaving"
  shows "p \<in> set (filter (\<lambda>pid. pid \<noteq> 0) (rg_pids r))"
  by (rule placed_in_table [OF place_machine.runs_from_initial [OF assms(2,1,3)] assms(4-6)])

text \<open>
  Whatever happens, also when workers are lost, no two workers that live share a counter, unless it
  is the one behind the last that the statistics print; every other number given lies below the
  number of clients that \<open>main\<close> passes to them.
\<close>

theorem counters_unshared:
  assumes "registry_start r0" "runs registry_step r0 es r"
    and "rg_workers r p = Some w" "rg_workers r q = Some v" "p \<noteq> q"
  shows "wk_number w \<noteq> wk_number v \<or> wk_number w = MAX_NUMBER_OF_COUNTERS \<and> rg_next r = MAX_NUMBER_OF_COUNTERS"
proof -
  from number_machine.runs_from_initial [OF assms(2,1)] have inv: "number_inv r" by simp
  then have "wk_number w \<noteq> wk_number v \<or> \<not> wk_number w < MAX_NUMBER_OF_COUNTERS"
    using assms(3-5) unfolding number_inv_def by blast
  moreover have "wk_number w \<le> rg_next r" "rg_next r \<le> MAX_NUMBER_OF_COUNTERS"
    using inv assms(3) unfolding number_inv_def by blast+
  ultimately show ?thesis by linarith
qed

section \<open>What main cannot rely on\<close>

text \<open>For the concrete runs: the shared memory as \<open>main\<close> leaves it, and a worker in its session.\<close>

definition registry_0 :: registry where
  "registry_0 = \<lparr>rg_pids = cfg_pids zero_configuration, rg_active = 0, rg_workers = Map.empty, rg_passed = False, rg_next = 0\<rparr>"

definition serving :: "nat \<Rightarrow> nat option \<Rightarrow> client_worker" where
  "serving n s = \<lparr>wk_place = Serving, wk_number = n, wk_connected = True, wk_slot = s\<rparr>"

lemma registry_0_start: "registry_start registry_0"
  by (simp add: registry_start_def registry_0_def zero_configuration_def)

lemma zero_pids: "cfg_pids zero_configuration = replicate MAX_NUMBER_OF_CONNECTIONS 0"
  "0 < MAX_NUMBER_OF_CONNECTIONS" "0 < MAX_NUMBER_OF_COUNTERS"
  "Suc 0 < MAX_NUMBER_OF_COUNTERS"
  by (simp_all add: zero_configuration_def MAX_NUMBER_OF_CONNECTIONS_def MAX_NUMBER_OF_COUNTERS_def)

text \<open>One step at a time: an event that is possible, and the run behind it.\<close>

lemma runs_registers: "register_step p r r' \<Longrightarrow> runs registry_step r' es t \<Longrightarrow> runs registry_step r (Registers p # es) t"
  by (blast intro: runs_Cons registers)

lemma runs_serves: "session_part p r r' \<Longrightarrow> runs registry_step r' es t \<Longrightarrow> runs registry_step r (Serves p # es) t"
  by (blast intro: runs_Cons serves)

lemma runs_accepts: "accept_step p r r' \<Longrightarrow> runs registry_step r' es t \<Longrightarrow> runs registry_step r (Accepts p # es) t"
  by (blast intro: runs_Cons accepts)

definition race_events :: "registry_event list" where
  "race_events = [Accepts Passes_limit, Accepts (Forks (Some 1)), Accepts Passes_limit, Accepts (Forks (Some 2)),
     Registers 1, Registers 2, Registers 1, Registers 2,
     Serves 1, Serves 2]"

definition race_end :: registry where
  "race_end = \<lparr>rg_pids = (replicate MAX_NUMBER_OF_CONNECTIONS 0)[0 := 2], rg_active = 2,
     rg_workers = [1 \<mapsto> serving 0 (Some 0), 2 \<mapsto> serving 1 (Some 0)], rg_passed = False, rg_next = 2\<rparr>"

lemma race_runs: "runs registry_step registry_0 race_events race_end"
  unfolding race_events_def
  apply (rule runs_accepts, rule passes_limit, simp_all add: registry_0_def)
  apply (rule runs_accepts, rule forked, simp_all add: next_number_def zero_pids)
  apply (rule runs_accepts, rule passes_limit, simp_all)
  apply (rule runs_accepts, rule forked, simp_all add: next_number_def new_worker_def zero_pids)
  apply (rule runs_registers, rule look_free [where i = 0], simp, simp_all add: zero_pids)
  apply (rule runs_registers, rule look_free [where i = 0], simp, simp_all add: zero_pids)
  apply (rule runs_registers, rule claim [where i = 0], simp, simp_all)
  apply (rule runs_registers, rule claim [where i = 0], simp, simp_all)
  apply (rule runs_serves, rule connected, simp, simp_all)
  apply (rule runs_serves, rule connected, simp, simp_all)
  apply (simp add: race_end_def serving_def runs_Nil numeral_2_eq_2)
  done

lemma Cons_replicate_update: "0 < n \<Longrightarrow> (replicate n x)[0 := y] = y # replicate (n - 1) x"
  by (cases n) simp_all

text \<open>
  C30. A race on the table: two workers that see the same free entry both write to it. Then both serve
  their clients, but only one of them is in the table, and the shutdown does not signal the other.
\<close>

theorem registration_race:
  "\<exists>es r. runs registry_step registry_0 es r \<and> list_all nobody_lost es \<and>
    (\<exists>w v. rg_workers r 1 = Some w \<and> rg_workers r 2 = Some v \<and>
       wk_place w = Serving \<and> wk_place v = Serving \<and> wk_slot w = wk_slot v) \<and>
    rg_active r = 2 \<and> filter (\<lambda>pid. pid \<noteq> 0) (rg_pids r) = [2]"
proof -
  have "filter (\<lambda>pid. pid \<noteq> 0) ((replicate MAX_NUMBER_OF_CONNECTIONS 0)[0 := 2]) = [2 :: i32]"
    by (simp add: Cons_replicate_update [OF zero_pids(2)])
  then show ?thesis using race_runs
    by (intro exI [of _ race_events] exI [of _ race_end])
      (simp add: race_events_def race_end_def serving_def nobody_lost_def)
qed

lemma fork_one:
  assumes "\<not> rg_passed r" "unat (rg_active r) \<le> MAX_NUMBER_OF_CONNECTIONS" "p \<noteq> 0" "rg_workers r p = None"
    "runs registry_step (put_worker p (new_worker (rg_next r)) (r\<lparr>rg_next := next_number r\<rparr>)) es t"
  shows "runs registry_step r (Accepts Passes_limit # Accepts (Forks (Some p)) # es) t"
proof -
  have "accept_step (Forks (Some p)) (r\<lparr>rg_passed := True\<rparr>)
      (put_worker p (new_worker (rg_next r)) (r\<lparr>rg_next := next_number r\<rparr>))"
    using forked [of "r\<lparr>rg_passed := True\<rparr>" p] assms(1,3,4) by (cases r) (simp add: next_number_def cong: if_cong)
  from runs_accepts [OF passes_limit runs_accepts [OF this assms(5)]] assms(1,2) show ?thesis by simp
qed

definition accepting :: "i32 list \<Rightarrow> registry_event list" where
  "accepting ps = concat (map (\<lambda>p. [Accepts Passes_limit, Accepts (Forks (Some p))]) ps)"

lemma accepting_lost: "\<forall>e \<in> set (accepting ps). nobody_lost e"
  by (auto simp: accepting_def nobody_lost_def)

lemma fork_all:
  assumes "distinct ps" "0 \<notin> set ps" "unat (rg_active r) \<le> MAX_NUMBER_OF_CONNECTIONS" "\<not> rg_passed r"
    "\<forall>p \<in> set ps. rg_workers r p = None"
  shows "\<exists>r'. runs registry_step r (accepting ps) r' \<and> rg_pids r' = rg_pids r \<and>
    rg_active r' = rg_active r \<and> (\<forall>p \<in> set ps. \<exists>n. rg_workers r' p = Some (new_worker n)) \<and>
    (\<forall>q. q \<notin> set ps \<longrightarrow> rg_workers r' q = rg_workers r q)"
  using assms
proof (induction ps arbitrary: r)
  case Nil
  then show ?case by (auto simp: accepting_def intro: runs_Nil)
next
  case (Cons p ps)
  let ?r = "put_worker p (new_worker (rg_next r)) (r\<lparr>rg_next := next_number r\<rparr>)"
  have "\<forall>q \<in> set ps. rg_workers ?r q = None" using Cons.prems by auto
  with Cons.IH [of ?r] Cons.prems obtain r' where
    r': "runs registry_step ?r (accepting ps) r'" "rg_pids r' = rg_pids r" "rg_active r' = rg_active r"
      "\<forall>p \<in> set ps. \<exists>n. rg_workers r' p = Some (new_worker n)" "\<forall>q. q \<notin> set ps \<longrightarrow> rg_workers r' q = rg_workers ?r q"
    by auto
  then have "rg_workers r' p = Some (new_worker (rg_next r))" using Cons.prems(1) by simp
  moreover have "runs registry_step r (accepting (p # ps)) r'"
    using fork_one [OF _ _ _ _ r'(1)] Cons.prems by (simp add: accepting_def)
  ultimately show ?case using r' by (intro exI [of _ r']) auto
qed

lemma serve_all:
  assumes "distinct ps" "length (rg_pids r) = MAX_NUMBER_OF_CONNECTIONS"
    "\<forall>p \<in> set ps. \<exists>n. rg_workers r p = Some (new_worker n)"
  shows "\<exists>es r'. runs registry_step r es r' \<and> (\<forall>e \<in> set es. nobody_lost e) \<and>
    rg_active r' = rg_active r + of_nat (length ps) \<and>
    (\<forall>p \<in> set ps. \<exists>w. rg_workers r' p = Some w \<and> wk_place w = Serving) \<and>
    (\<forall>q. q \<notin> set ps \<longrightarrow> rg_workers r' q = rg_workers r q)"
  using assms
proof (induction ps arbitrary: r)
  case Nil
  show ?case by (intro exI [of _ "[]"] exI [of _ r]) (simp add: runs_Nil)
next
  case (Cons p ps)
  then obtain m where w: "rg_workers r p = Some (new_worker m)" by auto
  obtain n s where reg: "runs registry_step r (replicate n (Registers p)) (put_worker p
      ((new_worker m)\<lparr>wk_slot := s, wk_place := Connecting\<rparr>) (r\<lparr>rg_pids := replace_first 0 p (rg_pids r)\<rparr>))"
      (is "runs _ _ _ ?a")
    using registers_alone [OF w _ Cons.prems(2)] by (auto simp: new_worker_def)
  let ?w = "(new_worker m)\<lparr>wk_slot := s, wk_connected := True, wk_place := Serving\<rparr>"
  let ?b = "put_worker p ?w (r\<lparr>rg_pids := replace_first 0 p (rg_pids r), rg_active := rg_active r + 1\<rparr>)"
  have "session_part p ?a (go_to p (((new_worker m)\<lparr>wk_slot := s, wk_place := Connecting\<rparr>)\<lparr>wk_connected := True\<rparr>)
      Serving (?a\<lparr>rg_active := rg_active ?a + 1\<rparr>))"
    by (rule connected) simp_all
  then have "registry_step ?a (Serves p) ?b" by (intro serves) simp
  from runs_append [OF reg runs_one [of registry_step, OF this]]
  have one: "runs registry_step r (replicate n (Registers p) @ [Serves p]) ?b" .
  have "length (rg_pids ?b) = MAX_NUMBER_OF_CONNECTIONS"
    using Cons.prems(2) by simp
  moreover have "\<forall>q \<in> set ps. \<exists>n. rg_workers ?b q = Some (new_worker n)" using Cons.prems by auto
  ultimately obtain es r' where
    r': "runs registry_step ?b es r'" "\<forall>e \<in> set es. nobody_lost e"
      "rg_active r' = rg_active ?b + of_nat (length ps)"
      "\<forall>p \<in> set ps. \<exists>w. rg_workers r' p = Some w \<and> wk_place w = Serving"
      "\<forall>q. q \<notin> set ps \<longrightarrow> rg_workers r' q = rg_workers ?b q"
    using Cons.IH [of ?b] Cons.prems(1) by auto
  then have "rg_workers r' p = Some ?w" using Cons.prems(1) by simp
  with r' runs_append [OF one r'(1)] show ?case
    by (intro exI [of _ "(replicate n (Registers p) @ [Serves p]) @ es"] exI [of _ r']) (auto simp: nobody_lost_def)
qed

text \<open>
  C31. The limit of \<open>accept_cb\<close> does not limit anything: the number it tests grows only when a worker has
  connected to the server. However many clients come before that, each is accepted and served, also
  when the number itself has wrapped around.
\<close>

theorem limit_not_enforced:
  assumes "distinct ps" "0 \<notin> set ps"
  shows "\<exists>es r. runs registry_step registry_0 es r \<and> (\<forall>e \<in> set es. nobody_lost e) \<and>
    (\<forall>p \<in> set ps. \<exists>w. rg_workers r p = Some w \<and> wk_place w = Serving) \<and> rg_active r = of_nat (length ps)"
proof -
  have "\<exists>r'. runs registry_step registry_0 (accepting ps) r' \<and> rg_pids r' = rg_pids registry_0 \<and>
    rg_active r' = rg_active registry_0 \<and> (\<forall>p \<in> set ps. \<exists>n. rg_workers r' p = Some (new_worker n)) \<and>
    (\<forall>q. q \<notin> set ps \<longrightarrow> rg_workers r' q = rg_workers registry_0 q)"
    by (rule fork_all [OF assms]) (simp_all add: registry_0_def)
  then obtain r where r: "runs registry_step registry_0 (accepting ps) r"
      "rg_pids r = rg_pids registry_0" "rg_active r = 0" "\<forall>p \<in> set ps. \<exists>n. rg_workers r p = Some (new_worker n)"
    by (auto simp: registry_0_def)
  have "length (rg_pids r) = MAX_NUMBER_OF_CONNECTIONS" by (simp add: r(2) registry_0_def zero_pids)
  from serve_all [OF assms(1) this r(4)] r(3) obtain es r' where
    "runs registry_step r es r'" "\<forall>e \<in> set es. nobody_lost e" "rg_active r' = of_nat (length ps)"
    "\<forall>p \<in> set ps. \<exists>w. rg_workers r' p = Some w \<and> wk_place w = Serving" by auto
  with runs_append [OF r(1)] show ?thesis
    by (intro exI [of _ "accepting ps @ es"] exI [of _ r']) (auto dest: accepting_lost [THEN bspec])
qed

section \<open>The callback of main as a part of the interleaving\<close>

text \<open>\<open>main\<close> is before the check of the limit, and sees in the shared memory what the workers see.\<close>

definition table_of :: "'w proc \<Rightarrow> i32 list \<times> 16 word" where
  "table_of p = (cfg_pids (pr_config p), cfg_active_connections (pr_config p))"

definition agrees :: "'w main \<Rightarrow> registry \<Rightarrow> bool" where
  "agrees m r \<longleftrightarrow> table_of (mn_proc m) = (rg_pids r, rg_active r) \<and> mn_client_number m = rg_next r \<and> \<not> rg_passed r"

lemma call_table: "call f p = (x, q) \<Longrightarrow> table_of q = table_of p"
  by (erule call_cases) (simp_all add: table_of_def)

lemma disconnect_table: "table_of (snd (disconnect net fd p)) = table_of p"
  by (auto simp: disconnect_def split: option.split prod.split dest: call_table)

lemma say_table: "say item p = Returned q \<Longrightarrow> table_of q = table_of p"
  by (auto simp: say_def log_to_def lock_log_def unlock_log_def log_lock_def log_unlock_def table_of_def
      and_then_Returned_iff split: option.splits)

lemma count_client_next:
  assumes "count_client m = Returned m'" "table_of (mn_proc m) = (rg_pids r, rg_active r)" "mn_client_number m = rg_next r"
  shows "table_of (mn_proc m') = (rg_pids r, rg_active r) \<and> mn_client_number m' = next_number r"
  using assms
  by (auto simp: count_client_def next_number_def and_then_Returned_iff split: if_splits dest!: say_table)

text \<open>
  The steps that belong to one call, by what \<open>accept\<close> and \<open>fork\<close> give: none behind an error of the watcher
  or beyond the limit, and otherwise the check of the limit and what comes of the client.
\<close>

definition accept_moves :: "'w net \<Rightarrow> 'w host \<Rightarrow> i32 \<Rightarrow> bool \<Rightarrow> 'w main \<Rightarrow> accept_move list" where
  "accept_moves net host fd ev_error m =
     (if ev_error \<or> MAX_NUMBER_OF_CONNECTIONS < unat (cfg_active_connections (pr_config (mn_proc m))) then []
      else case call (net_accept net fd) (mn_proc m) of
        (None, p) \<Rightarrow> [Passes_limit, No_client]
      | (Some client_fd, p) \<Rightarrow> [Passes_limit, Forks (fst (call (host_fork host) p))])"

text \<open>
  C33. What the sequential model of \<open>accept_cb\<close> does in the process of \<open>main\<close> is a run of the interleaved
  steps of \<open>main\<close> alone, those that belong to what \<open>accept\<close> and \<open>fork\<close> gave: both check the same limit,
  start the same worker, with the number of \<open>main\<close> at the call, and count the same clients, provided
  that \<open>fork\<close> gives no process id that a living worker has.
\<close>

theorem accept_refined:
  assumes "accept_cb os net host ev poll fuel fd ev_error m = Returned m'" "agrees m r"
    "\<And>w pid. fst (host_fork host w) = Inr pid \<Longrightarrow> pid \<noteq> 0 \<Longrightarrow> rg_workers r pid = None"
  shows "\<exists>r'. runs registry_step r (map Accepts (accept_moves net host fd ev_error m)) r' \<and> agrees m' r' \<and>
    (\<forall>pid. Forks (Some pid) \<in> set (accept_moves net host fd ev_error m) \<longrightarrow>
      rg_workers r' = (rg_workers r)(pid \<mapsto> new_worker (mn_client_number m)))"
  using assms(1)
proof (cases rule: accept_cases)
  case refused
  then show ?thesis using assms(2) by (intro exI [of _ r]) (simp add: accept_moves_def runs_Nil)
next
  case (no_client p)
  then have "runs registry_step r [Accepts Passes_limit, Accepts No_client] r"
    using runs_accepts [OF passes_limit runs_accepts [OF accept_step.no_client runs_Nil], of r] assms(2)
    by (cases r) (simp add: agrees_def table_of_def)
  moreover have "agrees m' r" using assms(2) no_client(3) call_table [OF no_client(2)] by (simp add: agrees_def)
  moreover have "accept_moves net host fd ev_error m = [Passes_limit, No_client]"
    using no_client by (simp add: accept_moves_def)
  ultimately show ?thesis by (intro exI [of _ r]) simp
next
  case (client c p y q m1)
  let ?r = "r\<lparr>rg_passed := True\<rparr>"
  have same: "table_of (mn_proc m) = (rg_pids r, rg_active r)" "mn_client_number m = rg_next r" "\<not> rg_passed r"
    using assms(2) by (simp_all add: agrees_def)
  obtain r' where f: "accept_step (Forks y) ?r r'"
      "(rg_pids r', rg_active r') = (rg_pids r, rg_active r)" "rg_next r' = next_number r" "\<not> rg_passed r'"
      "\<And>pid. y = Some pid \<Longrightarrow> rg_workers r' = (rg_workers r)(pid \<mapsto> new_worker (rg_next r))"
  proof (cases y)
    case None
    show ?thesis by (rule that [unfolded None, OF not_forked]) (simp_all add: next_number_def)
  next
    case (Some pid)
    then have "rg_workers ?r pid = None" "pid \<noteq> 0"
      using client(3,4) assms(3) by (auto elim!: call_cases) (metis fst_conv)
    then show ?thesis by (intro that [unfolded Some, OF forked]) (simp_all add: next_number_def)
  qed
  have moves: "accept_moves net host fd ev_error m = [Passes_limit, Forks y]"
    using client(1-3,7) by (simp add: accept_moves_def)
  have "runs registry_step r (map Accepts [Passes_limit, Forks y]) r'"
    using runs_accepts [OF passes_limit runs_accepts [OF f(1) runs_Nil]] client(1) same by (simp add: table_of_def)
  moreover have "agrees m' r'"
    using count_client_next [OF client(5), of r] client(6) f(2-4) same call_table [OF client(2)] call_table [OF client(3)]
    by (simp add: agrees_def disconnect_table)
  ultimately show ?thesis using f(5) same(2) unfolding moves by (intro exI [of _ r']) auto
qed

theorem accept_refined_witness:
  "\<exists>r' m'. accept_cb (host_os wire_os) host_net demo_host demo_ev client_poll 9 3 False demo_main = Returned m' \<and>
    runs registry_step registry_0 (map Accepts (accept_moves host_net demo_host 3 False demo_main)) r' \<and> agrees m' r'"
proof -
  from demo_accept obtain m' where
    m': "accept_cb (host_os wire_os) host_net demo_host demo_ev client_poll 9 3 False demo_main = Returned m'" by blast
  have "agrees demo_main registry_0"
    by (simp add: agrees_def table_of_def registry_0_def demo_main_def demo_configuration_def zero_configuration_def)
  from accept_refined [OF m' this] m' show ?thesis by (auto simp: registry_0_def)
qed

section \<open>A whole worker as a part of the interleaving\<close>

text \<open>
  The steps of a worker that nobody disturbs, which looks at \<open>a\<close> entries to register and at \<open>b\<close> to give its
  entry back. \<open>connects\<close> is whether it reaches its server, and \<open>exits\<close> whether its session is ended by \<open>exit\<close>.
\<close>

definition worker_events :: "i32 \<Rightarrow> bool \<Rightarrow> bool \<Rightarrow> nat \<Rightarrow> nat \<Rightarrow> registry_event list" where
  "worker_events p connects exits a b = replicate a (Registers p) @
     (if connects then [Serves p] else []) @
     (if exits then [Lost p] else Serves p # replicate b (Unregisters p))"

lemma worker_registers:
  assumes "rg_workers r p = Some (new_worker n)" "length (rg_pids r) = MAX_NUMBER_OF_CONNECTIONS"
  shows "\<exists>a w. wk_place w = Connecting \<and> \<not> wk_connected w \<and> runs registry_step r (replicate a (Registers p))
    (put_worker p w (r\<lparr>rg_pids := replace_first 0 p (rg_pids r)\<rparr>))"
proof -
  obtain a s where "runs registry_step r (replicate a (Registers p)) (put_worker p
      ((new_worker n)\<lparr>wk_slot := s, wk_place := Connecting\<rparr>) (r\<lparr>rg_pids := replace_first 0 p (rg_pids r)\<rparr>))"
    using registers_alone [OF assms(1) _ assms(2)] by (auto simp: new_worker_def)
  then show ?thesis
    by (intro exI [of _ a] exI [of _ "(new_worker n)\<lparr>wk_slot := s, wk_place := Connecting\<rparr>"]) (simp add: new_worker_def)
qed

lemma worker_connects:
  assumes "rg_workers r p = Some w" "wk_place w = Connecting"
  shows "registry_step r (Serves p)
    (put_worker p (w\<lparr>wk_connected := True, wk_place := Serving\<rparr>) (r\<lparr>rg_active := rg_active r + 1\<rparr>))"
  using serves [OF connected [OF assms]] by simp

lemma worker_leaves:
  assumes "rg_workers r p = Some w" "wk_place w = (if wk_connected w then Serving else Connecting)"
    "length (rg_pids r) = MAX_NUMBER_OF_CONNECTIONS"
  shows "\<exists>b. runs registry_step r (Serves p # replicate b (Unregisters p)) (r\<lparr>rg_pids := replace_first p 0 (rg_pids r),
    rg_workers := (rg_workers r)(p := None), rg_active := rg_active r - (if wk_connected w then 1 else 0)\<rparr>)"
proof -
  let ?a = "go_to p w (Searching 0) r" and ?w = "w\<lparr>wk_place := Leaving\<rparr>"
  have a: "registry_step r (Serves p) ?a"
    using assms(1,2) by (cases "wk_connected w") (auto intro: serves session_over not_connected)
  obtain k where k: "runs registry_step ?a (replicate k (Unregisters p))
      (put_worker p ?w (r\<lparr>rg_pids := replace_first p 0 (rg_pids r)\<rparr>))" (is "runs _ _ _ ?b")
    using unregisters_alone [of ?a p "w\<lparr>wk_place := Searching 0\<rparr>"] assms(3) by auto
  have "registry_step ?b (Unregisters p) (r\<lparr>rg_pids := replace_first p 0 (rg_pids r),
      rg_workers := (rg_workers r)(p := None), rg_active := rg_active r - (if wk_connected w then 1 else 0)\<rparr>)"
    using unregisters [OF leave [of ?b p ?w]] by simp
  from runs_Cons [of registry_step, OF a runs_append [OF k runs_one [of registry_step, OF this]]] show ?thesis
    by (intro exI [of _ "Suc k"]) (simp add: replicate_append_same)
qed

text \<open>
  C34. What the sequential model of a whole worker does to the shared memory, from its start to the end
  of its process, is a run of the interleaved steps of this worker alone: it registers, connects if
  the model has connected, and gives back its entry and its part of the active connections, unless
  the model has exited in the middle of the session, and only then the worker is lost.
\<close>

theorem worker_refined:
  assumes "kernel_ok os sent rcvd" "\<forall>a w w'. net_socket net a w \<noteq> (Inr client_fd, w')"
    "0 \<le> sint (cfg_buffer_size (pr_config p))" "sint (cfg_buffer_size (pr_config p)) \<le> 65535"
    "mem_data (io_memory p) = None" "pr_pid p \<notin> set (cfg_pids (pr_config p))"
    "worker os net ev poll fuel client_fd client_number p = Exited c q"
    "table_of p = (rg_pids r, rg_active r)" "length (rg_pids r) = MAX_NUMBER_OF_CONNECTIONS"
    "rg_workers r (pr_pid p) = Some (new_worker n)"
  shows "\<exists>a b r'. runs registry_step r (worker_events (pr_pid p)
      (\<exists>server_fd s. session_begins os net client_fd p 0 server_fd s)
      (session_exits os net ev poll fuel client_fd client_number p c q) a b) r' \<and>
    table_of q = (rg_pids r', rg_active r') \<and> rg_workers r' = (rg_workers r)(pr_pid p := None)"
proof -
  let ?p = "pr_pid p"
  define begins where "begins \<longleftrightarrow> (\<exists>server_fd s. session_begins os net client_fd p 0 server_fd s)"
  let ?exits = "session_exits os net ev poll fuel client_fd client_number p c q"
  let ?r = "r\<lparr>rg_pids := replace_first 0 ?p (rg_pids r)\<rparr>"
  have p: "cfg_pids (pr_config p) = rg_pids r" "cfg_active_connections (pr_config p) = rg_active r"
    using assms(8) by (simp_all add: table_of_def)
  note accounts = worker_accounts [OF assms(1-7)]
  obtain a w where a: "wk_place w = Connecting" "\<not> wk_connected w"
      "runs registry_step r (replicate a (Registers ?p)) (put_worker ?p w ?r)"
    using worker_registers [OF assms(10,9)] by blast
  obtain v where v: "wk_connected v = begins" "wk_place v = (if begins then Serving else Connecting)"
      "runs registry_step r (replicate a (Registers ?p) @ (if begins then [Serves ?p] else []))
        (put_worker ?p v (?r\<lparr>rg_active := rg_active r + (if begins then 1 else 0)\<rparr>))" (is "runs _ _ _ ?s")
  proof (cases begins)
    case True
    show ?thesis
      by (rule that [of "w\<lparr>wk_connected := True, wk_place := Serving\<rparr>"])
        (use True runs_append [OF a(3) runs_one [of registry_step, OF worker_connects [of "put_worker ?p w ?r" ?p w]]] a(1)
          in simp_all)
  qed (use a that [of w] in simp)
  show ?thesis
  proof (cases ?exits)
    case True
    then have begins by (auto simp: session_exits_def begins_def)
    have "registry_step ?s (Lost ?p) (?s\<lparr>rg_workers := (rg_workers ?s)(?p := None)\<rparr>)"
      using lost [of ?s ?p v] by simp
    from runs_append [OF v(3) runs_one [of registry_step, OF this]] True \<open>begins\<close> accounts p show ?thesis
      unfolding begins_def [symmetric]
      by (intro exI [of _ a] exI [of _ "0 :: nat"]
          exI [of _ "?s\<lparr>rg_workers := (rg_workers ?s)(?p := None)\<rparr>"])
        (simp add: worker_events_def still_counted_def table_of_def)
  next
    case False
    obtain b where b: "runs registry_step ?s (Serves ?p # replicate b (Unregisters ?p))
        (?s\<lparr>rg_pids := replace_first ?p 0 (rg_pids ?s), rg_workers := (rg_workers ?s)(?p := None),
          rg_active := rg_active ?s - (if wk_connected v then 1 else 0)\<rparr>)" (is "runs _ _ _ ?t")
      using worker_leaves [of ?s ?p v] assms(9) v(1,2) by auto
    have "rg_pids ?t = rg_pids r" "rg_active ?t = rg_active r" "rg_workers ?t = (rg_workers r)(?p := None)"
      using assms(6) v(1) p by (simp_all add: replace_back)
    with runs_append [OF v(3) b] False accounts p show ?thesis
      unfolding begins_def [symmetric]
      by (intro exI [of _ a] exI [of _ b] exI [of _ ?t]) (simp add: worker_events_def given_back_def table_of_def)
  qed
qed

theorem worker_refined_witness:
  "\<exists>a b connects exits r' c q. worker (host_os wire_os) host_net demo_ev client_poll 20 9 0 fresh_worker = Exited c q \<and>
    runs registry_step (registry_0\<lparr>rg_workers := [pr_pid fresh_worker \<mapsto> new_worker 0]\<rparr>)
      (worker_events (pr_pid fresh_worker) connects exits a b) r' \<and>
    table_of q = (rg_pids r', rg_active r') \<and> rg_workers r' = Map.empty"
proof -
  let ?r = "registry_0\<lparr>rg_workers := [pr_pid fresh_worker \<mapsto> new_worker 0]\<rparr>"
  obtain q where q: "worker (host_os wire_os) host_net demo_ev client_poll 20 9 0 fresh_worker = Exited 2 q"
    using fresh_worker_exits by (auto split: outcome.splits)
  have net: "\<forall>a w w'. net_socket host_net a w \<noteq> (Inr 9, w')"
    by (auto simp: host_net_def host_new_def find_Some_iff split: option.splits)
  have p: "0 \<le> sint (cfg_buffer_size (pr_config fresh_worker))" "sint (cfg_buffer_size (pr_config fresh_worker)) \<le> 65535"
    "mem_data (io_memory fresh_worker) = None" "pr_pid fresh_worker \<notin> set (cfg_pids (pr_config fresh_worker))"
    "table_of fresh_worker = (rg_pids ?r, rg_active ?r)"
    by (simp_all add: fresh_worker_def host_proc_def proc_on_def io.defs demo_configuration_def table_of_def
        zero_configuration_def memory_destroy_def registry_0_def)
  have r: "length (rg_pids ?r) = MAX_NUMBER_OF_CONNECTIONS" "rg_workers ?r (pr_pid fresh_worker) = Some (new_worker 0)"
    by (simp_all add: registry_0_def zero_pids)
  from worker_refined [OF host_kernel_ok [OF wire_ok] net p(1-4) q p(5) r] obtain connects exits a b r' where
    "runs registry_step ?r (worker_events (pr_pid fresh_worker) connects exits a b) r'"
    "table_of q = (rg_pids r', rg_active r')" "rg_workers r' = (rg_workers ?r)(pr_pid fresh_worker := None)" by blast
  moreover from this(3) have "rg_workers r' = Map.empty" by (simp add: fun_eq_iff)
  ultimately show ?thesis using q by blast
qed

section \<open>The theorems at concrete runs\<close>

theorem registry_consistent_witness:
  "registry_start registry_0 \<and> runs registry_step registry_0 race_events race_end \<and> rg_active race_end = 2 \<and>
    rg_active race_end = of_nat (card {p. \<exists>w. rg_workers race_end p = Some w \<and> wk_connected w}) \<and>
    set (filter (\<lambda>pid. pid \<noteq> 0) (rg_pids race_end)) \<subseteq> dom (rg_workers race_end)"
proof -
  have "\<forall>e \<in> set race_events. nobody_lost e" by (simp add: race_events_def nobody_lost_def)
  from registry_consistent [OF registry_0_start race_runs this] registry_0_start race_runs show ?thesis
    by (simp add: race_end_def)
qed

theorem counters_unshared_witness:
  "runs registry_step registry_0 race_events race_end \<and> rg_workers race_end 1 \<noteq> None \<and> rg_workers race_end 2 \<noteq> None \<and>
    map_option wk_number (rg_workers race_end 1) \<noteq> map_option wk_number (rg_workers race_end 2)"
proof -
  have "rg_workers race_end 1 = Some (serving 0 (Some 0))" "rg_workers race_end 2 = Some (serving 1 (Some 0))"
    by (simp_all add: race_end_def)
  from counters_unshared [OF registry_0_start race_runs this] race_runs this show ?thesis
    by (simp add: serving_def MAX_NUMBER_OF_COUNTERS_def MAX_NUMBER_OF_CONNECTIONS_def)
qed

text \<open>One client, from its start to its session.\<close>

definition one_events :: "registry_event list" where
  "one_events = [Accepts Passes_limit, Accepts (Forks (Some 7)), Registers 7, Registers 7, Serves 7]"

definition one_end :: registry where
  "one_end = \<lparr>rg_pids = (replicate MAX_NUMBER_OF_CONNECTIONS 0)[0 := 7], rg_active = 1,
     rg_workers = [7 \<mapsto> serving 0 (Some 0)], rg_passed = False, rg_next = 1\<rparr>"

lemma quiet_single: "dom (rg_workers r) \<subseteq> {p} \<Longrightarrow> registry_step r e r' \<Longrightarrow> quiet_step r e r'"
  unfolding quiet_step_def contested_def by blast

lemma one_runs: "runs quiet_step registry_0 one_events one_end"
  unfolding one_events_def
  apply (rule runs_Cons, rule quiet_single [of _ 7], simp add: registry_0_def, rule accepts, rule passes_limit,
      simp_all add: registry_0_def)
  apply (rule runs_Cons, rule quiet_single [of _ 7], simp, rule accepts, rule forked,
      simp_all add: next_number_def new_worker_def zero_pids)
  apply (rule runs_Cons, rule quiet_single [of _ 7], simp, rule registers, rule look_free [where i = 0], simp, simp_all add: zero_pids)
  apply (rule runs_Cons, rule quiet_single [of _ 7], simp, rule registers, rule claim [where i = 0], simp, simp_all)
  apply (rule runs_Cons, rule quiet_single [of _ 7], simp, rule serves, rule connected, simp, simp_all)
  apply (simp add: one_end_def serving_def runs_Nil)
  done

theorem quiet_registration_witness:
  "runs quiet_step registry_0 one_events one_end \<and> 7 \<in> set (filter (\<lambda>pid. pid \<noteq> 0) (rg_pids one_end))"
proof -
  have "\<forall>e \<in> set one_events. nobody_lost e" by (simp add: one_events_def nobody_lost_def)
  from quiet_registration [OF registry_0_start one_runs this, of 7 "serving 0 (Some 0)"] one_runs show ?thesis
    by (simp add: one_end_def serving_def)
qed

theorem limit_not_enforced_witness:
  "\<exists>es r. runs registry_step registry_0 es r \<and> rg_active r = 2000 \<and> MAX_NUMBER_OF_CONNECTIONS < 2000 \<and>
    (\<forall>n \<in> {1..2000}. \<exists>w. rg_workers r (of_nat n) = Some w \<and> wk_place w = Serving)"
proof -
  let ?ps = "map of_nat [1..<2001] :: i32 list"
  have inj: "inj_on (of_nat :: nat \<Rightarrow> i32) {1..<2001}"
    by (rule inj_onI) (simp add: word_of_nat_eq_iff take_bit_nat_eq_self)
  have "distinct ?ps" using inj by (simp add: distinct_map)
  moreover have "0 \<notin> set ?ps"
  proof
    assume "0 \<in> set ?ps"
    then obtain n where "n < 2001" "1 \<le> n" "(of_nat n :: i32) = 0" by auto
    then show False by (auto simp: word_of_nat_eq_0_iff dest!: nat_dvd_not_less)
  qed
  ultimately obtain es r where "runs registry_step registry_0 es r" "rg_active r = of_nat (length ?ps)"
    "\<forall>p \<in> set ?ps. \<exists>w. rg_workers r p = Some w \<and> wk_place w = Serving"
    using limit_not_enforced by blast
  then show ?thesis by (intro exI [of _ es] exI [of _ r]) (auto simp: MAX_NUMBER_OF_CONNECTIONS_def)
qed

end
