(* ===== verification/Entries.thy ===== *)
theory Entries
  imports Process
begin

text \<open>
  The two files that the processes share: the log, guarded by the log lock, and the trace file,
  guarded by the semaphore of the shared memory. Any number of processes interleave at the steps of
  the lock and at every piece of text that reaches the file. The sequential model of the other
  theories, where one process runs alone, is what such a run amounts to.
\<close>

section \<open>Writing under a lock\<close>

text \<open>
  \<open>wr_rest s p\<close> is what process \<open>p\<close> has still to write of the text it began when it got the lock;
  the C library may hand it to the kernel in pieces of any size.
\<close>

record 'l writers =
  wr_lock :: 'l
  wr_rest :: "nat \<Rightarrow> ctext"
  wr_file :: ctext

datatype 'e writer_event = Begin 'e ctext | Write nat ctext | Lock 'e

text \<open>
  \<open>step\<close> is the lock; \<open>enters e\<close> and \<open>leaves e\<close> are the process that \<open>e\<close> lets past the lock or that
  gives it back, and \<open>inside l p\<close> says that \<open>p\<close> is between the two. A process gives the lock back when
  it has written all it had to say.
\<close>

inductive writer_step :: "('l \<Rightarrow> 'e \<Rightarrow> 'l \<Rightarrow> bool) \<Rightarrow> ('e \<Rightarrow> nat option) \<Rightarrow> ('e \<Rightarrow> nat option) \<Rightarrow>
    ('l \<Rightarrow> nat \<Rightarrow> bool) \<Rightarrow> 'l writers \<Rightarrow> 'e writer_event \<Rightarrow> 'l writers \<Rightarrow> bool"
  for step enters leaves inside where
  begins: "step (wr_lock s) e l \<Longrightarrow> enters e = Some p \<Longrightarrow>
    writer_step step enters leaves inside s (Begin e t) (s\<lparr>wr_lock := l, wr_rest := (wr_rest s)(p := t)\<rparr>)"
| writes: "inside (wr_lock s) p \<Longrightarrow> wr_rest s p = a @ b \<Longrightarrow>
    writer_step step enters leaves inside s (Write p a)
      (s\<lparr>wr_rest := (wr_rest s)(p := b), wr_file := wr_file s @ a\<rparr>)"
| leaves: "step (wr_lock s) e l \<Longrightarrow> leaves e = Some p \<Longrightarrow> wr_rest s p = [] \<Longrightarrow>
    writer_step step enters leaves inside s (Lock e) (s\<lparr>wr_lock := l\<rparr>)"
| other: "step (wr_lock s) e l \<Longrightarrow> enters e = None \<Longrightarrow> leaves e = None \<Longrightarrow>
    writer_step step enters leaves inside s (Lock e) (s\<lparr>wr_lock := l\<rparr>)"

inductive_cases writer_stepE: "writer_step step enters leaves inside s e t"

fun allowed_event :: "('e \<Rightarrow> bool) \<Rightarrow> 'e writer_event \<Rightarrow> bool" where
  "allowed_event allowed (Begin e t) = allowed e"
| "allowed_event allowed (Write p t) = True"
| "allowed_event allowed (Lock e) = allowed e"

text \<open>All processes outside, nothing written.\<close>

definition writers_start :: "'l \<Rightarrow> 'l writers" where
  "writers_start l = \<lparr>wr_lock = l, wr_rest = (\<lambda>_. []), wr_file = []\<rparr>"

lemma writers_start_simps [simp]: "wr_lock (writers_start l) = l" "wr_rest (writers_start l) = (\<lambda>_. [])"
  "wr_file (writers_start l) = []"
  by (simp_all add: writers_start_def)

text \<open>The texts that were begun, in the order in which their writers got the lock.\<close>

fun sections :: "'e writer_event list \<Rightarrow> ctext list" where
  "sections [] = []"
| "sections (Begin e t # es) = t # sections es"
| "sections (Write p t # es) = sections es"
| "sections (Lock e # es) = sections es"

lemma sections_append: "sections (es @ es') = sections es @ sections es'"
  by (induction es rule: sections.induct) simp_all

text \<open>
  At most one process has text left, it has the lock, and with this text the file is the
  concatenation of the texts begun.
\<close>

definition unfinished :: "'l writers \<Rightarrow> nat \<Rightarrow> bool" where
  "unfinished s p \<longleftrightarrow> (\<forall>q. q \<noteq> p \<longrightarrow> wr_rest s q = [])"

definition whole :: "('l \<Rightarrow> bool) \<Rightarrow> ('l \<Rightarrow> nat \<Rightarrow> bool) \<Rightarrow> ctext \<Rightarrow> 'l writers \<Rightarrow> bool" where
  "whole taken inside all s \<longleftrightarrow> (\<exists>p. unfinished s p \<and> wr_file s @ wr_rest s p = all \<and>
     (wr_rest s p \<noteq> [] \<longrightarrow> taken (wr_lock s) \<and> (\<forall>q. inside (wr_lock s) q \<longrightarrow> q = p)))"

text \<open>
  The interface of a lock: who gets it gets it alone, who gives it back had it, and as long as nobody
  gives it back it stays taken and nobody gets past it.
\<close>

locale critical_section = machine initial step allowed inv
  for initial :: "'l \<Rightarrow> bool" and step :: "'l \<Rightarrow> 'e \<Rightarrow> 'l \<Rightarrow> bool" and allowed inv +
  fixes enters leaves :: "'e \<Rightarrow> nat option"
    and inside :: "'l \<Rightarrow> nat \<Rightarrow> bool"
    and taken :: "'l \<Rightarrow> bool"
  assumes enter: "inv l \<Longrightarrow> step l e m \<Longrightarrow> allowed e \<Longrightarrow> enters e = Some p \<Longrightarrow>
      \<not> taken l \<and> taken m \<and> (\<forall>q. inside m q \<longrightarrow> q = p)"
    and leave: "inv l \<Longrightarrow> step l e m \<Longrightarrow> allowed e \<Longrightarrow> leaves e = Some p \<Longrightarrow> inside l p"
    and stay: "inv l \<Longrightarrow> step l e m \<Longrightarrow> allowed e \<Longrightarrow> enters e = None \<Longrightarrow> leaves e = None \<Longrightarrow>
      (taken l \<longrightarrow> taken m) \<and> (\<forall>q. inside m q \<longrightarrow> inside l q)"
begin

lemma step_whole:
  assumes "whole taken inside all s" "inv (wr_lock s)" "allowed_event allowed e"
    "writer_step step enters leaves inside s e t"
  shows "whole taken inside (all @ concat (sections [e])) t \<and> inv (wr_lock t)"
proof -
  from assms(1) obtain p where p: "unfinished s p" "wr_file s @ wr_rest s p = all"
    "wr_rest s p \<noteq> [] \<Longrightarrow> taken (wr_lock s)" "\<And>q. wr_rest s p \<noteq> [] \<Longrightarrow> inside (wr_lock s) q \<Longrightarrow> q = p"
    by (auto simp: whole_def)
  from assms(4) show ?thesis
  proof (cases rule: writer_step.cases)
    case (begins e' l q t')
    with assms(3) have "allowed e'" by simp
    from enter [OF assms(2) begins(3) this begins(4)] have
      l: "\<not> taken (wr_lock s)" "taken l" "\<forall>r. inside l r \<longrightarrow> r = q" by simp_all
    with p(3) have "wr_rest s p = []" by blast
    with p(1) have "wr_rest s r = []" for r by (cases "r = p") (simp_all add: unfinished_def)
    with l p(2) begins step_inv [OF assms(2) begins(3) \<open>allowed e'\<close>] show ?thesis
      by (simp add: whole_def unfinished_def)
  next
    case (writes q a b)
    show ?thesis
    proof (cases "a = []")
      case True
      with writes(4) have "(wr_rest s)(q := b) = wr_rest s" by auto
      with True assms(1,2) writes show ?thesis by simp
    next
      case False
      with writes(4) p(1) have "q = p" by (auto simp: unfinished_def)
      with p(1,2) writes have "unfinished t p" "wr_file t @ wr_rest t p = all"
        by (simp_all add: unfinished_def)
      moreover have "wr_rest s p \<noteq> []" using writes(4) False \<open>q = p\<close> by simp
      with p(3,4) have "taken (wr_lock s)" "\<forall>r. inside (wr_lock s) r \<longrightarrow> r = p" by blast+
      ultimately show ?thesis using assms(2) writes unfolding whole_def by auto
    qed
  next
    case (leaves e' l q)
    with assms(3) have "allowed e'" by simp
    from leave [OF assms(2) leaves(3) this leaves(4)] p(4) leaves(5) have "wr_rest s p = []" by blast
    with p leaves step_inv [OF assms(2) leaves(3) \<open>allowed e'\<close>] show ?thesis
      by (auto simp: whole_def unfinished_def)
  next
    case (other e' l)
    with assms(3) have "allowed e'" by simp
    from stay [OF assms(2) other(3) this other(4,5)] step_inv [OF assms(2) other(3) this] p other
    show ?thesis by (auto simp: whole_def unfinished_def intro!: exI [of _ p])
  qed
qed

lemma runs_whole:
  "runs (writer_step step enters leaves inside) s es t \<Longrightarrow> whole taken inside all s \<Longrightarrow>
    inv (wr_lock s) \<Longrightarrow> list_all (allowed_event allowed) es \<Longrightarrow>
    whole taken inside (all @ concat (sections es)) t"
proof (induction arbitrary: all rule: runs.induct)
  case (runs_Cons s e t es u)
  from runs_Cons.prems step_whole [OF runs_Cons.prems(1,2) _ runs_Cons.hyps(1)]
    runs_Cons.IH [of "all @ concat (sections [e])"] sections_append [of "[e]" es]
  show ?case by simp
qed simp

lemma file_whole:
  assumes "runs (writer_step step enters leaves inside) s es t" "initial (wr_lock s)"
    "wr_rest s = (\<lambda>_. [])" "list_all (allowed_event allowed) es"
  shows "\<exists>p. unfinished t p \<and> wr_file t @ wr_rest t p = wr_file s @ concat (sections es)"
proof -
  have "whole taken inside (wr_file s) s" using assms(3) by (simp add: whole_def unfinished_def)
  from runs_whole [OF assms(1) this initial_inv [OF assms(2)] assms(4)] show ?thesis
    by (auto simp: whole_def)
qed

end

section \<open>The trace file\<close>

text \<open>
  The semaphore of the shared memory, which \<open>sem_init\<close> sets to 1. \<open>output_write\<close> does not look at the
  result of \<open>sem_wait\<close>: \<open>Interrupted\<close> is a call that a signal handler has ended (\<open>EINTR\<close>), after which
  the process goes on as if it had the semaphore. \<open>Killed\<close> is a process that ends before \<open>sem_post\<close>.
\<close>

datatype sem_phase = Sem_outside | Sem_inside

record sem_world =
  sem_value :: nat
  sem_phase :: "nat \<Rightarrow> sem_phase"

datatype sem_event = Wait nat | Interrupted nat | Post nat | Killed nat

inductive sem_step :: "sem_world \<Rightarrow> sem_event \<Rightarrow> sem_world \<Rightarrow> bool" where
  wait: "sem_phase w p = Sem_outside \<Longrightarrow> 0 < sem_value w \<Longrightarrow> sem_step w (Wait p)
    (w\<lparr>sem_value := sem_value w - 1, sem_phase := (sem_phase w)(p := Sem_inside)\<rparr>)"
| interrupted: "sem_phase w p = Sem_outside \<Longrightarrow> sem_value w = 0 \<Longrightarrow> sem_step w (Interrupted p)
    (w\<lparr>sem_phase := (sem_phase w)(p := Sem_inside)\<rparr>)"
| post: "sem_phase w p = Sem_inside \<Longrightarrow> sem_step w (Post p)
    (w\<lparr>sem_value := sem_value w + 1, sem_phase := (sem_phase w)(p := Sem_outside)\<rparr>)"
| killed: "sem_phase w p = Sem_inside \<Longrightarrow> sem_step w (Killed p)
    (w\<lparr>sem_phase := (sem_phase w)(p := Sem_outside)\<rparr>)"

inductive_cases sem_stepE: "sem_step w e w'"

definition sem_start :: "sem_world \<Rightarrow> bool" where
  "sem_start w \<longleftrightarrow> sem_value w = 1 \<and> (\<forall>p. sem_phase w p = Sem_outside)"

fun uninterrupted :: "sem_event \<Rightarrow> bool" where
  "uninterrupted (Interrupted p) = False"
| "uninterrupted e = True"

fun sem_enters :: "sem_event \<Rightarrow> nat option" where
  "sem_enters (Wait p) = Some p"
| "sem_enters (Interrupted p) = Some p"
| "sem_enters e = None"

fun sem_leaves :: "sem_event \<Rightarrow> nat option" where
  "sem_leaves (Post p) = Some p"
| "sem_leaves e = None"

definition sem_inv :: "sem_world \<Rightarrow> bool" where
  "sem_inv w \<longleftrightarrow> sem_value w \<le> 1 \<and> (\<forall>p. sem_phase w p = Sem_inside \<longrightarrow> sem_value w = 0) \<and>
     (\<forall>p q. sem_phase w p = Sem_inside \<longrightarrow> sem_phase w q = Sem_inside \<longrightarrow> p = q)"

lemma sem_step_inv: "sem_inv w \<Longrightarrow> sem_step w e w' \<Longrightarrow> uninterrupted e \<Longrightarrow> sem_inv w'"
  by (erule sem_stepE) (auto simp: sem_inv_def split: if_splits)

abbreviation sem_holds :: "sem_world \<Rightarrow> nat \<Rightarrow> bool" where
  "sem_holds w p \<equiv> sem_phase w p = Sem_inside"

interpretation trace_lock: critical_section sem_start sem_step uninterrupted sem_inv sem_enters sem_leaves
  sem_holds "\<lambda>w. sem_value w = 0"
proof unfold_locales
  show "sem_start w \<Longrightarrow> sem_inv w" for w by (simp add: sem_start_def sem_inv_def)
  show "sem_inv w \<Longrightarrow> sem_step w e w' \<Longrightarrow> uninterrupted e \<Longrightarrow> sem_inv w'" for w e w'
    by (rule sem_step_inv)
  show "\<not> sem_value l = 0 \<and> sem_value m = 0 \<and> (\<forall>q. sem_phase m q = Sem_inside \<longrightarrow> q = p)"
    if "sem_inv l" "sem_step l e m" "uninterrupted e" "sem_enters e = Some p" for l e m p
    using that by (cases rule: sem_step.cases [OF that(2)]) (auto simp: sem_inv_def)
  show "sem_phase l p = Sem_inside"
    if "sem_inv l" "sem_step l e m" "uninterrupted e" "sem_leaves e = Some p" for l e m p
    using that by (cases rule: sem_step.cases [OF that(2)]) auto
  show "(sem_value l = 0 \<longrightarrow> sem_value m = 0) \<and> (\<forall>q. sem_phase m q = Sem_inside \<longrightarrow> sem_phase l q = Sem_inside)"
    if "sem_inv l" "sem_step l e m" "uninterrupted e" "sem_enters e = None" "sem_leaves e = None" for l e m
    using that by (cases rule: sem_step.cases [OF that(2)]) auto
qed

text \<open>Calls of \<open>output_write\<close>, and the processes that make them one after the other.\<close>

type_synonym trace_call = "string \<times> i32 \<times> i32 \<times> byte"

definition call_line :: "bool \<Rightarrow> trace_call \<Rightarrow> ctext" where
  "call_line sockets = (\<lambda>(side, from_fd, to_fd, kind).
     cstr (snprintf MISC_LENGTH (trace_line sockets (bs side) from_fd to_fd kind None)))"

fun trace_calls :: "trace_call list \<Rightarrow> 'w act" where
  "trace_calls [] p = Returned p"
| "trace_calls ((side, from_fd, to_fd, kind) # cs) p =
     and_then (output_write side from_fd to_fd kind None p) (trace_calls cs)"

lemma trace_calls_file:
  assumes "can_trace (pr_config p)" "cfg_file (pr_config p) = Some f"
  shows "\<exists>q. trace_calls cs p = Returned q \<and>
    cfg_file (pr_config q) = Some (f @ concat (map (call_line (cfg_output_sockets (pr_config p))) cs))"
  using assms
proof (induction cs arbitrary: p f)
  case (Cons c cs)
  obtain side from_fd to_fd kind where c: "c = (side, from_fd, to_fd, kind)" by (cases c)
  let ?sockets = "cfg_output_sockets (pr_config p)"
  let ?q = "p\<lparr>pr_config := (pr_config p)\<lparr>cfg_file := Some (f @ call_line ?sockets c)\<rparr>\<rparr>"
  have "output_write side from_fd to_fd kind None p = Returned ?q"
    using Cons.prems by (simp add: c output_write_def can_trace_def call_line_def Let_def)
  with Cons.IH [of ?q "f @ call_line ?sockets c"] Cons.prems show ?case
    by (simp add: c can_trace_def)
qed simp

text \<open>
  C10. The trace file of any number of processes whose calls of \<open>output_write\<close> interleave, down to the
  pieces in which a line reaches the file, is the one that the same calls leave behind when they are
  made one after the other, in the order in which they got the semaphore; only the end of the line
  that is being written is missing. So as long as no \<open>sem_wait\<close> is interrupted by a signal (its result is
  ignored, and the process then writes without the semaphore), lines are never mixed, none is lost, and
  the model of one process that runs alone is right about the trace file.
\<close>

theorem trace_calls_linear:
  assumes "sem_start (wr_lock s)" "wr_rest s = (\<lambda>_. [])"
    "runs (writer_step sem_step sem_enters sem_leaves sem_holds) s es t"
    "list_all (allowed_event uninterrupted) es"
    "sections es = map (call_line (cfg_output_sockets (pr_config p))) cs"
    "can_trace (pr_config p)" "cfg_file (pr_config p) = Some (wr_file s)"
  shows "\<exists>q i. trace_calls cs p = Returned q \<and> unfinished t i \<and>
    cfg_file (pr_config q) = Some (wr_file t @ wr_rest t i)"
proof -
  from trace_lock.file_whole [OF assms(3,1,2,4)] obtain i where
    "unfinished t i" "wr_file t @ wr_rest t i = wr_file s @ concat (sections es)" by blast
  with trace_calls_file [OF assms(6,7), of cs] assms(5) show ?thesis by metis
qed

definition sem_world_1 :: sem_world where
  "sem_world_1 = \<lparr>sem_value = 1, sem_phase = (\<lambda>_. Sem_outside)\<rparr>"

definition demo_calls :: "trace_call list" where
  "demo_calls = [(''C'', 7, 8, ch CHR ''Q''), (''S'', 8, 7, ch CHR ''Z'')]"

lemma run_two_calls:
  "\<exists>t. runs (writer_step sem_step sem_enters sem_leaves sem_holds) (writers_start sem_world_1)
      [Begin (Wait 0) (x @ y), Write 0 x, Write 0 y, Lock (Post 0), Begin (Wait 1) z] t \<and>
    wr_file t = x @ y \<and> wr_rest t = (\<lambda>_. [])(1 := z)"
  apply (intro exI conjI)
    apply (rule runs_Cons, rule begins [where p = 0], rule wait, (simp add: sem_world_1_def)+)
    apply (rule runs_Cons, rule writes [where a = x and b = y], simp, simp)
    apply (rule runs_Cons, rule writes [where a = y and b = "[]"], simp, simp)
    apply (rule runs_Cons, rule leaves [where p = 0], rule post, simp, simp, simp)
    apply (rule runs_Cons, rule begins [where p = 1], rule wait, (simp add: sem_world_1_def)+)
    apply (rule runs_Nil)
   apply (simp_all add: fun_eq_iff)
  done

theorem trace_calls_linear_witness:
  "\<exists>(t :: sem_world writers) q i. wr_file t = call_line False (''C'', 7, 8, ch CHR ''Q'') \<and>
    wr_rest t = (\<lambda>_. [])(1 := call_line False (''S'', 8, 7, ch CHR ''Z'')) \<and>
    trace_calls demo_calls (demo_proc (\<lambda>_. [])) = Returned q \<and> unfinished t i \<and>
    cfg_file (pr_config q) = Some (wr_file t @ wr_rest t i)"
proof -
  let ?x = "call_line False (''C'', 7, 8, ch CHR ''Q'')" and ?z = "call_line False (''S'', 8, 7, ch CHR ''Z'')"
  from run_two_calls [of ?x "[]" ?z] obtain t where
    t: "runs (writer_step sem_step sem_enters sem_leaves sem_holds) (writers_start sem_world_1)
      [Begin (Wait 0) (?x @ []), Write 0 ?x, Write 0 [], Lock (Post 0), Begin (Wait 1) ?z] t"
      "wr_file t = ?x @ []" "wr_rest t = (\<lambda>_. [])(1 := ?z)" by blast
  have p: "pr_config (demo_proc (\<lambda>_. [])) = demo_configuration" by (simp add: demo_proc_def io.defs)
  have "sem_start (wr_lock (writers_start sem_world_1))" by (simp add: sem_start_def sem_world_1_def)
  from trace_calls_linear [OF this _ t(1), of "demo_proc (\<lambda>_. [])" demo_calls] have
    "\<exists>q i. trace_calls demo_calls (demo_proc (\<lambda>_. [])) = Returned q \<and> unfinished t i \<and>
      cfg_file (pr_config q) = Some (wr_file t @ wr_rest t i)"
    by (simp add: p demo_calls_def can_trace_def demo_configuration_def zero_configuration_def
        del: of_char_Char)
  moreover have "wr_file t = ?x" using t(2) by simp
  ultimately show ?thesis using t(3) by blast
qed

section \<open>The log\<close>

fun lock_enters :: "lock_event \<Rightarrow> nat option" where
  "lock_enters (CasOk p) = Some p"
| "lock_enters (Timeout p) = Some p"
| "lock_enters e = None"

fun lock_leaves :: "lock_event \<Rightarrow> nat option" where
  "lock_leaves (Unlock p) = Some p"
| "lock_leaves e = None"

abbreviation lock_holds :: "lock_world \<Rightarrow> nat \<Rightarrow> bool" where
  "lock_holds w p \<equiv> lw_phase w p = Inside"

interpretation log_lock: critical_section lock_start lock_step no_timeout lock_inv lock_enters lock_leaves
  lock_holds "\<lambda>w. lw_lock w \<noteq> STATE_FREE"
proof unfold_locales
  show "\<not> lw_lock l \<noteq> STATE_FREE \<and> lw_lock m \<noteq> STATE_FREE \<and> (\<forall>q. lw_phase m q = Inside \<longrightarrow> q = p)"
    if "lock_inv l" "lock_step l e m" "no_timeout e" "lock_enters e = Some p" for l e m p
    using that by (cases rule: lock_step.cases [OF that(2)]) (auto simp: lock_inv_def no_timeout_def)
  show "lw_phase l p = Inside"
    if "lock_inv l" "lock_step l e m" "no_timeout e" "lock_leaves e = Some p" for l e m p
    using that by (cases rule: lock_step.cases [OF that(2)]) auto
  show "(lw_lock l \<noteq> STATE_FREE \<longrightarrow> lw_lock m \<noteq> STATE_FREE) \<and> (\<forall>q. lw_phase m q = Inside \<longrightarrow> lw_phase l q = Inside)"
    if "lock_inv l" "lock_step l e m" "no_timeout e" "lock_enters e = None" "lock_leaves e = None" for l e m
    using that by (cases rule: lock_step.cases [OF that(2)]) (auto split: if_splits)
qed

text \<open>Log entries: what a process logs between its lock and its unlock, one entry after the other.\<close>

fun log_entries :: "log_item list list \<Rightarrow> 'w act" where
  "log_entries [] p = Returned p"
| "log_entries (items # rest) p =
     and_then (log_to items (lock_log p)) (\<lambda>p. log_entries rest (unlock_log p))"

lemma log_entries_text:
  assumes "can_log (cfg_log_type (pr_config p)) (pr_logs p)" "list_all (list_all item_ok) entries"
  shows "\<exists>q. log_entries entries p = Returned q \<and>
    pr_logs q = add_log (cfg_log_type (pr_config p)) (concat (map items_text entries)) (pr_logs p)"
  using assms
proof (induction entries arbitrary: p)
  case (Cons items rest)
  let ?lt = "cfg_log_type (pr_config p)"
  let ?q = "unlock_log ((lock_log p)\<lparr>pr_logs := add_log ?lt (items_text items) (pr_logs p)\<rparr>)"
  have "log_all items ?lt (pr_logs p) = Some (add_log ?lt (items_text items) (pr_logs p))"
    using Cons.prems by (simp add: log_all_open)
  then have "and_then (log_to items (lock_log p)) (\<lambda>p. log_entries rest (unlock_log p)) =
      log_entries rest ?q"
    by (simp add: log_to_def lock_log_def log_lock_def)
  with Cons.IH [of ?q] Cons.prems show ?case
    by (simp add: unlock_log_def lock_log_def log_lock_def log_unlock_def)
qed simp

text \<open>
  C11. The same of the log, as long as no call of \<open>pgprtdbg_log_lock\<close> gives up: what the processes log
  between their locks and unlocks stands in the log entry by entry, in the order in which they got
  the lock, as if they had logged one after the other. A process that ends while it holds the lock
  leaves the beginning of its entry behind.
\<close>

theorem log_entries_linear:
  assumes "lock_start (wr_lock s)" "wr_rest s = (\<lambda>_. [])"
    "runs (writer_step lock_step lock_enters lock_leaves lock_holds) s es t"
    "list_all (allowed_event no_timeout) es" "sections es = map items_text entries"
    "can_log (cfg_log_type (pr_config p)) (pr_logs p)" "list_all (list_all item_ok) entries"
  shows "\<exists>q i all. log_entries entries p = Returned q \<and> unfinished t i \<and>
    pr_logs q = add_log (cfg_log_type (pr_config p)) all (pr_logs p) \<and>
    wr_file t @ wr_rest t i = wr_file s @ all"
proof -
  from log_lock.file_whole [OF assms(3,1,2,4)] obtain i where
    "unfinished t i" "wr_file t @ wr_rest t i = wr_file s @ concat (sections es)" by blast
  with log_entries_text [OF assms(6,7)] assms(5) show ?thesis by metis
qed

lemma run_two_entries:
  "\<exists>t. runs (writer_step lock_step lock_enters lock_leaves lock_holds) (writers_start lock_world_0)
      [Lock (Call 0), Begin (CasOk 0) x, Write 0 x, Lock (Unlock 0), Lock (Call 1), Begin (CasOk 1) (y @ z), Write 1 y] t \<and>
    wr_file t = x @ y \<and> wr_rest t = (\<lambda>_. [])(1 := z)"
  apply (intro exI conjI)
    apply (rule runs_Cons, rule other, rule call, (simp add: lock_world_0_def)+)
    apply (rule runs_Cons, rule begins [where p = 0], rule cas_ok, (simp add: lock_world_0_def)+)
    apply (rule runs_Cons, rule writes [where a = x and b = "[]"], simp, simp)
    apply (rule runs_Cons, rule leaves [where p = 0], rule unlock, simp, simp, simp)
    apply (rule runs_Cons, rule other, rule call, (simp add: lock_world_0_def)+)
    apply (rule runs_Cons, rule begins [where p = 1], rule cas_ok, (simp add: lock_world_0_def)+)
    apply (rule runs_Cons, rule writes [where a = y and b = z], simp, simp)
    apply (rule runs_Nil)
   apply (simp_all add: fun_eq_iff)
  done

theorem log_entries_linear_witness:
  "\<exists>(t :: lock_world writers) q i all. wr_file t = items_text [line ''--------''] \<and>
    wr_rest t = (\<lambda>_. [])(1 := items_text [line ''FE: H'']) \<and>
    log_entries [[line ''--------''], [line ''FE: H'']] (demo_proc (\<lambda>_. [])) = Returned q \<and> unfinished t i \<and>
    pr_logs q = add_log (cfg_log_type demo_configuration) all (pr_logs (demo_proc (\<lambda>_. []))) \<and>
    wr_file t @ wr_rest t i = all"
proof -
  let ?x = "items_text [line ''--------'']" and ?z = "items_text [line ''FE: H'']"
  from run_two_entries [of ?x "[]" ?z] obtain t where
    t: "runs (writer_step lock_step lock_enters lock_leaves lock_holds) (writers_start lock_world_0)
      [Lock (Call 0), Begin (CasOk 0) ?x, Write 0 ?x, Lock (Unlock 0), Lock (Call 1), Begin (CasOk 1) ([] @ ?z), Write 1 []] t"
      "wr_file t = ?x @ []" "wr_rest t = (\<lambda>_. [])(1 := ?z)" by blast
  have p: "pr_config (demo_proc (\<lambda>_. [])) = demo_configuration" by (simp add: demo_proc_def io.defs)
  have "lock_start (wr_lock (writers_start lock_world_0))" by (simp add: lock_start_def lock_world_0_def)
  from log_entries_linear [OF this _ t(1), of "[[line ''--------''], [line ''FE: H'']]" "demo_proc (\<lambda>_. [])"] have
    "\<exists>q i all. log_entries [[line ''--------''], [line ''FE: H'']] (demo_proc (\<lambda>_. [])) = Returned q \<and>
      unfinished t i \<and> pr_logs q = add_log (cfg_log_type demo_configuration) all (pr_logs (demo_proc (\<lambda>_. []))) \<and>
      wr_file t @ wr_rest t i = all"
    unfolding p by (simp add: can_log_def demo_configuration_def zero_configuration_def no_timeout_def
        LOGGING_TYPE_FILE_def)
  moreover have "wr_file t = ?x" using t(2) by simp
  ultimately show ?thesis using t(3) by blast
qed

text \<open>
  C32. A call of \<open>pgprtdbg_log_lock\<close> that gives up mixes entries, whatever they are: here the entry \<open>c\<close>
  of process 1 lies inside the entry \<open>a\<close>, \<open>b\<close> of process 0, and the unlock of process 1 frees the lock
  while process 0 has not given it back.
\<close>

theorem timeout_mixes_entries:
  "\<exists>t. runs (writer_step lock_step lock_enters lock_leaves lock_holds) (writers_start lock_world_0)
      [Lock (Call 0), Begin (CasOk 0) (a @ b), Write 0 a, Lock (Call 1), Lock (CasFail 1), Lock Tick,
       Begin (Timeout 1) c, Write 1 c, Lock (Unlock 1), Write 0 b] t \<and>
    wr_file t = a @ c @ b \<and> lw_phase (wr_lock t) 0 = Inside \<and> lw_lock (wr_lock t) = STATE_FREE"
  apply (intro exI conjI)
     apply (rule runs_Cons, rule other, rule call, (simp add: lock_world_0_def)+)
     apply (rule runs_Cons, rule begins [where p = 0], rule cas_ok, (simp add: lock_world_0_def)+)
     apply (rule runs_Cons, rule writes [where a = a and b = b], simp, simp)
     apply (rule runs_Cons, rule other, rule call, (simp add: lock_world_0_def)+)
     apply (rule runs_Cons, rule other, rule cas_fail, simp, simp, simp, simp)
     apply (rule runs_Cons, rule other, rule tick, simp, simp)
     apply (rule runs_Cons, rule begins [where p = 1], rule timeout, simp, simp add: lock_world_0_def, simp)
     apply (rule runs_Cons, rule writes [where a = c and b = "[]"], simp, simp)
     apply (rule runs_Cons, rule leaves [where p = 1], rule unlock, simp, simp, simp)
     apply (rule runs_Cons, rule writes [where a = b and b = "[]"], simp, simp)
     apply (rule runs_Nil)
    apply simp_all
  done

end
