(* ===== verification/Conversation.thy ===== *)
theory Conversation
  imports Worker
begin

text \<open>
  A whole session of a worker (\<open>pgprtdbg_worker\<close>, \<open>pipeline_client\<close>, \<open>pipeline_server\<close>) with peers that
  take turns: which callbacks run, what passes, what the trace file shows and how the session ends.
\<close>

section \<open>What arrives\<close>

text \<open>
  One chunk, the messages that it completes, and the beginning of a message that it ends with.
\<close>

datatype arrival =
    From_client "byte list" "fe_item list" "byte list"
  | From_server "byte list" "be_msg list" "byte list"

fun arrival_event :: "arrival \<Rightarrow> worker_event" where
  "arrival_event (From_client bytes xs tail) = Client_readable"
| "arrival_event (From_server bytes xs tail) = Server_readable"

fun client_part :: "arrival \<Rightarrow> byte list list" where
  "client_part (From_client bytes xs tail) = [bytes]"
| "client_part (From_server bytes xs tail) = []"

fun server_part :: "arrival \<Rightarrow> byte list list" where
  "server_part (From_client bytes xs tail) = []"
| "server_part (From_server bytes xs tail) = [bytes]"

definition client_parts :: "arrival list \<Rightarrow> byte list list" where
  "client_parts as = concat (map client_part as)"

definition server_parts :: "arrival list \<Rightarrow> byte list list" where
  "server_parts as = concat (map server_part as)"

lemma parts_simps [simp]:
  "client_parts [] = []" "client_parts (a # as) = client_part a @ client_parts as"
  "client_parts (as @ as') = client_parts as @ client_parts as'"
  "server_parts [] = []" "server_parts (a # as) = server_part a @ server_parts as"
  "server_parts (as @ as') = server_parts as @ server_parts as'"
  by (simp_all add: client_parts_def server_parts_def)

text \<open>The lines of the trace file for the messages of a chunk.\<close>

fun arrival_trace :: "i32 \<Rightarrow> i32 \<Rightarrow> bool \<Rightarrow> arrival \<Rightarrow> ctext" where
  "arrival_trace client_fd server_fd sockets (From_client bytes xs tail) =
     concat (map (item_trace client_fd server_fd sockets) xs)"
| "arrival_trace client_fd server_fd sockets (From_server bytes xs tail) =
     concat (map (be_trace server_fd client_fd sockets) xs)"

fun arrival_messages :: "arrival \<Rightarrow> nat" where
  "arrival_messages (From_client bytes xs tail) = length xs"
| "arrival_messages (From_server bytes xs tail) = length xs"

section \<open>Peers that take turns\<close>

text \<open>
  A chunk of the server that begins with the byte \<open>E\<close> must show in itself that it has no fatal severity
  in the place where \<open>pipeline_server\<close> looks for one.
\<close>

definition harmless :: "byte list \<Rightarrow> bool" where
  "harmless bytes \<longleftrightarrow> same_text (drop 6 bytes) (bs ''FATAL'') = Some False \<and>
     same_text (drop 6 bytes) (bs ''PANIC'') = Some False"

text \<open>
  \<open>orderly n pc ps as\<close>: \<open>pc\<close> and \<open>ps\<close> are the beginnings of messages that have arrived from the client
  and from the server. A peer speaks only while no message of the other one is incomplete, since both
  directions share one buffer; a chunk fits into the buffer of \<open>n\<close> bytes and continues the messages
  of its peer; and nothing comes behind a chunk of the client that begins with \<open>X\<close>.
\<close>

fun orderly :: "nat \<Rightarrow> byte list \<Rightarrow> byte list \<Rightarrow> arrival list \<Rightarrow> bool" where
  "orderly n pc ps [] = True"
| "orderly n pc ps (From_client bytes xs tail # as) \<longleftrightarrow> ps = [] \<and>
     bytes \<noteq> [] \<and> length bytes \<le> n \<and> pc @ bytes = concat (map enc_item xs) @ tail \<and>
     list_all item_fine xs \<and> client_waits tail \<and> (hd bytes = ch CHR ''X'' \<longrightarrow> as = []) \<and>
     orderly n tail [] as"
| "orderly n pc ps (From_server bytes xs tail # as) \<longleftrightarrow> pc = [] \<and>
     bytes \<noteq> [] \<and> length bytes \<le> n \<and> ps @ bytes = concat (map enc_be xs) @ tail \<and>
     list_all be_ok xs \<and> server_waits tail \<and> (hd bytes = ch CHR ''E'' \<longrightarrow> harmless bytes) \<and>
     orderly n [] tail as"

text \<open>What is pending after the chunks, and whether the client has said goodbye.\<close>

fun pending :: "byte list \<Rightarrow> byte list \<Rightarrow> arrival list \<Rightarrow> byte list \<times> byte list" where
  "pending pc ps [] = (pc, ps)"
| "pending pc ps (From_client bytes xs tail # as) = pending tail [] as"
| "pending pc ps (From_server bytes xs tail # as) = pending [] tail as"

fun says_goodbye :: "arrival \<Rightarrow> bool" where
  "says_goodbye (From_client bytes xs tail) \<longleftrightarrow> hd bytes = ch CHR ''X''"
| "says_goodbye (From_server bytes xs tail) \<longleftrightarrow> False"

definition goodbye :: "arrival list \<Rightarrow> bool" where
  "goodbye as \<longleftrightarrow> as \<noteq> [] \<and> says_goodbye (last as)"

lemma goodbye_simps [simp]: "\<not> goodbye []" "goodbye [a] = says_goodbye a"
  "as \<noteq> [] \<Longrightarrow> goodbye (a # as) = goodbye as" "as' \<noteq> [] \<Longrightarrow> goodbye (as @ as') = goodbye as'"
  by (simp_all add: goodbye_def)

lemma orderly_append:
  "orderly n pc ps (as @ as') \<Longrightarrow> orderly n pc ps as \<and>
    (case pending pc ps as of (pc', ps') \<Rightarrow> orderly n pc' ps' as') \<and> (goodbye as \<longrightarrow> as' = [])"
proof (induction n pc ps as rule: orderly.induct)
  case (2 n pc ps bytes xs tail as)
  then show ?case by (cases "as = []") (auto simp del: of_char_Char)
next
  case (3 n pc ps bytes xs tail as)
  then show ?case by (cases "as = []") (auto simp del: of_char_Char)
qed simp

lemma pending_append:
  "pending pc ps (as @ as') = (case pending pc ps as of (pc', ps') \<Rightarrow> pending pc' ps' as')"
  by (induction pc ps as rule: pending.induct) simp_all

section \<open>The sockets and the event loop\<close>

text \<open>
  What is relied on of the sockets and of libev in such a session: \<open>inbox w fd\<close> are the chunks that will
  arrive on \<open>fd\<close>, each of which one \<open>read\<close> delivers, and \<open>script w\<close> are the callbacks that will be pending
  in the iterations to come.
\<close>

definition delivers :: "'w os \<Rightarrow> ('w \<Rightarrow> i32 \<Rightarrow> byte list list) \<Rightarrow> ('w \<Rightarrow> worker_event list list) \<Rightarrow> bool" where
  "delivers os inbox script \<longleftrightarrow>
     (\<forall>fd n w c cs. inbox w fd = c # cs \<longrightarrow> length c \<le> n \<longrightarrow>
        (\<exists>w'. os_read os fd n w = (Got c, w') \<and> inbox w' = (inbox w)(fd := cs) \<and> script w' = script w)) \<and>
     (\<forall>fd bytes w res w'. os_write os fd bytes w = (res, w') \<longrightarrow> inbox w' = inbox w \<and> script w' = script w)"

definition follows :: "'w poll \<Rightarrow> ('w \<Rightarrow> i32 \<Rightarrow> byte list) \<Rightarrow> ('w \<Rightarrow> i32 \<Rightarrow> byte list) \<Rightarrow>
    ('w \<Rightarrow> i32 \<Rightarrow> byte list list) \<Rightarrow> ('w \<Rightarrow> worker_event list list) \<Rightarrow> bool" where
  "follows poll sent rcvd inbox script \<longleftrightarrow>
     (\<forall>w es ess. script w = es # ess \<longrightarrow> (\<exists>w'. poll w = (es, w') \<and> script w' = ess \<and>
        inbox w' = inbox w \<and> sent w' = sent w \<and> rcvd w' = rcvd w))"

lemma delivers_read:
  assumes "delivers os inbox script" "inbox w fd = c # cs" "length c \<le> n"
  obtains w' where "os_read os fd n w = (Got c, w')" "inbox w' = (inbox w)(fd := cs)" "script w' = script w"
  using assms unfolding delivers_def by blast

lemma delivers_written:
  assumes "delivers os inbox script" "written os w w'"
  shows "inbox w' = inbox w" "script w' = script w"
proof -
  have "inbox v' = inbox v" "script v' = script v" if "os_write os fd bytes v = (res, v')" for fd bytes v res v'
    using assms(1) that unfolding delivers_def by blast+
  then show "inbox w' = inbox w" "script w' = script w"
    using written_keeps [OF assms(2), of inbox] written_keeps [OF assms(2), of script] by blast+
qed

section \<open>One chunk\<close>

text \<open>
  A process in the middle of a session, with a buffer of \<open>n\<close> bytes and \<open>old\<close> pending; and what a part
  of the session has done: \<open>from_client\<close> and \<open>from_server\<close> have been relayed and \<open>trace\<close> was written.
\<close>

definition in_talk :: "'w os \<Rightarrow> nat \<Rightarrow> nat \<Rightarrow> byte list \<Rightarrow> 'w proc \<Rightarrow> bool" where
  "in_talk os counter n old p \<longleftrightarrow> memory_ok 65535 (io_memory p) \<and>
     map_option length (mem_data (io_memory p)) = Some n \<and> holds p old \<and> ready p \<and>
     counter < length (pr_counters p) \<and> can_save os (pr_config p)"

definition talked :: "i32 \<Rightarrow> i32 \<Rightarrow> ('w \<Rightarrow> i32 \<Rightarrow> byte list) \<Rightarrow> ('w \<Rightarrow> i32 \<Rightarrow> byte list) \<Rightarrow>
    byte list \<Rightarrow> byte list \<Rightarrow> ctext \<Rightarrow> 'w proc \<Rightarrow> 'w proc \<Rightarrow> bool" where
  "talked client_fd server_fd sent rcvd from_client from_server trace p q \<longleftrightarrow>
     same_seat p q \<and> cfg_output_sockets (pr_config q) = cfg_output_sockets (pr_config p) \<and>
     sent (io_world q) = (sent (io_world p))(server_fd := sent (io_world p) server_fd @ from_client,
       client_fd := sent (io_world p) client_fd @ from_server) \<and>
     rcvd (io_world q) = (rcvd (io_world p))(client_fd := rcvd (io_world p) client_fd @ from_client,
       server_fd := rcvd (io_world p) server_fd @ from_server) \<and>
     cfg_file (pr_config q) = map_option (\<lambda>file. file @ trace) (cfg_file (pr_config p))"

lemma talked_refl: "client_fd \<noteq> server_fd \<Longrightarrow> talked client_fd server_fd sent rcvd [] [] [] p p"
  by (simp add: talked_def fun_eq_iff option.map_ident)

lemma talked_trans:
  assumes "client_fd \<noteq> server_fd" "talked client_fd server_fd sent rcvd a b t p q"
    "talked client_fd server_fd sent rcvd a' b' t' q r"
  shows "talked client_fd server_fd sent rcvd (a @ a') (b @ b') (t @ t') p r"
proof -
  note facts = assms(2,3) [unfolded talked_def]
  have "sent (io_world r) = (sent (io_world p))(server_fd := sent (io_world p) server_fd @ a @ a',
      client_fd := sent (io_world p) client_fd @ b @ b')"
    "rcvd (io_world r) = (rcvd (io_world p))(client_fd := rcvd (io_world p) client_fd @ a @ a',
      server_fd := rcvd (io_world p) server_fd @ b @ b')"
    using facts assms(1) by (simp_all add: fun_eq_iff)
  moreover have "same_seat p r" using facts same_seat_trans by blast
  ultimately show ?thesis using facts by (simp add: talked_def option.map_comp comp_def)
qed

lemma forwarded_talk:
  assumes "forwarded os sent rcvd from_fd to_fd w bytes tail trace p p'" "in_talk os counter n old p"
  shows "in_talk os counter n tail p'"
proof -
  have "cfg_save_traffic (pr_config p') = cfg_save_traffic (pr_config p)"
    using assms(1) by (intro settings_eqD(3)) (simp add: forwarded_def same_seat_def)
  with assms show ?thesis by (simp add: forwarded_def in_talk_def can_save_def)
qed

lemma waits_short:
  "client_waits t \<Longrightarrow> length t < 2 ^ 62" "server_waits t \<Longrightarrow> length t < 2 ^ 62"
proof -
  have "length t < 2 ^ 62" if "t @ u = frame k b" "fits b" for u k b
  proof -
    have "length t \<le> length (frame k b)" using that(1) by (metis le_add1 length_append)
    with that(2) show ?thesis by (simp add: frame_def fits_def)
  qed
  note short = this
  show "client_waits t \<Longrightarrow> length t < 2 ^ 62"
    using short unfolding client_waits_def enc_fe_def fe_ok_def by fastforce
  show "server_waits t \<Longrightarrow> length t < 2 ^ 62"
    using short unfolding server_waits_def enc_be_def be_ok_def by fastforce
qed

lemma same_text_append: "same_text a t = Some b \<Longrightarrow> same_text (a @ r) t = Some b"
  by (induction a t rule: same_text.induct) (auto split: if_splits)

lemma same_text_long: "length t \<le> length a \<Longrightarrow> \<exists>b. same_text a t = Some b"
  by (induction a t rule: same_text.induct) auto

lemma is_fatal_long:
  assumes "25 \<le> length blk"
  shows "\<exists>f. is_fatal blk = Some f"
proof -
  have "5 \<le> length (drop 6 blk)" "5 \<le> length (drop 20 blk)" using assms by simp_all
  then obtain f g h where "same_text (drop 6 blk) (bs ''FATAL'') = Some f"
    "same_text (drop 6 blk) (bs ''PANIC'') = Some g" "same_text (drop 20 blk) (bs ''0A000'') = Some h"
    using same_text_long [of "bs ''FATAL''" "drop 6 blk"] same_text_long [of "bs ''PANIC''" "drop 6 blk"]
      same_text_long [of "bs ''0A000''" "drop 20 blk"] by (auto simp del: length_drop)
  then show ?thesis by (cases f) (simp_all add: is_fatal_def)
qed

lemma harmless_not_fatal:
  assumes "harmless bytes" "25 \<le> length (bytes @ rest)"
  shows "is_fatal (bytes @ rest) = Some False"
proof -
  from assms(1) have "drop 6 bytes \<noteq> []" by (auto simp: harmless_def bs_def)
  then have "6 \<le> length bytes" by simp
  then have drop6: "drop 6 (bytes @ rest) = drop 6 bytes @ rest" by simp
  have "same_text (drop 6 (bytes @ rest)) (bs ''FATAL'') = Some False"
    "same_text (drop 6 (bytes @ rest)) (bs ''PANIC'') = Some False"
    unfolding drop6 using assms(1) by (auto simp: harmless_def intro: same_text_append)
  moreover have "5 \<le> length (drop 20 (bytes @ rest))" using assms(2) by simp
  then obtain f where "same_text (drop 20 (bytes @ rest)) (bs ''0A000'') = Some f"
    using same_text_long [of "bs ''0A000''" "drop 20 (bytes @ rest)"] by (auto simp del: length_drop drop_append)
  ultimately show ?thesis by (simp add: is_fatal_def)
qed

text \<open>
  What all the callbacks of a session work under: sockets that work and deliver what is to come, and
  fuel that is enough for the loops of \<open>read_message\<close>, \<open>write_message\<close> and the decoders.
\<close>

definition works :: "'w os \<Rightarrow> ('w \<Rightarrow> i32 \<Rightarrow> byte list) \<Rightarrow> ('w \<Rightarrow> i32 \<Rightarrow> byte list) \<Rightarrow> ('w \<Rightarrow> nat) \<Rightarrow> nat \<Rightarrow>
    ('w \<Rightarrow> i32 \<Rightarrow> byte list list) \<Rightarrow> ('w \<Rightarrow> worker_event list list) \<Rightarrow> bool" where
  "works os sent rcvd patience k inbox script \<longleftrightarrow> kernel_ok os sent rcvd \<and>
     kernel_progress os patience k \<and> kernel_steady os \<and> delivers os inbox script"

definition enough :: "nat \<Rightarrow> nat \<Rightarrow> nat \<Rightarrow> arrival \<Rightarrow> bool" where
  "enough fuel n k a \<longleftrightarrow> arrival_messages a < fuel \<and> n * (k + 1) + k + 1 \<le> fuel"

lemma enough_write:
  assumes "enough fuel n k a" "length bytes \<le> n"
  shows "length bytes * (k + 1) + k + 1 \<le> fuel"
proof -
  have "length bytes * (k + 1) \<le> n * (k + 1)" using assms(2) by (rule mult_le_mono1)
  with assms(1) show ?thesis by (simp add: enough_def)
qed

lemma forwarded_talked:
  assumes "forwarded os sent rcvd from_fd to_fd w bytes tail trace p q" "from_fd \<noteq> to_fd"
  shows "talked from_fd to_fd sent rcvd bytes [] trace p q" "talked to_fd from_fd sent rcvd [] bytes trace p q"
  using assms by (auto simp: forwarded_def talked_def fun_eq_iff)

text \<open>
  What the chunks \<open>as\<close> have done when all their callbacks have returned, from \<open>p\<close> to \<open>q\<close>: they were
  relayed and traced and taken from what is to come, and only a goodbye has ended the session.
\<close>

definition left :: "byte list \<Rightarrow> byte list \<Rightarrow> arrival list \<Rightarrow> byte list" where
  "left pc ps as = fst (pending pc ps as) @ snd (pending pc ps as)"

definition exchanged :: "'w os \<Rightarrow> ('w \<Rightarrow> i32 \<Rightarrow> byte list) \<Rightarrow> ('w \<Rightarrow> i32 \<Rightarrow> byte list) \<Rightarrow>
    ('w \<Rightarrow> i32 \<Rightarrow> byte list list) \<Rightarrow> ('w \<Rightarrow> worker_event list list) \<Rightarrow> i32 \<Rightarrow> i32 \<Rightarrow> nat \<Rightarrow> nat \<Rightarrow>
    byte list \<Rightarrow> byte list \<Rightarrow> arrival list \<Rightarrow> 'w proc \<Rightarrow> 'w proc \<Rightarrow> bool" where
  "exchanged os sent rcvd inbox script client_fd server_fd counter n pc ps as p q \<longleftrightarrow>
     in_talk os counter n (left pc ps as) q \<and> length (left pc ps as) < 2 ^ 62 \<and>
     talked client_fd server_fd sent rcvd (concat (client_parts as)) (concat (server_parts as))
       (concat (map (arrival_trace client_fd server_fd (cfg_output_sockets (pr_config p))) as)) p q \<and>
     inbox (io_world p) client_fd = client_parts as @ inbox (io_world q) client_fd \<and>
     inbox (io_world p) server_fd = server_parts as @ inbox (io_world q) server_fd \<and>
     script (io_world q) = script (io_world p) \<and>
     (if goodbye as then \<not> pr_running q \<and> pr_exit_code q = WORKER_SUCCESS
      else pr_running q = pr_running p \<and> pr_exit_code q = pr_exit_code p)"

lemma exchanged_nothing:
  "client_fd \<noteq> server_fd \<Longrightarrow> in_talk os counter n (pc @ ps) p \<Longrightarrow> length (pc @ ps) < 2 ^ 62 \<Longrightarrow>
    exchanged os sent rcvd inbox script client_fd server_fd counter n pc ps [] p p"
  by (simp add: exchanged_def left_def talked_refl)

lemma exchanged_trans:
  assumes "client_fd \<noteq> server_fd" "\<not> goodbye as" "pending pc ps as = (pc', ps')"
    "exchanged os sent rcvd inbox script client_fd server_fd counter n pc ps as p q"
    "exchanged os sent rcvd inbox script client_fd server_fd counter n pc' ps' as' q r"
  shows "exchanged os sent rcvd inbox script client_fd server_fd counter n pc ps (as @ as') p r"
proof -
  have left: "left pc ps (as @ as') = left pc' ps' as'" by (simp add: left_def pending_append assms(3))
  have "cfg_output_sockets (pr_config q) = cfg_output_sockets (pr_config p)"
    using assms(4) by (simp add: exchanged_def talked_def)
  with assms(4,5) have "talked client_fd server_fd sent rcvd (concat (client_parts as)) (concat (server_parts as))
      (concat (map (arrival_trace client_fd server_fd (cfg_output_sockets (pr_config p))) as)) p q"
    "talked client_fd server_fd sent rcvd (concat (client_parts as')) (concat (server_parts as'))
      (concat (map (arrival_trace client_fd server_fd (cfg_output_sockets (pr_config p))) as')) q r"
    by (simp_all add: exchanged_def)
  from talked_trans [OF assms(1) this] have "talked client_fd server_fd sent rcvd
      (concat (client_parts (as @ as'))) (concat (server_parts (as @ as')))
      (concat (map (arrival_trace client_fd server_fd (cfg_output_sockets (pr_config p))) (as @ as'))) p r"
    by simp
  moreover have "if goodbye (as @ as') then \<not> pr_running r \<and> pr_exit_code r = WORKER_SUCCESS
      else pr_running r = pr_running p \<and> pr_exit_code r = pr_exit_code p"
    using assms(2,4,5) by (cases "as' = []") (simp_all add: exchanged_def split: if_splits)
  ultimately show ?thesis using assms(4,5) by (simp add: exchanged_def left)
qed

lemma client_arrives:
  assumes "works os sent rcvd patience k inbox script" "in_talk os counter n (pc @ ps) p"
    "orderly n pc ps [From_client bytes xs tail]" "enough fuel n k (From_client bytes xs tail)"
    "length (pc @ ps) < 2 ^ 62" "client_fd \<noteq> server_fd" "inbox (io_world p) client_fd = bytes # cs"
  shows "\<exists>q. callback os fuel client_fd server_fd counter Client_readable p = Returned q \<and>
    exchanged os sent rcvd inbox script client_fd server_fd counter n pc ps [From_client bytes xs tail] p q"
proof -
  from assms(2) obtain blk where blk: "mem_data (io_memory p) = Some blk" "length blk = n"
    by (auto simp: in_talk_def)
  from assms(1) have os: "kernel_ok os sent rcvd" "kernel_progress os patience k" "kernel_steady os"
    "delivers os inbox script" by (simp_all add: works_def)
  from assms(3) have o: "bytes \<noteq> []" "length bytes \<le> n" "pc @ bytes = concat (map enc_item xs) @ tail"
    "list_all item_fine xs" "client_waits tail" "ps = []" by simp_all
  from delivers_read [OF os(4) assms(7), of "length blk"] o(2) blk(2) obtain w where
    w: "os_read os client_fd (length blk) (io_world p) = (Got bytes, w)"
    "inbox w = (inbox (io_world p))(client_fd := cs)" "script w = script (io_world p)" by auto
  have "length xs < fuel" "length pc < 2 ^ 62" using assms(4,5) by (simp_all add: enough_def)
  from client_forwards [OF os(1-3) _ blk(1) w(1) o(1) _ this(2) _ _ o(3-5) _ this(1) enough_write [OF assms(4) o(2)],
      of counter server_fd] assms(2) o(6) obtain q where
    q: "pipeline_client os fuel client_fd server_fd counter p = Returned (EVBREAK_ONE, q)"
    "forwarded os sent rcvd client_fd server_fd w bytes tail (concat (map (item_trace client_fd server_fd
      (cfg_output_sockets (pr_config p))) xs)) p q"
    "if hd bytes = ch CHR ''X'' then \<not> pr_running q \<and> pr_exit_code q = WORKER_SUCCESS
     else pr_running q = pr_running p \<and> pr_exit_code q = pr_exit_code p"
    unfolding in_talk_def by (auto simp del: of_char_Char)
  have "written os w (io_world q)" using q(2) by (simp add: forwarded_def)
  note delivers_written [OF os(4) this]
  with q(1,3) w forwarded_talk [OF q(2) assms(2)] forwarded_talked(1) [OF q(2) assms(6)] waits_short(1) [OF o(5)]
    assms(6,7) show ?thesis
    by (simp add: callback_def exchanged_def left_def del: of_char_Char)
qed

lemma server_arrives:
  assumes "works os sent rcvd patience k inbox script" "in_talk os counter n (pc @ ps) p"
    "orderly n pc ps [From_server bytes xs tail]" "enough fuel n k (From_server bytes xs tail)"
    "length (pc @ ps) < 2 ^ 62" "client_fd \<noteq> server_fd" "inbox (io_world p) server_fd = bytes # cs" "25 \<le> n"
  shows "\<exists>q. callback os fuel client_fd server_fd counter Server_readable p = Returned q \<and>
    exchanged os sent rcvd inbox script client_fd server_fd counter n pc ps [From_server bytes xs tail] p q"
proof -
  from assms(2) obtain blk where blk: "mem_data (io_memory p) = Some blk" "length blk = n"
    by (auto simp: in_talk_def)
  from assms(1) have os: "kernel_ok os sent rcvd" "kernel_progress os patience k" "kernel_steady os"
    "delivers os inbox script" by (simp_all add: works_def)
  from assms(3) have o: "bytes \<noteq> []" "length bytes \<le> n" "ps @ bytes = concat (map enc_be xs) @ tail"
    "list_all be_ok xs" "server_waits tail" "pc = []" "hd bytes = ch CHR ''E'' \<Longrightarrow> harmless bytes" by simp_all
  from delivers_read [OF os(4) assms(7), of "length blk"] o(2) blk(2) obtain w where
    w: "os_read os server_fd (length blk) (io_world p) = (Got bytes, w)"
    "inbox w = (inbox (io_world p))(server_fd := cs)" "script w = script (io_world p)" by auto
  have long: "25 \<le> length (bytes @ drop (length bytes) blk)" using assms(8) blk(2) o(2) by simp
  from is_fatal_long [OF this] obtain fatal where
    fatal: "is_fatal (bytes @ drop (length bytes) blk) = Some fatal" by blast
  have harmless: "\<not> (hd bytes = ch CHR ''E'' \<and> fatal)"
    using harmless_not_fatal [OF o(7) long] fatal by auto
  have "length xs < fuel" "length ps < 2 ^ 62" using assms(4,5) by (simp_all add: enough_def)
  from server_forwards [OF os(1-3) _ blk(1) w(1) o(1) _ this(2) _ _ o(3-5) _ this(1) enough_write [OF assms(4) o(2)]
      fatal, of counter client_fd] assms(2) harmless o(6) obtain q where
    q: "pipeline_server os fuel client_fd server_fd counter p = Returned (EVBREAK_ONE, q)"
    "forwarded os sent rcvd server_fd client_fd w bytes tail (concat (map (be_trace server_fd client_fd
      (cfg_output_sockets (pr_config p))) xs)) p q"
    "pr_running q = pr_running p \<and> pr_exit_code q = pr_exit_code p"
    unfolding in_talk_def by (auto simp del: of_char_Char)
  have "written os w (io_world q)" using q(2) by (simp add: forwarded_def)
  note delivers_written [OF os(4) this]
  with q(1,3) w forwarded_talk [OF q(2) assms(2)] forwarded_talked(2) [OF q(2)] waits_short(2) [OF o(5)]
    assms(6,7) show ?thesis
    by (simp add: callback_def exchanged_def left_def)
qed

section \<open>The callbacks of a session\<close>

lemma arrival_exchanged:
  assumes "works os sent rcvd patience k inbox script" "client_fd \<noteq> server_fd" "25 \<le> n"
    "in_talk os counter n (pc @ ps) p" "orderly n pc ps [a]" "enough fuel n k a" "length (pc @ ps) < 2 ^ 62"
    "inbox (io_world p) client_fd = client_part a @ cs" "inbox (io_world p) server_fd = server_part a @ ss"
  shows "\<exists>q. callback os fuel client_fd server_fd counter (arrival_event a) p = Returned q \<and>
    exchanged os sent rcvd inbox script client_fd server_fd counter n pc ps [a] p q"
  using client_arrives [OF assms(1,4) _ _ assms(7,2)] server_arrives [OF assms(1,4) _ _ assms(7,2) _ assms(3)]
    assms(5,6,8,9) by (cases a) (simp_all del: orderly.simps)

lemma arrivals_exchanged:
  assumes "works os sent rcvd patience k inbox script" "client_fd \<noteq> server_fd" "25 \<le> n"
  shows "in_talk os counter n (pc @ ps) p \<Longrightarrow> orderly n pc ps as \<Longrightarrow> list_all (enough fuel n k) as \<Longrightarrow>
    length (pc @ ps) < 2 ^ 62 \<Longrightarrow>
    inbox (io_world p) client_fd = client_parts as @ cs \<Longrightarrow> inbox (io_world p) server_fd = server_parts as @ ss \<Longrightarrow>
    \<exists>q. callbacks os fuel client_fd server_fd counter (map arrival_event as) p = Returned q \<and>
      exchanged os sent rcvd inbox script client_fd server_fd counter n pc ps as p q"
proof (induction as arbitrary: p pc ps)
  case Nil
  with exchanged_nothing [OF assms(2)] show ?case by auto
next
  case (Cons a as)
  obtain pc' ps' where next_: "pending pc ps [a] = (pc', ps')" by fastforce
  from orderly_append [of n pc ps "[a]" as] Cons.prems(2) next_ have
    o: "orderly n pc ps [a]" "orderly n pc' ps' as" "goodbye [a] \<Longrightarrow> as = []" by auto
  from arrival_exchanged [OF assms Cons.prems(1) o(1) _ Cons.prems(4)] Cons.prems(3,5,6) obtain r where
    r: "callback os fuel client_fd server_fd counter (arrival_event a) p = Returned r"
    "exchanged os sent rcvd inbox script client_fd server_fd counter n pc ps [a] p r" by fastforce
  show ?case
  proof (cases "as = []")
    case False
    then have "\<not> goodbye [a]" using o(3) by blast
    moreover from Cons.IH [of pc' ps' r] r(2) o(2) Cons.prems(3,5,6) next_ obtain q where
      "callbacks os fuel client_fd server_fd counter (map arrival_event as) r = Returned q"
      "exchanged os sent rcvd inbox script client_fd server_fd counter n pc' ps' as r q"
      by (auto simp: exchanged_def left_def)
    ultimately show ?thesis using r(1) exchanged_trans [OF assms(2) _ next_ r(2)] by fastforce
  qed (use r in simp)
qed

section \<open>The session\<close>

lemma talked_world:
  "sent w = sent (io_world p) \<Longrightarrow> rcvd w = rcvd (io_world p) \<Longrightarrow>
    talked client_fd server_fd sent rcvd a b t (p\<lparr>io_world := w\<rparr>) q = talked client_fd server_fd sent rcvd a b t p q"
  by (simp add: talked_def same_seat_def)

lemma in_talk_world: "in_talk os counter n old (p\<lparr>io_world := w\<rparr>) = in_talk os counter n old p"
  by (simp add: in_talk_def frame_simps)

text \<open>One iteration of the loop.\<close>

lemma batch_exchanged:
  assumes "works os sent rcvd patience k inbox script" "client_fd \<noteq> server_fd" "25 \<le> n"
    "follows poll sent rcvd inbox script" "in_talk os counter n (pc @ ps) p" "orderly n pc ps as"
    "list_all (enough fuel n k) as" "length (pc @ ps) < 2 ^ 62"
    "inbox (io_world p) client_fd = client_parts as @ cs" "inbox (io_world p) server_fd = server_parts as @ ss"
    "script (io_world p) = map arrival_event as # later" "pr_running p"
  shows "\<exists>w q. worker_step os poll fuel client_fd server_fd counter p = Again q \<and>
    sent w = sent (io_world p) \<and> rcvd w = rcvd (io_world p) \<and> script w = later \<and> inbox w = inbox (io_world p) \<and>
    exchanged os sent rcvd inbox script client_fd server_fd counter n pc ps as (p\<lparr>io_world := w\<rparr>) q"
proof -
  from assms(4,11) obtain w where w: "poll (io_world p) = (map arrival_event as, w)" "script w = later"
    "inbox w = inbox (io_world p)" "sent w = sent (io_world p)" "rcvd w = rcvd (io_world p)"
    unfolding follows_def by blast
  from arrivals_exchanged [OF assms(1-3), of counter pc ps "p\<lparr>io_world := w\<rparr>" as fuel cs ss] assms(5-10) w(3)
  obtain q where "callbacks os fuel client_fd server_fd counter (map arrival_event as) (p\<lparr>io_world := w\<rparr>) = Returned q"
    "exchanged os sent rcvd inbox script client_fd server_fd counter n pc ps as (p\<lparr>io_world := w\<rparr>) q"
    by (auto simp: in_talk_world)
  with w assms(12) show ?thesis by (intro exI [of _ w] exI [of _ q]) (simp add: worker_step_def go_on_def)
qed

text \<open>
  A session that is over: all of \<open>as\<close> has been relayed and traced, and the process has left its loop
  with \<open>WORKER_SUCCESS\<close>.
\<close>

definition session_over :: "'w os \<Rightarrow> ('w \<Rightarrow> i32 \<Rightarrow> byte list) \<Rightarrow> ('w \<Rightarrow> i32 \<Rightarrow> byte list) \<Rightarrow> i32 \<Rightarrow> i32 \<Rightarrow>
    nat \<Rightarrow> nat \<Rightarrow> byte list \<Rightarrow> byte list \<Rightarrow> arrival list \<Rightarrow> 'w proc \<Rightarrow> 'w proc \<Rightarrow> bool" where
  "session_over os sent rcvd client_fd server_fd counter n pc ps as p q \<longleftrightarrow>
     in_talk os counter n (left pc ps as) q \<and> \<not> pr_running q \<and> pr_exit_code q = WORKER_SUCCESS \<and>
     talked client_fd server_fd sent rcvd (concat (client_parts as)) (concat (server_parts as))
       (concat (map (arrival_trace client_fd server_fd (cfg_output_sockets (pr_config p))) as)) p q"

lemma exchanged_over:
  assumes "exchanged os sent rcvd inbox script client_fd server_fd counter n pc ps as (p\<lparr>io_world := w\<rparr>) r"
    "sent w = sent (io_world p)" "rcvd w = rcvd (io_world p)" "goodbye as"
  shows "session_over os sent rcvd client_fd server_fd counter n pc ps as p r"
  using assms by (simp add: exchanged_def session_over_def talked_world)

lemma exchanged_then_over:
  assumes "client_fd \<noteq> server_fd" "pending pc ps as = (pc', ps')"
    "exchanged os sent rcvd inbox script client_fd server_fd counter n pc ps as (p\<lparr>io_world := w\<rparr>) r"
    "sent w = sent (io_world p)" "rcvd w = rcvd (io_world p)"
    "session_over os sent rcvd client_fd server_fd counter n pc' ps' as' r q"
  shows "session_over os sent rcvd client_fd server_fd counter n pc ps (as @ as') p q"
proof -
  have t: "talked client_fd server_fd sent rcvd (concat (client_parts as)) (concat (server_parts as))
      (concat (map (arrival_trace client_fd server_fd (cfg_output_sockets (pr_config p))) as)) p r"
    using assms(3-5) by (simp add: exchanged_def talked_world)
  then have sockets: "cfg_output_sockets (pr_config r) = cfg_output_sockets (pr_config p)"
    by (simp add: talked_def)
  have "talked client_fd server_fd sent rcvd (concat (client_parts as')) (concat (server_parts as'))
      (concat (map (arrival_trace client_fd server_fd (cfg_output_sockets (pr_config p))) as')) r q"
    using assms(6) by (simp add: session_over_def sockets)
  from talked_trans [OF assms(1) t this] assms(2,6) show ?thesis
    by (simp add: session_over_def left_def pending_append)
qed

lemma session_over_stops:
  "session_over os sent rcvd client_fd server_fd counter n pc ps as p q \<Longrightarrow>
    worker_step os' poll fuel client_fd' server_fd' counter' q = Stop (Returned q)"
  by (simp add: session_over_def worker_step_def)

lemma loop_exchanged:
  assumes "works os sent rcvd patience k inbox script" "client_fd \<noteq> server_fd" "25 \<le> n"
    "follows poll sent rcvd inbox script"
  shows "in_talk os counter n (pc @ ps) p \<Longrightarrow> orderly n pc ps (concat ass) \<Longrightarrow>
    list_all (enough fuel n k) (concat ass) \<Longrightarrow> length (pc @ ps) < 2 ^ 62 \<Longrightarrow>
    inbox (io_world p) client_fd = client_parts (concat ass) @ cs \<Longrightarrow>
    inbox (io_world p) server_fd = server_parts (concat ass) @ ss \<Longrightarrow>
    script (io_world p) = map (map arrival_event) ass @ later \<Longrightarrow> pr_running p \<Longrightarrow> goodbye (concat ass) \<Longrightarrow>
    length ass < m \<Longrightarrow>
    \<exists>q. run_loop (worker_step os poll fuel client_fd server_fd counter) m p = Returned q \<and>
      session_over os sent rcvd client_fd server_fd counter n pc ps (concat ass) p q"
proof (induction ass arbitrary: p pc ps m)
  case (Cons as ass)
  obtain pc' ps' where next_: "pending pc ps as = (pc', ps')" by fastforce
  from orderly_append [of n pc ps as "concat ass"] Cons.prems(2) next_ have
    o: "orderly n pc ps as" "orderly n pc' ps' (concat ass)" "goodbye as \<Longrightarrow> concat ass = []" by auto
  from batch_exchanged [OF assms Cons.prems(1) o(1) _ Cons.prems(4)] Cons.prems(3,5-8) obtain w r where
    r: "worker_step os poll fuel client_fd server_fd counter p = Again r"
    "sent w = sent (io_world p)" "rcvd w = rcvd (io_world p)" "script w = map (map arrival_event) ass @ later"
    "inbox w = inbox (io_world p)"
    "exchanged os sent rcvd inbox script client_fd server_fd counter n pc ps as (p\<lparr>io_world := w\<rparr>) r" by fastforce
  from Cons.prems(10) obtain m' where m: "m = Suc m'" "length ass < m'" by (cases m) auto
  show ?case
  proof (cases "concat ass = []")
    case True
    with Cons.prems(9) have "goodbye as" by simp
    from exchanged_over [OF r(6,2,3) this] have over:
      "session_over os sent rcvd client_fd server_fd counter n pc ps as p r" .
    moreover obtain m'' where "m' = Suc m''" using m(2) by (cases m') auto
    ultimately show ?thesis using r(1) m(1) session_over_stops [OF over]
      by (intro exI [of _ r]) (simp add: run_loop_def True del: concat_eq_Nil_conv)
  next
    case False
    then have "goodbye (concat ass)" "\<not> goodbye as" using Cons.prems(9) o(3) by auto
    with Cons.IH [of pc' ps' r m'] r o(2) Cons.prems(3,5,6,8) next_ m(2) obtain q where
      "run_loop (worker_step os poll fuel client_fd server_fd counter) m' r = Returned q"
      "session_over os sent rcvd client_fd server_fd counter n pc' ps' (concat ass) r q"
      by (auto simp: exchanged_def left_def)
    with exchanged_then_over [OF assms(2) next_ r(6,2,3)] r(1) m(1) show ?thesis
      by (auto simp: run_loop_def)
  qed
qed simp

end
