(* ===== verification/Orderly.thy ===== *)
theory Orderly
  imports Conversation Serving Faults
begin

text \<open>
  A worker from its start to its exit (\<open>pgprtdbg_worker\<close> in \<open>src/src/libpgprtdbg/worker.c\<close>) whose files
  can be opened, whose server can be reached and whose peers take turns until the client says goodbye.
\<close>

section \<open>A network that does what it is asked\<close>

text \<open>The call changes neither the streams nor what is to come.\<close>

definition unmoved :: "('w \<Rightarrow> i32 \<Rightarrow> byte list) \<Rightarrow> ('w \<Rightarrow> i32 \<Rightarrow> byte list) \<Rightarrow>
    ('w \<Rightarrow> i32 \<Rightarrow> byte list list) \<Rightarrow> ('w \<Rightarrow> worker_event list list) \<Rightarrow> 'w \<Rightarrow> 'w \<Rightarrow> bool" where
  "unmoved sent rcvd inbox script w w' \<longleftrightarrow>
     sent w' = sent w \<and> rcvd w' = rcvd w \<and> inbox w' = inbox w \<and> script w' = script w"

lemma unmoved_refl [simp]: "unmoved sent rcvd inbox script w w"
  and unmoved_trans: "unmoved sent rcvd inbox script w w' \<Longrightarrow> unmoved sent rcvd inbox script w' w'' \<Longrightarrow>
    unmoved sent rcvd inbox script w w''"
  by (simp_all add: unmoved_def)

text \<open>
  The name of the server is known, its socket is \<open>server_fd\<close>, the options can be set and the server
  accepts; whether \<open>close\<close> succeeds does not matter.
\<close>

definition obliging :: "'w net \<Rightarrow> i32 \<Rightarrow> ('w \<Rightarrow> 'w \<Rightarrow> bool) \<Rightarrow> bool" where
  "obliging net server_fd same \<longleftrightarrow>
     (\<forall>h s w. \<exists>a as w'. net_getaddrinfo net h s False w = (Inr (a # as), w') \<and> same w w') \<and>
     (\<forall>a w. \<exists>w'. net_socket net (Some a) w = (Inr server_fd, w') \<and> same w w') \<and>
     (\<forall>fd opt v w. \<exists>w'. net_setsockopt net fd opt v w = (Inr (), w') \<and> same w w') \<and>
     (\<forall>fd a w. \<exists>w'. net_connect net fd a w = (Inr (), w') \<and> same w w') \<and>
     (\<forall>fd w. \<exists>r w'. net_close net fd w = (r, w') \<and> same w w')"

lemma set_options_obliged:
  assumes "obliging net server_fd (unmoved sent rcvd inbox script)"
  shows "\<exists>w. set_options os net fd opts p rest = rest (p\<lparr>io_world := w\<rparr>) \<and>
    unmoved sent rcvd inbox script (io_world p) w"
proof (induction opts arbitrary: p)
  case Nil
  then show ?case by (intro exI [of _ "io_world p"]) simp
next
  case (Cons x opts)
  obtain opt v what where x: "x = (opt, v, what)" by (cases x)
  from assms obtain w where w: "net_setsockopt net fd opt v (io_world p) = (Inr (), w)"
    "unmoved sent rcvd inbox script (io_world p) w" unfolding obliging_def by meson
  from Cons.IH [of "p\<lparr>io_world := w\<rparr>"] w show ?case
    by (auto simp: x call_def intro: unmoved_trans [OF w(2)])
qed

lemma connect_obliged:
  assumes "obliging net server_fd (unmoved sent rcvd inbox script)" "sport port = Some service"
  shows "\<exists>w. connect os net hostname port fd p = Returned (0, server_fd, p\<lparr>io_world := w\<rparr>) \<and>
    unmoved sent rcvd inbox script (io_world p) w"
proof -
  let ?same = "unmoved sent rcvd inbox script"
  from assms(1) obtain a as w1 where
    w1: "net_getaddrinfo net hostname service False (io_world p) = (Inr (a # as), w1)" "?same (io_world p) w1"
    unfolding obliging_def by meson
  from assms(1) obtain w2 where w2: "net_socket net (Some a) w1 = (Inr server_fd, w2)" "?same w1 w2"
    unfolding obliging_def by meson
  let ?rest = "\<lambda>p. case call (net_connect net server_fd a) p of
      (None, p) \<Rightarrow> give_up os net [] server_fd p | (Some _, p) \<Rightarrow> Returned (0, server_fd, p)"
  from set_options_obliged [OF assms(1), of os server_fd "connect_options (pr_config p)" "p\<lparr>io_world := w2\<rparr>" ?rest]
  obtain w3 where w3: "set_options os net server_fd (connect_options (pr_config p)) (p\<lparr>io_world := w2\<rparr>) ?rest =
      ?rest (p\<lparr>io_world := w3\<rparr>)" "?same w2 w3" by auto
  from assms(1) obtain w4 where w4: "net_connect net server_fd a w3 = (Inr (), w4)" "?same w3 w4"
    unfolding obliging_def by meson
  have "connect os net hostname port fd p = Returned (0, server_fd, p\<lparr>io_world := w4\<rparr>)"
    using assms(2) w1(1) w2(1) w3(1) w4(1) by (simp add: connect_def call_def)
  moreover have "?same (io_world p) w4" using w1(2) w2(2) w3(2) w4(2) by (simp add: unmoved_def)
  ultimately show ?thesis by blast
qed

lemma disconnect_obliged:
  assumes "obliging net server_fd (unmoved sent rcvd inbox script)"
  shows "\<exists>w e. snd (disconnect net fd p) = p\<lparr>io_world := w, io_errno := e\<rparr> \<and>
    unmoved sent rcvd inbox script (io_world p) w"
proof (cases "fd = - 1")
  case True
  then show ?thesis
    by (intro exI [of _ "io_world p"] exI [of _ "io_errno p"]) (simp add: disconnect_def)
next
  case False
  from assms obtain r w where w: "net_close net fd (io_world p) = (r, w)"
    "unmoved sent rcvd inbox script (io_world p) w" unfolding obliging_def by meson
  show ?thesis
  proof (cases r)
    case (Inl e)
    with w False show ?thesis by (intro exI [of _ w] exI [of _ e]) (simp add: disconnect_def call_def)
  next
    case (Inr u)
    with w False show ?thesis
      by (intro exI [of _ w] exI [of _ "io_errno p"]) (simp add: disconnect_def call_def)
  qed
qed

section \<open>Around the session\<close>

text \<open>What logging and connecting leave as it is.\<close>

definition settled :: "'w proc \<Rightarrow> 'w proc \<Rightarrow> bool" where
  "settled p q \<longleftrightarrow> same_seat p q \<and> cfg_output_sockets (pr_config q) = cfg_output_sockets (pr_config p) \<and>
     cfg_file (pr_config q) = cfg_file (pr_config p) \<and> pr_running q = pr_running p \<and> pr_exit_code q = pr_exit_code p"

lemma only_net_settled: "only_net p q \<Longrightarrow> settled p q"
  by (auto simp: only_net_def settled_def same_seat_def)

lemma settled_trans: "settled p q \<Longrightarrow> settled q r \<Longrightarrow> settled p r"
  using same_seat_trans by (auto simp: settled_def)

lemma only_net_in_talk: "only_net p q \<Longrightarrow> in_talk os counter n old q = in_talk os counter n old p"
  using only_net_keeps [of p q] by (auto simp: in_talk_def can_save_def)

lemma in_talk_loggable: "in_talk os counter n old p \<Longrightarrow> loggable p"
  by (simp add: in_talk_def ready_def loggable_def)

lemma log_client_gives:
  assumes "loggable p"
  shows "gives (\<lambda>q. only_net p q \<and> io_world q = io_world p) (log_client what fd p)"
proof -
  have "loggable (lock_log p)" using assms by (simp add: loggable_def lock_log_def)
  then show ?thesis
    unfolding log_client_def
    by (rule log_then [OF _ _ only_net_lock(1)])
      (auto simp: lock_log_def unlock_log_def intro: only_net_trans [OF _ only_net_lock(2), unfolded unlock_log_def])
qed

lemma marker_saved:
  assumes "opens_files os"
  shows "\<exists>files. save_begin_marker os p = Returned (p\<lparr>pr_files := files\<rparr>)"
    "\<exists>files. save_end_marker os p = Returned (p\<lparr>pr_files := files\<rparr>)"
  using assms by (auto simp: opens_files_def save_begin_marker_def save_end_marker_def append_file_def)

lemma memory_init_size:
  assumes "sint (cfg_buffer_size config) = int n" "mem_data m = None"
  shows "\<exists>m'. memory_init config m = Some m' \<and> memory_ok n m' \<and> map_option length (mem_data m') = Some n"
proof -
  have "int n < 2 ^ 31" using sint_lt [of "cfg_buffer_size config"] assms(1) by simp
  then have "unat (word_of_nat n :: size_t) = n" by (simp add: unat_of_nat)
  with assms show ?thesis by (simp add: memory_init_def memory_ok_def zero_message_def)
qed

lemma in_talk_upd [simp]:
  "in_talk os counter n old (p\<lparr>pr_files := files\<rparr>) = in_talk os counter n old p"
  "in_talk os counter n old (add_active m p) = in_talk os counter n old p"
  "in_talk os counter n old (p\<lparr>io_world := w\<rparr>) = in_talk os counter n old p"
  "settled p (q\<lparr>pr_files := files\<rparr>) = settled p q" "settled p (q\<lparr>io_world := w\<rparr>) = settled p q"
  by (simp_all add: in_talk_def frame_simps add_active_def ready_def can_trace_def can_save_def holds_def
      settled_def same_seat_def)

text \<open>The start: the log is open, the buffer is there, and the process is registered.\<close>

lemma worker_starts:
  assumes "opens_files os" "sint (cfg_buffer_size (pr_config p)) = int n" "n \<le> 65535"
    "mem_data (io_memory p) = None" "holds p []" "can_trace (pr_config p)" "counter < length (pr_counters p)"
  shows "\<exists>q. worker_start os client_fd p = Returned q \<and> in_talk os counter n [] q \<and>
    settled (set_pids (replace_first 0 (pr_pid p)) p) q \<and> io_world q = io_world p"
proof -
  from memory_init_size [OF assms(2,4)] obtain m where
    m: "memory_init (pr_config p) (io_memory p) = Some m" "memory_ok n m" "map_option length (mem_data m) = Some n"
    by blast
  have mem: "memory_ok 65535 m" using m(2) assms(3) by (auto simp: memory_ok_def)
  let ?p = "open_log os p"
  let ?r = "set_pids (replace_first 0 (pr_pid p)) (?p\<lparr>io_memory := m\<rparr>)"
  have log: "loggable ?r"
    using assms(1) by (simp add: opens_files_def open_log_def start_logging_def loggable_def can_log_def set_pids_def)
  have talk: "in_talk os counter n [] ?r"
    using assms(1,5-7) m mem log
    by (simp add: in_talk_def set_pids_def open_log_def opens_files_def can_save_def ready_def loggable_def
        can_trace_def holds_def)
  have settled: "settled (set_pids (replace_first 0 (pr_pid p)) p) ?r"
    by (simp add: settled_def same_seat_def set_pids_def open_log_def)
  from log_client_gives [OF log, of "''Start''" client_fd] obtain s where
    s: "log_client ''Start'' client_fd ?r = Returned s" "only_net ?r s" "io_world s = io_world ?r"
    by (auto simp: gives_def)
  have start: "worker_start os client_fd p =
      (if cfg_save_traffic (pr_config s) then save_begin_marker os s else Returned s)"
    using m(1) s(1) by (simp add: worker_start_def Let_def open_log_def)
  have world: "io_world s = io_world p" using s(3) by (simp add: set_pids_def open_log_def)
  note facts = only_net_in_talk [OF s(2)] talk settled_trans [OF settled only_net_settled [OF s(2)]] world
  from marker_saved(1) [OF assms(1), of s] obtain files where
    "save_begin_marker os s = Returned (s\<lparr>pr_files := files\<rparr>)" by blast
  with facts show ?thesis by (simp add: start)
qed

text \<open>The end: everything that was taken is given back.\<close>

lemma worker_ends:
  assumes "opens_files os" "obliging net fd (unmoved sent rcvd inbox script)" "loggable p"
  shows "\<exists>q. worker_end os net client_fd server_fd connected p = Exited (pr_exit_code p) q \<and>
    unmoved sent rcvd inbox script (io_world p) (io_world q) \<and> cfg_file (pr_config q) = cfg_file (pr_config p)"
proof -
  let ?same = "unmoved sent rcvd inbox script"
  from log_client_gives [OF assms(3), of "''Stop''" client_fd] obtain s where
    s: "log_client ''Stop'' client_fd p = Returned s" "only_net p s" "io_world s = io_world p"
    by (auto simp: gives_def)
  from marker_saved(2) [OF assms(1), of s] obtain files where
    files: "save_end_marker os s = Returned (s\<lparr>pr_files := files\<rparr>)" by blast
  define t where "t = (if cfg_save_traffic (pr_config s) then s\<lparr>pr_files := files\<rparr> else s)"
  have marker: "(if cfg_save_traffic (pr_config s) then save_end_marker os s else Returned s) = Returned t"
    by (simp add: t_def files)
  have t: "loggable t" "cfg_file (pr_config t) = cfg_file (pr_config p)" "pr_exit_code t = pr_exit_code p"
    "io_world t = io_world p" "pr_pid t = pr_pid p"
    using only_net_settled [OF s(2)] only_net_keeps(1) [OF s(2)] assms(3) s(3)
    by (simp_all add: t_def settled_def same_seat_def loggable_def)
  from disconnect_obliged [OF assms(2)] obtain w1 e1 where
    w1: "snd (disconnect net client_fd t) = t\<lparr>io_world := w1, io_errno := e1\<rparr>" "?same (io_world t) w1" by blast
  from disconnect_obliged [OF assms(2), of server_fd "t\<lparr>io_world := w1, io_errno := e1\<rparr>"] obtain w2 e2 where
    w2: "snd (disconnect net server_fd (t\<lparr>io_world := w1, io_errno := e1\<rparr>)) =
      t\<lparr>io_world := w2, io_errno := e2\<rparr>" "?same w1 w2" by auto
  have "worker_end os net client_fd server_fd connected p =
      (let p = set_pids (replace_first (pr_pid p) 0) (t\<lparr>io_world := w2, io_errno := e2\<rparr>);
           p = (if connected then add_active (- 1) p else p);
           p = p\<lparr>io_memory := memory_destroy (io_memory p)\<rparr>
       in and_then (defined (stop_logging (pr_config p) (pr_logs p))) (\<lambda>lg.
         Exited (pr_exit_code p) (p\<lparr>pr_logs := lg\<rparr>)))"
    unfolding worker_end_def s(1) and_then.simps(1) marker w1(1) Let_def w2(1) by (simp add: t(5))
  moreover have "?same (io_world p) w2" using w1(2) w2(2) t(4) by (simp add: unmoved_def)
  moreover have "stop_logging (pr_config t) (pr_logs t) \<noteq> None"
    using t(1) by (auto simp: stop_logging_def loggable_def can_log_def split: option.split)
  then obtain lg where "stop_logging (pr_config t) (pr_logs t) = Some lg" by blast
  ultimately show ?thesis
    using t by (auto simp: Let_def set_pids_def add_active_def stop_logging_def split: option.splits)
qed

text \<open>The session itself, between connecting and the end.\<close>

lemma worker_session_over:
  assumes "works os sent rcvd patience k inbox script" "follows poll sent rcvd inbox script"
    "client_fd \<noteq> server_fd" "25 \<le> n" "in_talk os counter n [] p" "pr_running p"
    "orderly n [] [] (concat ass)" "goodbye (concat ass)" "list_all (enough fuel n k) (concat ass)" "length ass < fuel"
    "inbox (io_world p) client_fd = client_parts (concat ass) @ cs"
    "inbox (io_world p) server_fd = server_parts (concat ass) @ ss"
    "script (io_world p) = map (map arrival_event) ass @ later"
  shows "\<exists>q. worker_session os ev poll fuel client_fd server_fd counter p = Returned q \<and>
    session_over os sent rcvd client_fd server_fd counter n [] [] (concat ass) (add_active 1 p) q"
proof -
  let ?p = "add_active 1 p"
  have log: "loggable ?p" using in_talk_loggable [of os counter n "[]" ?p] assms(5) by simp
  from libev_gives [OF log, of ev "Some (cstr (cfg_libev (pr_config ?p)))"] obtain v r where
    r: "libev ev (Some (cstr (cfg_libev (pr_config ?p)))) ?p = Returned (v, r)" "only_net ?p r" "io_world r = io_world p"
    by (auto simp: gives_def add_active_def)
  have "in_talk os counter n ([] @ []) r" using only_net_in_talk [OF r(2)] assms(5) by simp
  moreover have run: "pr_running r" using only_net_settled [OF r(2)] assms(6) by (simp add: settled_def add_active_def)
  ultimately obtain q where
    q: "run_loop (worker_step os poll fuel client_fd server_fd counter) fuel r = Returned q"
    "session_over os sent rcvd client_fd server_fd counter n [] [] (concat ass) r q"
    using loop_exchanged [OF assms(1,3,4,2), of counter "[]" "[]" r ass fuel cs ss later fuel] assms(7-13) r(3) by auto
  have "session_over os sent rcvd client_fd server_fd counter n [] [] (concat ass) ?p q"
    using q(2) only_net_settled [OF r(2)] r(3) same_seat_trans
    by (auto simp: session_over_def talked_def settled_def add_active_def)
  with r(1) q(1) show ?thesis by (simp add: worker_session_def)
qed

section \<open>The whole worker\<close>

lemma settings_server: "settings c = settings d \<Longrightarrow> cfg_server c = cfg_server d"
  by (cases c; cases d) (simp add: settings_def)

text \<open>What has been given back when a process ended that was registered and counted.\<close>

lemma ends_given_back:
  assumes "same_seat (add_active 1 (set_pids (replace_first 0 (pr_pid p)) p)) q"
    "pr_pid p \<notin> set (cfg_pids (pr_config p))"
    "worker_end os net client_fd server_fd True q = Exited c r"
  shows "cfg_pids (pr_config r) = cfg_pids (pr_config p) \<and>
    cfg_active_connections (pr_config r) = cfg_active_connections (pr_config p)"
proof -
  note q = same_seatD [OF assms(1)]
  have "left_behind q True r"
    using worker_end_keeps [of q True os net client_fd server_fd] by (simp add: assms(3))
  with q assms(2) show ?thesis
    by (simp add: left_behind_def set_pids_def add_active_def replace_back)
qed

text \<open>
  C2. A worker whose files can be opened and whose server answers serves an orderly exchange to its
  end: whatever the number of chunks and however they cut the messages, the process exits with status
  0, the server has got exactly the bytes of the client and the client those of the server, the trace
  file has got exactly one line for each message that has a kind, in the order in which they were completed
  (the messages a session begins with have no kind: they are relayed and logged, but the code writes no
  trace line for them), and the entry of the process and its part of the active connections are given
  back. Nothing can be undefined on the way and no loop goes on forever.
\<close>

theorem orderly_worker:
  assumes "works os sent rcvd patience k inbox script" "follows poll sent rcvd inbox script"
    "obliging net server_fd (unmoved sent rcvd inbox script)" "opens_files os" "client_fd \<noteq> server_fd"
    "sport (srv_port (cfg_server (pr_config p))) = Some service"
    "sint (cfg_buffer_size (pr_config p)) = int n" "25 \<le> n" "n \<le> 65535"
    "mem_data (io_memory p) = None" "holds p []" "can_trace (pr_config p)" "counter < length (pr_counters p)"
    "pr_pid p \<notin> set (cfg_pids (pr_config p))"
    "orderly n [] [] (concat ass)" "goodbye (concat ass)" "list_all (enough fuel n k) (concat ass)" "length ass < fuel"
    "inbox (io_world p) client_fd = client_parts (concat ass) @ cs"
    "inbox (io_world p) server_fd = server_parts (concat ass) @ ss"
    "script (io_world p) = map (map arrival_event) ass @ later"
  shows "\<exists>q. worker os net ev poll fuel client_fd counter p = Exited WORKER_SUCCESS q \<and>
    sent (io_world q) = (sent (io_world p))
      (server_fd := sent (io_world p) server_fd @ concat (client_parts (concat ass)),
       client_fd := sent (io_world p) client_fd @ concat (server_parts (concat ass))) \<and>
    cfg_file (pr_config q) = map_option (\<lambda>file. file @ concat (map (arrival_trace client_fd server_fd
      (cfg_output_sockets (pr_config p))) (concat ass))) (cfg_file (pr_config p)) \<and>
    cfg_pids (pr_config q) = cfg_pids (pr_config p) \<and>
    cfg_active_connections (pr_config q) = cfg_active_connections (pr_config p)"
proof -
  let ?p = "p\<lparr>pr_running := True, pr_exit_code := WORKER_FAILURE\<rparr>"
  let ?r = "set_pids (replace_first 0 (pr_pid p)) p"
  have "holds ?p []" using assms(11) by (simp add: frame_simps)
  with worker_starts [OF assms(4), of ?p n counter client_fd] assms(7,9,10,12,13) obtain q1 where
    q1: "worker_start os client_fd ?p = Returned q1" "in_talk os counter n [] q1"
    "settled (set_pids (replace_first 0 (pr_pid p)) ?p) q1" "io_world q1 = io_world p" by auto
  have seat: "same_seat ?r q1" "cfg_output_sockets (pr_config q1) = cfg_output_sockets (pr_config p)"
    "cfg_file (pr_config q1) = cfg_file (pr_config p)" "pr_running q1"
    using q1(3) by (simp_all add: settled_def same_seat_def set_pids_def)
  have "cfg_server (pr_config q1) = cfg_server (pr_config p)"
    using seat(1) settings_server [of "pr_config q1" "pr_config ?r"] by (simp add: same_seat_def set_pids_def)
  with connect_obliged [OF assms(3,6)] obtain w where
    w: "connect os net (cstr (srv_host (cfg_server (pr_config q1)))) (srv_port (cfg_server (pr_config q1))) (- 1) q1 =
      Returned (0, server_fd, q1\<lparr>io_world := w\<rparr>)" "unmoved sent rcvd inbox script (io_world p) w"
    using q1(4) by metis
  from worker_session_over [OF assms(1,2,5,8), of counter "q1\<lparr>io_world := w\<rparr>" ass fuel cs ss later ev] obtain q3 where
    q3: "worker_session os ev poll fuel client_fd server_fd counter (q1\<lparr>io_world := w\<rparr>) = Returned q3"
    "session_over os sent rcvd client_fd server_fd counter n [] [] (concat ass) (add_active 1 (q1\<lparr>io_world := w\<rparr>)) q3"
    using q1(2) seat(4) assms(15-21) w(2) by (auto simp: unmoved_def)
  then have "loggable q3" "pr_exit_code q3 = WORKER_SUCCESS"
    using in_talk_loggable by (auto simp: session_over_def)
  with worker_ends [OF assms(4,3), of q3 client_fd server_fd True] obtain q where
    q: "worker_end os net client_fd server_fd True q3 = Exited WORKER_SUCCESS q"
    "unmoved sent rcvd inbox script (io_world q3) (io_world q)" "cfg_file (pr_config q) = cfg_file (pr_config q3)"
    by metis
  have "same_seat (add_active 1 ?r) (add_active 1 (q1\<lparr>io_world := w\<rparr>))"
    using seat(1) by (intro same_seat_active) simp
  then have "same_seat (add_active 1 ?r) q3"
    using q3(2) same_seat_trans by (auto simp: session_over_def talked_def)
  from ends_given_back [OF this assms(14) q(1)] q3 q w q1(1) seat show ?thesis
    by (simp add: worker_def session_over_def talked_def unmoved_def add_active_def)
qed

text \<open>
  For the witness: a world of the sockets and of the callbacks to come, and a network without failures.
  The client sends its startup message and then a query in two pieces, the server answers, and the
  client says goodbye.
\<close>

type_synonym scripted = "wire \<times> worker_event list list"

definition scripted_poll :: "scripted poll" where
  "scripted_poll = (\<lambda>(w, s). case s of [] \<Rightarrow> ([], (w, [])) | es # ess \<Rightarrow> (es, (w, ess)))"

definition scripted_net :: "scripted net" where
  "scripted_net = \<lparr>net_getaddrinfo = (\<lambda>_ _ _ w. (Inr [Resolved 1], w)), net_gai_strerror = (\<lambda>_. []),
     net_getifaddrs = (\<lambda>w. (Inr [], w)), net_socket = (\<lambda>_ w. (Inr 8, w)),
     net_setsockopt = (\<lambda>_ _ _ w. (Inr (), w)), net_connect = (\<lambda>_ _ w. (Inr (), w)),
     net_bind = (\<lambda>_ _ w. (Inr (), w)), net_listen = (\<lambda>_ _ w. (Inr (), w)), net_close = (\<lambda>_ w. (Inr (), w)),
     net_accept = (\<lambda>_ w. (Inl 1, w)), net_stat = (\<lambda>_ w. (Inl 1, w)), net_mkdir = (\<lambda>_ w. (Inl 1, w)),
     net_unlink = (\<lambda>_ w. (Inl 1, w))\<rparr>"

abbreviation scripted_inbox :: "scripted \<Rightarrow> i32 \<Rightarrow> byte list list" where
  "scripted_inbox \<equiv> wire_in \<circ> fst"

lemma scripted_works:
  "works (host_os wire_os) (wire_out \<circ> fst) (wire_seen \<circ> fst)
    ((\<lambda>w. if wire_busy w then 1 else 0) \<circ> fst) 1 scripted_inbox (snd :: scripted \<Rightarrow> _)"
proof -
  have "kernel_progress (host_os wire_os) ((\<lambda>w. if wire_busy w then 1 else 0) \<circ> (fst :: scripted \<Rightarrow> _)) 1"
    by (auto simp: kernel_progress_def host_os_def wire_os_def EAGAIN_def split: if_splits prod.splits)
  moreover have "kernel_steady (host_os wire_os :: scripted os)"
    by (auto simp: kernel_steady_def host_os_def wire_os_def split: if_splits prod.splits)
  moreover have "delivers (host_os wire_os) scripted_inbox (snd :: scripted \<Rightarrow> _)"
    by (auto simp: delivers_def host_os_def wire_os_def split: if_splits prod.splits)
  ultimately show ?thesis by (simp add: works_def host_kernel_ok [OF wire_ok])
qed

lemma scripted_follows:
  "follows scripted_poll (wire_out \<circ> fst) (wire_seen \<circ> fst) scripted_inbox snd"
  by (auto simp: follows_def scripted_poll_def)

lemma scripted_obliging: "obliging scripted_net 8 (unmoved (wire_out \<circ> fst) (wire_seen \<circ> fst) scripted_inbox snd)"
  by (simp add: obliging_def scripted_net_def)

definition demo_query :: fe_msg where
  "demo_query = Query (bs ''SELECT 1'')"

definition demo_talk :: "arrival list list" where
  "demo_talk = [[From_client (enc_start demo_startup) [Zero demo_startup] []],
     [From_client (take 3 (enc_fe demo_query)) [] (take 3 (enc_fe demo_query))],
     [From_client (drop 3 (enc_fe demo_query)) [Kinded demo_query] []],
     [From_server (concat (map enc_be demo_answer)) demo_answer [],
      From_client (enc_fe Terminate) [Kinded Terminate] []]]"

lemma demo_query_bytes: "length (enc_fe demo_query) = 14" "fe_ok demo_query"
  "hd (drop 3 (enc_fe demo_query)) \<noteq> ch CHR ''X''" "hd (enc_fe demo_query) \<noteq> ch CHR ''X''"
  by (simp_all add: demo_query_def enc_fe_def frame_def be32_def fe_ok_def fits_def zstr_def ch_not_nul)

lemma demo_startup_bytes: "length (enc_start demo_startup) = 18" "item_fine (Zero demo_startup)"
  "enc_start demo_startup \<noteq> []" "hd (enc_start demo_startup) = 0"
proof -
  show fine: "item_fine (Zero demo_startup)"
    by (simp add: demo_startup_def start_ok_def ch_not_nul del: of_char_Char)
  show "length (enc_start demo_startup) = 18" by (simp add: demo_startup_def enc_start_def)
  then show "enc_start demo_startup \<noteq> []" by auto
  from start_header(1) [of demo_startup "[]"] fine show "hd (enc_start demo_startup) = 0"
    using \<open>enc_start demo_startup \<noteq> []\<close> by (simp add: read_byte_def hd_conv_nth)
qed

lemma ch_X_not_nul: "ch CHR ''X'' \<noteq> 0"
  by (simp add: ch_not_nul)

lemma demo_talk_bytes: "client_waits []" "server_waits []" "client_waits (take 3 (enc_fe demo_query))"
  "list_all be_ok demo_answer" "hd (concat (map enc_be demo_answer)) \<noteq> ch CHR ''E''"
  "length (enc_fe Terminate) = 5" "hd (enc_fe Terminate) = ch CHR ''X''" "item_fine (Kinded Terminate)"
  "item_fine (Kinded demo_query)" "length demo_answer = 2"
proof -
  have "take 3 (enc_fe demo_query) @ drop 3 (enc_fe demo_query) = enc_fe demo_query"
    "drop 3 (enc_fe demo_query) \<noteq> []" "fe_ok demo_query"
    using demo_query_bytes by auto
  then show "client_waits (take 3 (enc_fe demo_query))" unfolding client_waits_def by blast
  show "list_all be_ok demo_answer"
    by (simp add: demo_answer_def be_ok_def ch_not_nul fits_def del: of_char_Char)
qed (use demo_query_bytes(2) in \<open>simp_all add: client_waits_def server_waits_def demo_answer_def enc_be_def
    enc_fe_def frame_def be32_def fe_ok_def fits_def demo_query_def\<close>)

lemma demo_talk_orderly: "orderly 25 [] [] (concat demo_talk)" "goodbye (concat demo_talk)"
  "list_all (enough 60 25 1) (concat demo_talk)"
proof -
  have "enc_fe demo_query \<noteq> []" "enc_fe Terminate \<noteq> []" "concat (map enc_be demo_answer) \<noteq> []"
    using demo_query_bytes(1) demo_talk_bytes(6) demo_answer_bytes by (metis length_0_conv zero_neq_numeral)+
  then show "orderly 25 [] [] (concat demo_talk)"
    using demo_query_bytes(1,3,4) demo_talk_bytes demo_answer_bytes demo_startup_bytes ch_X_not_nul
    by (simp add: demo_talk_def del: of_char_Char item_fine.simps concat_eq_Nil_conv)
  show "goodbye (concat demo_talk)" "list_all (enough 60 25 1) (concat demo_talk)"
    using demo_talk_bytes(7,10) by (simp_all add: demo_talk_def enough_def del: of_char_Char)
qed

definition scripted_worker :: "scripted proc" where
  "scripted_worker = (proc_on (wire_start ((\<lambda>_. [])(7 := client_parts (concat demo_talk),
       8 := server_parts (concat demo_talk))), map (map arrival_event) demo_talk))
     \<lparr>io_memory := \<lparr>mem_message = None, mem_data = None\<rparr>, pr_config := demo_configuration\<lparr>cfg_buffer_size := 25\<rparr>\<rparr>"

lemma scripted_worker_simps:
  "io_world scripted_worker = (wire_start ((\<lambda>_. [])(7 := client_parts (concat demo_talk),
     8 := server_parts (concat demo_talk))), map (map arrival_event) demo_talk)"
  "mem_data (io_memory scripted_worker) = None" "pr_config scripted_worker = demo_configuration\<lparr>cfg_buffer_size := 25\<rparr>"
  "pr_counters scripted_worker = [zero_counter]" "holds scripted_worker []"
  by (simp_all add: scripted_worker_def proc_on_def io.defs holds_def)

theorem orderly_worker_witness:
  "\<exists>q. worker (host_os wire_os) scripted_net demo_ev scripted_poll 60 7 0 scripted_worker = Exited WORKER_SUCCESS q \<and>
    wire_out (fst (io_world q)) = (\<lambda>_. [])(8 := enc_start demo_startup @ enc_fe demo_query @ enc_fe Terminate,
      7 := concat (map enc_be demo_answer)) \<and>
    cfg_file (pr_config q) = Some (item_trace 7 8 False (Kinded demo_query) @
      concat (map (be_trace 8 7 False) demo_answer) @ item_trace 7 8 False (Kinded Terminate)) \<and>
    cfg_pids (pr_config q) = cfg_pids demo_configuration \<and> cfg_active_connections (pr_config q) = 0"
proof -
  note w = scripted_worker_simps
  have parts: "concat (client_parts (concat demo_talk)) = enc_start demo_startup @ enc_fe demo_query @ enc_fe Terminate"
    "concat (server_parts (concat demo_talk)) = concat (map enc_be demo_answer)"
    by (simp_all add: demo_talk_def)
  have traces: "concat (map (arrival_trace 7 8 False) (concat demo_talk)) = item_trace 7 8 False (Kinded demo_query) @
      concat (map (be_trace 8 7 False) demo_answer) @ item_trace 7 8 False (Kinded Terminate)"
    by (simp add: demo_talk_def)
  have config: "pr_pid scripted_worker \<notin> set (cfg_pids demo_configuration)" "cfg_active_connections demo_configuration = 0"
    "cfg_file demo_configuration = Some []" "\<not> cfg_output_sockets demo_configuration"
    "srv_port (cfg_server demo_configuration) = 0" "cfg_lock demo_configuration \<noteq> 0"
    by (simp_all add: demo_configuration_def zero_configuration_def zero_server_def scripted_worker_def
        proc_on_def io.defs)
  have files: "opens_files (host_os wire_os :: scripted os)" and short: "length demo_talk < 60"
    by (simp_all add: opens_files_def host_os_def wire_os_def split_beta demo_talk_def)
  have "sport (srv_port (cfg_server (pr_config scripted_worker))) = Some (show_int 0)"
    using config by (simp add: w sport_def show_int_def show_nat.simps)
  from orderly_worker [OF scripted_works scripted_follows scripted_obliging files _ this _ _ _ _ w(5) _ _ _
    demo_talk_orderly short, where later = "[]" and cs = "[]" and ss = "[]" and client_fd = 7 and counter = 0 and ev = demo_ev]
    config show ?thesis
    by (simp add: w parts traces can_trace_def wire_start_def del: of_char_Char)
qed

end
