(* ===== verification/Shutdown.thy ===== *)
theory Shutdown
  imports Registry
begin

text \<open>
  The shutdown of \<open>main\<close> (\<open>src/src/main.c\<close>) on the shared memory that the workers leave behind:
  \<open>Lifecycle\<close> says whom it signals and what it prints for any contents of the shared memory, and
  \<open>Registry\<close> what the contents are after any interleaving of \<open>main\<close> and its workers.
\<close>

section \<open>Quiet runs\<close>

lemma quiet_runs: "runs quiet_step r es r' \<Longrightarrow> runs registry_step r es r'"
  by (induction rule: runs.induct) (auto simp: quiet_step_def intro: runs_Nil runs_Cons)

text \<open>The workers that \<open>main\<close> can find, from the write of their id to the table up to its removal.\<close>

definition enrolled :: "registry \<Rightarrow> i32 set" where
  "enrolled r = {p. \<exists>w. rg_workers r p = Some w \<and> wk_slot w \<noteq> None \<and> wk_place w \<noteq> Leaving}"

text \<open>The workers whose traffic has a counter of its own, which \<open>main\<close> prints.\<close>

definition counted :: "registry \<Rightarrow> i32 \<Rightarrow> nat \<Rightarrow> bool" where
  "counted r p n \<longleftrightarrow> (\<exists>w. rg_workers r p = Some w \<and> wk_number w = n) \<and> n < MAX_NUMBER_OF_COUNTERS"

lemma quiet_signalled:
  assumes "registry_start r0" "runs quiet_step r0 es r" "\<forall>e \<in> set es. nobody_lost e"
  defines "l \<equiv> filter (\<lambda>pid. pid \<noteq> 0) (rg_pids r)"
  shows "distinct l" "enrolled r \<subseteq> set l" "set l \<subseteq> dom (rg_workers r)"
proof -
  from place_machine.runs_from_initial [OF assms(2,1,3)] have inv: "place_inv r" .
  then have tab: "table_inv r" by (simp add: place_inv_def)
  show "distinct l" "set l \<subseteq> dom (rg_workers r)" using table_distinct [OF tab] unfolding l_def .
  show "enrolled r \<subseteq> set l" using placed_in_table [OF inv] by (auto simp only: enrolled_def l_def)
qed

lemma counted_below:
  assumes "registry_start r0" "runs registry_step r0 es r"
  shows "rg_next r \<le> MAX_NUMBER_OF_COUNTERS" "counted r p n \<Longrightarrow> n < rg_next r"
proof -
  from number_machine.runs_from_initial [OF assms(2,1)] have inv: "number_inv r" by simp
  then show "rg_next r \<le> MAX_NUMBER_OF_COUNTERS" by (simp add: number_inv_def)
  show "n < rg_next r" if "counted r p n" using inv that unfolding number_inv_def counted_def by blast
qed

section \<open>Whom the shutdown reaches\<close>

text \<open>
  C12. The shutdown after any number of clients: if the workers have registered without racing for an
  entry and none was lost, \<open>main\<close> signals every worker that is registered, none twice, and nobody but
  its living workers, and returns 0. It prints the statistics of as many clients as it has counted,
  among them every living worker that has a counter of its own.
\<close>

theorem shutdown_reaches_workers:
  fixes m :: "'w main"
  defines "p \<equiv> mn_proc m" and "config \<equiv> pr_config (mn_proc m)"
  defines "path \<equiv> cstr (cfg_statistics_output (pr_config (mn_proc m)))"
  assumes "registry_start r0" "runs quiet_step r0 es r" "\<forall>e \<in> set es. nobody_lost e" "agrees m r"
    and "signals_ok net host fds told" "- 1 \<notin> fds (io_world p)" "loggable p" "cfg_file config \<noteq> None"
    "length (pr_counters p) = MAX_NUMBER_OF_COUNTERS + 1" "\<And>w. 1 < length path \<Longrightarrow> os_fopen os path w"
  shows "\<exists>m' l. shutdown_main os net host m = Returned (0, m') \<and>
    told (io_world (mn_proc m')) = told (io_world p) @ map (\<lambda>pid. (pid, SIGQUIT)) l \<and>
    distinct l \<and> enrolled r \<subseteq> set l \<and> set l \<subseteq> dom (rg_workers r) \<and>
    (\<forall>q k. counted r q k \<longrightarrow> k < mn_client_number m) \<and>
    (let t = statistics_spec (pr_counters p) (mn_client_number m)
     in if 1 < length path then pr_files (mn_proc m') path = t
        else suffix t (log_stdout (pr_logs (mn_proc m'))))"
proof -
  note below = counted_below [OF assms(4) quiet_runs [OF assms(5)]]
  have table: "cfg_pids config = rg_pids r" "mn_client_number m = rg_next r"
    using assms(7) by (simp_all add: agrees_def table_of_def config_def)
  then have n: "mn_client_number m \<le> length (pr_counters p)" using below(1) assms(12) by simp
  obtain m' where m': "shutdown_main os net host m = Returned (0, m')"
    "told (io_world (mn_proc m')) = told (io_world p) @
      map (\<lambda>pid. (pid, SIGQUIT)) (filter (\<lambda>pid. pid \<noteq> 0) (rg_pids r))"
    "let t = statistics_spec (pr_counters p) (rg_next r)
     in if 1 < length path then pr_files (mn_proc m') path = t else suffix t (log_stdout (pr_logs (mn_proc m')))"
    using shutdown_done [OF assms(8) assms(9)[unfolded p_def] assms(10)[unfolded p_def] assms(11)[unfolded config_def]
        n[unfolded p_def], of os] assms(13) table
    unfolding p_def config_def path_def by auto
  with quiet_signalled [OF assms(4-6)] below(2) show ?thesis unfolding table(2) by blast
qed

text \<open>For the witness: \<open>main\<close> when the only client is in its session.\<close>

definition ending_main :: "((i32 \<times> int) list \<times> i32 list) main" where
  "ending_main = serving_main\<lparr>mn_proc := (proc_on ([], [3, 4, 5]))\<lparr>
     pr_config := demo_configuration\<lparr>cfg_pids := rg_pids one_end, cfg_active_connections := 1\<rparr>,
     pr_counters := zero_counters\<rparr>\<rparr>"

theorem shutdown_reaches_workers_witness:
  "\<exists>m'. shutdown_main signal_os host_net signal_host ending_main = Returned (0, m') \<and>
    fst (io_world (mn_proc m')) = [(7, SIGQUIT)]"
proof -
  let ?p = "mn_proc ending_main"
  have p: "io_world ?p = ([], [3, 4, 5])" "pr_counters ?p = zero_counters" "loggable ?p"
    "pr_config ?p = demo_configuration\<lparr>cfg_pids := rg_pids one_end, cfg_active_connections := 1\<rparr>"
    by (simp_all add: ending_main_def loggable_def demo_can(2))
  have c: "cstr (cfg_statistics_output demo_configuration) = []" "cfg_file demo_configuration = Some []"
    by (simp_all add: demo_configuration_def zero_configuration_def zero_text_def MISC_LENGTH_def numeral_eq_Suc)
  have lost: "\<forall>e \<in> set one_events. nobody_lost e" by (simp add: one_events_def nobody_lost_def)
  have agree: "agrees ending_main one_end"
    using p(4) by (simp add: agrees_def table_of_def one_end_def) (simp add: ending_main_def serving_main_def)
  have fds: "- 1 \<notin> host_fds (io_world ?p)" by (simp add: p host_fds_def)
  have workers: "enrolled one_end = {7}" "dom (rg_workers one_end) = {7}"
    by (auto simp: enrolled_def one_end_def serving_def split: if_splits)
  have "cfg_file (pr_config ?p) \<noteq> None" "length (pr_counters ?p) = MAX_NUMBER_OF_COUNTERS + 1"
    "\<And>w. 1 < length (cstr (cfg_statistics_output (pr_config ?p))) \<Longrightarrow> os_fopen signal_os
      (cstr (cfg_statistics_output (pr_config ?p))) w"
    by (simp_all add: p c zero_counters_def)
  from shutdown_reaches_workers [OF registry_0_start one_runs lost agree signal_host_ok fds p(3) this] obtain m' l where
    m': "shutdown_main signal_os host_net signal_host ending_main = Returned (0, m')"
      "fst (io_world (mn_proc m')) = map (\<lambda>pid. (pid, SIGQUIT)) l" "distinct l" "set l = {7}"
    unfolding workers by (auto simp: p(1))
  from m'(3,4) have "l = [7]" by (cases l) (auto simp: subset_singleton_iff)
  with m' show ?thesis by auto
qed

end
