(* ===== verification/Copies.thy ===== *)
theory Copies
  imports Message
begin

text \<open>
  \<open>pgprtdbg_copy_message\<close> and \<open>pgprtdbg_free_copy_message\<close> of \<open>src/src/libpgprtdbg/message.c\<close> on a
  heap: what a copy allocates, that it shares nothing with its original, and that freeing it gives back
  exactly what was allocated. Everywhere else the program has one message at a time, and \<open>Message\<close>
  models messages as values.
\<close>

section \<open>The heap\<close>

text \<open>
  A cell is a \<open>struct message\<close>, whose data is a pointer, or a block of bytes. Pointers are numbers, and
  0 is \<open>NULL\<close>. A use of a pointer to no cell, or to one of the other kind, is undefined.
\<close>

record message_cell =
  mc_kind :: byte
  mc_length :: i64
  mc_max_length :: size_t
  mc_data :: nat

datatype cell = Message_cell message_cell | Data_cell "byte list"

type_synonym heap = "nat \<rightharpoonup> cell"

definition message_at :: "heap \<Rightarrow> nat \<Rightarrow> message_cell option" where
  "message_at h a = (case h a of Some (Message_cell m) \<Rightarrow> Some m | _ \<Rightarrow> None)"

definition data_at :: "heap \<Rightarrow> nat \<Rightarrow> byte list option" where
  "data_at h a = (case h a of Some (Data_cell bytes) \<Rightarrow> Some bytes | _ \<Rightarrow> None)"

text \<open>\<open>malloc\<close> is a parameter: it gives a pointer to no cell, or \<open>NULL\<close>.\<close>

definition fresh :: "(heap \<Rightarrow> nat) \<Rightarrow> bool" where
  "fresh malloc \<longleftrightarrow> (\<forall>h. h (malloc h) = None \<or> malloc h = 0)"

definition free_cell :: "nat \<Rightarrow> heap \<Rightarrow> heap option" where
  "free_cell a h = (if a = 0 then Some h else if h a = None then None else Some (h(a := None)))"

section \<open>Copying and freeing\<close>

text \<open>
  No result of \<open>malloc\<close> is tested, so that \<open>NULL\<close> is written to. \<open>max_length\<close> of the copy keeps what
  the new cell happens to hold.
\<close>

definition copy_message_heap :: "(heap \<Rightarrow> nat) \<Rightarrow> message_cell \<Rightarrow> nat \<Rightarrow> heap \<Rightarrow> (nat \<times> heap) option" where
  "copy_message_heap malloc junk msg h =
     (let copy = malloc h; h = h(copy \<mapsto> Message_cell junk)
      in if copy = 0 then None
         else do {
           m \<leftarrow> message_at h msg;
           let data = malloc h;
           source \<leftarrow> data_at h (mc_data m);
           bytes \<leftarrow> block_prefix source (mc_length m);
           if data = 0 then None
           else Some (copy, h(data \<mapsto> Data_cell bytes,
             copy \<mapsto> Message_cell (junk\<lparr>mc_data := data, mc_kind := mc_kind m, mc_length := mc_length m\<rparr>))) })"

definition free_copy_message :: "nat \<Rightarrow> heap \<Rightarrow> heap option" where
  "free_copy_message msg h =
     (if msg \<noteq> 0
      then do {
        m \<leftarrow> message_at h msg;
        h \<leftarrow> (if mc_data m \<noteq> 0
              then do { h \<leftarrow> free_cell (mc_data m) h; Some (h(msg \<mapsto> Message_cell (m\<lparr>mc_data := 0\<rparr>))) }
              else Some h);
        free_cell msg h }
      else Some h)"

section \<open>Copies\<close>

text \<open>The value that a cell stands for.\<close>

definition value_at :: "heap \<Rightarrow> nat \<Rightarrow> message option" where
  "value_at h a = map_option (\<lambda>m. \<lparr>msg_kind = mc_kind m, msg_length = mc_length m,
     msg_max_length = mc_max_length m, msg_data = data_at h (mc_data m)\<rparr>) (message_at h a)"

lemma cell_simps [simp]:
  "message_at (h(a \<mapsto> Message_cell m)) b = (if b = a then Some m else message_at h b)"
  "message_at (h(a \<mapsto> Data_cell d)) b = (if b = a then None else message_at h b)"
  "data_at (h(a \<mapsto> Message_cell m)) b = (if b = a then None else data_at h b)"
  "data_at (h(a \<mapsto> Data_cell d)) b = (if b = a then Some d else data_at h b)"
  "h a = None \<Longrightarrow> message_at h a = None" "h a = None \<Longrightarrow> data_at h a = None"
  by (simp_all add: message_at_def data_at_def)

text \<open>
  The copy is the one of \<open>Message\<close>, the original and everything else stay as they were, and freeing the
  copy gives the heap back as it was before; freeing it again is undefined, since the pointer that the
  caller has is not cleared.
\<close>

lemma copy_heap:
  assumes "fresh malloc" "malloc h \<noteq> 0" "malloc (h(malloc h \<mapsto> Message_cell junk)) \<noteq> 0"
    and v: "value_at h msg = Some v" "copy_message (mc_max_length junk) v = Some c"
  shows "\<exists>p h'. copy_message_heap malloc junk msg h = Some (p, h') \<and> value_at h' p = Some c \<and>
    value_at h' msg = Some v \<and> h \<subseteq>\<^sub>m h' \<and> free_copy_message p h' = Some h \<and> free_copy_message p h = None"
proof -
  let ?p = "malloc h"
  let ?h = "h(?p \<mapsto> Message_cell junk)"
  let ?d = "malloc ?h"
  from v(1) obtain m where m: "message_at h msg = Some m" "v = \<lparr>msg_kind = mc_kind m, msg_length = mc_length m,
      msg_max_length = mc_max_length m, msg_data = data_at h (mc_data m)\<rparr>" by (auto simp: value_at_def)
  with v(2) obtain source bytes where s: "data_at h (mc_data m) = Some source" "block_prefix source (mc_length m) = Some bytes"
      "c = \<lparr>msg_kind = mc_kind m, msg_length = mc_length m, msg_max_length = mc_max_length junk, msg_data = Some bytes\<rparr>"
    by (auto simp: copy_message_def bind_eq_Some_conv)
  have p: "h ?p = None" and "?h ?d = None" using assms(1-3) unfolding fresh_def by metis+
  then have d: "?d \<noteq> ?p" "h ?d = None" by (auto split: if_splits)
  have "\<forall>a \<in> dom h. a \<noteq> ?p \<and> a \<noteq> ?d" using p d(2) by auto
  moreover have "msg \<noteq> ?p" "msg \<noteq> ?d" "mc_data m \<noteq> ?p" "mc_data m \<noteq> ?d" using m(1) s(1) p d(2) by auto
  ultimately show ?thesis
    using m s p d assms(2,3)
    by (simp add: copy_message_heap_def Let_def value_at_def free_copy_message_def free_cell_def map_le_def
        fun_upd_twist fun_upd_idem)
qed

text \<open>One such \<open>malloc\<close>: the next number behind all that are in use, as long as these are finitely many.\<close>

definition next_cell :: "heap \<Rightarrow> nat" where
  "next_cell h = (if finite (dom h) then Suc (Max (insert 0 (dom h))) else 0)"

lemma fresh_next_cell: "fresh next_cell"
proof -
  have "h (Suc (Max (insert 0 (dom h)))) = None" if "finite (dom h)" for h :: heap
  proof (rule ccontr)
    assume "h (Suc (Max (insert 0 (dom h)))) \<noteq> None"
    then have "Suc (Max (insert 0 (dom h))) \<le> Max (insert 0 (dom h))"
      using that by (intro Max_ge) auto
    then show False by simp
  qed
  then show ?thesis by (simp add: fresh_def next_cell_def)
qed

lemma copy_example:
  fixes m junk :: message_cell
  defines "h \<equiv> [1 \<mapsto> Message_cell (m\<lparr>mc_length := 2, mc_data := 2\<rparr>), 2 \<mapsto> Data_cell [81, 0, 7]]"
  shows "\<exists>p h'. copy_message_heap next_cell junk 1 h = Some (p, h') \<and>
    map_option msg_data (value_at h' p) = Some (Some [81, 0]) \<and> free_copy_message p h' = Some h"
proof -
  have v: "value_at h 1 = Some \<lparr>msg_kind = mc_kind m, msg_length = 2, msg_max_length = mc_max_length m,
      msg_data = Some [81, 0, 7]\<rparr>"
    by (simp add: h_def value_at_def)
  have "copy_message (mc_max_length junk) \<lparr>msg_kind = mc_kind m, msg_length = 2, msg_max_length = mc_max_length m,
      msg_data = Some [81, 0, 7]\<rparr> = Some \<lparr>msg_kind = mc_kind m, msg_length = 2, msg_max_length = mc_max_length junk,
      msg_data = Some [81, 0]\<rparr>"
    by (simp add: copy_message_def block_prefix_def numeral_2_eq_2)
  from copy_heap [OF fresh_next_cell _ _ v this] show ?thesis by (auto simp: next_cell_def h_def)
qed

end
