(* ===== verification/Spec2Isabelle.thy ===== *)
theory Spec2Isabelle
  imports Buffer Config Logging LogLock FeDecode BeDecode Message Counter ClientStream
    ServerStream Faults Malformed Libev Traffic Relay Network Worker Proxy Tally Pgmain Lifecycle
    Serving Registry Entries Orderly Shutdown Copies
begin

text \<open>
  A model of pgprtdbg (\<open>src/src\<close>), a proxy between a PostgreSQL client and its server which forwards the
  traffic of both directions unchanged, and writes every protocol message it sees to a log and to a
  trace file.

  \<^bold>\<open>The program.\<close> \<open>main\<close> (\<open>main.c\<close>) maps the shared memory (\<open>shmem.c\<close>) with the configuration and the
  counters, reads the configuration file (\<open>configuration.c\<close>), opens the log (\<open>logging.c\<close>), the trace
  file and its sockets (\<open>network.c\<close>), and forks a worker for every client. A worker (\<open>worker.c\<close>)
  registers its process id, connects to the server and waits for its two sockets. The callbacks
  (\<open>pipeline.c\<close>) read what has arrived into the one message of the process (\<open>memory.c\<close>, \<open>message.c\<close>),
  let it be decoded (\<open>protocol.c\<close>), save it if asked to (\<open>utils.c\<close>), and send it on. The decoder collects
  the chunks in a buffer, cuts it into messages, logs the fields of each, and counts (\<open>counter.c\<close>).

  \<^bold>\<open>The theories\<close>, in the order of their imports.
  \<^item> \<open>Prelude\<close>: outcomes (\<open>Returned\<close>, \<open>Exited\<close>, \<open>Undefined\<close>, \<open>Diverged\<close>) with \<open>ends\<close> and \<open>gives\<close>, loops with
    fuel and the interface \<open>variant_loop\<close>, runs of step relations and the interface \<open>machine\<close>, blocks of
    memory and the interface \<open>wire_field\<close>.
  \<^item> \<open>Bytes\<close>, \<open>Buffer\<close> (\<open>utils.c\<close>): the readers and writers of big-endian fields, and the growing buffer
    behind the interface of a queue. \<open>Format\<close>: what \<open>printf\<close>, \<open>atoi\<close> and \<open>strcasecmp\<close> do here.
  \<^item> \<open>Config\<close> (\<open>configuration.c\<close>), \<open>Logging\<close> and \<open>LogLock\<close> (\<open>logging.c\<close>), \<open>Counter\<close> (\<open>counter.c\<close>).
  \<^item> \<open>FeDecode\<close>, \<open>BeDecode\<close> (\<open>protocol.c\<close>, \<open>fe_...\<close> and \<open>be_...\<close>): a decoder takes the block of the buffer and
    gives the lines it logs, or nothing when it reads outside the block.
  \<^item> \<open>Message\<close> (\<open>memory.c\<close>, \<open>message.c\<close>): the loops of \<open>read_message\<close> and \<open>write_message\<close> over system calls;
    \<open>Copies\<close>: copying and freeing a message on a heap.
  \<^item> \<open>Process\<close>, \<open>Protocol\<close>: the state of a process, the trace file, and \<open>pgprtdbg_client\<close> and
    \<open>pgprtdbg_server\<close>; \<open>ClientStream\<close> and \<open>ServerStream\<close> say what they do on a stream of messages,
    \<open>Faults\<close> and \<open>Malformed\<close> where they fail.
  \<^item> \<open>Libev\<close>, \<open>Traffic\<close> (\<open>utils.c\<close>): the choice of the event loop's engine, and the traffic files.
  \<^item> \<open>Frame\<close>, \<open>Pipeline\<close>, \<open>Relay\<close> (\<open>pipeline.c\<close>): what the decoders leave alone, the two callbacks, and what
    they do to the two sockets.
  \<^item> \<open>Network\<close> (\<open>network.c\<close>); \<open>Worker\<close> (\<open>worker.c\<close>), with \<open>Proxy\<close> on the whole process from its start to
    its exit, \<open>Tally\<close> on the counters, and \<open>Conversation\<close> and \<open>Orderly\<close> on a session with peers that
    take turns; \<open>Pgmain\<close> (\<open>main.c\<close>, \<open>shmem.c\<close>), with \<open>Lifecycle\<close> on the start and the shutdown and
    \<open>Serving\<close> on the whole process.
  \<^item> \<open>Registry\<close> (\<open>worker.c\<close>, \<open>main.c\<close>): \<open>main\<close> and any number of workers at the process table and the
    number of active connections, one step for every access; its theorems \<open>worker_refined\<close> and
    \<open>accept_refined\<close> relate it to the sequential models. \<open>Shutdown\<close>: what the shutdown of \<open>main\<close> finds there.
  \<^item> \<open>Entries\<close> (\<open>logging.c\<close>, \<open>output_write\<close> of \<open>protocol.c\<close>): the log and the trace file, written by any
    number of processes under the log lock and the semaphore.

  \<^bold>\<open>State.\<close> \<open>configuration\<close>, \<open>server\<close>, \<open>message\<close> and \<open>event_counter\<close> are the structs of these names. \<open>proc\<close>
  is what one process sees: the shared memory, the statics of \<open>protocol.c\<close>, \<open>memory.c\<close> and
  \<open>pipeline.c\<close>, the globals of \<open>worker.c\<close>, the log, \<open>errno\<close> and the world of the system calls; its
  \<open>pr_unclosed\<close> lists the files it has opened and lost the pointers of, which is no variable of the code.
  \<open>main\<close> adds the statics of \<open>main.c\<close>. Integers have the width of the C type; signed arithmetic that
  overflows, a read outside a block and the use of a null pointer are undefined behaviour, the
  outcome \<open>Undefined\<close>, and \<open>exit\<close> is \<open>Exited\<close> with its status.

  \<^bold>\<open>Parameters\<close> stand for code outside the repository: \<open>os\<close> (\<open>read\<close>, \<open>write\<close>, \<open>fopen\<close>, the clock), \<open>net\<close>
  (the socket calls), \<open>host\<close> (processes, memory mapping, files), \<open>ev_api\<close> and the polls (libev). Each
  call maps an abstract world to a result and a new world. What is relied on is said by \<open>kernel_ok\<close>,
  \<open>kernel_steady\<close>, \<open>kernel_progress\<close>, \<open>poll_ok\<close>, \<open>poll_waits\<close>, \<open>net_ok\<close>, \<open>net_silent\<close>, \<open>paths_ok\<close>,
  \<open>signals_ok\<close>, \<open>signal_comes\<close>, \<open>opens_files\<close>, \<open>stays_parent\<close>, \<open>works\<close>, \<open>follows\<close> and
  \<open>obliging\<close>, which state the documented behaviour of the calls: a write sends a prefix of what it is
  given, a successful \<open>socket\<close> opens a new descriptor, \<open>close\<close> closes it, and so on. \<open>orderly\<close>, with
  the last three, describes one course of events: which callbacks come, and which bytes are there. The witnesses
  instantiate them with concrete hosts.

  \<^bold>\<open>What is shown.\<close>
  \<^item> Decoding: for every well-formed message of the protocol the decoder logs the fields of its wire
    form and reads nothing outside the block (\<open>FeDecode\<close>, \<open>BeDecode\<close>). On a chunk of a stream exactly the
    complete messages are logged, those with a kind are traced, the rest is kept, and the chunk is counted
    as one message. So it does not matter how a stream is cut, as long as the startup messages, which
    have no kind, arrive whole (\<open>ClientStream\<close>, \<open>ServerStream\<close>). Where the loops of the decoders of an
    \<open>ErrorResponse\<close> and of a SASL request end too early, the last small items are not logged.
  \<^item> Forwarding: a message is written completely or an error is returned, also when single writes are
    cut (\<open>Message\<close>); a callback passes what arrived to the other side and to nobody else (\<open>Relay\<close>); in
    every reachable state of a session the server has got a prefix of what the client has sent, and
    the client in order a prefix of what the server has sent, whatever the decoders make of it; a
    session whose input is finite ends if every callback returns or exits (\<open>Worker\<close>). The same holds of the whole worker when it
    has ended, and it touches no other descriptor (\<open>Proxy\<close>); its counter grows by exactly the bytes
    that arrive (\<open>Tally\<close>).
  \<^item> Service: a worker whose files open and whose peers take turns serves them to the end: it exits with
    status 0, all bytes have arrived on the other side, the trace file has one line for each message
    with a kind, and what the worker had taken is given back (\<open>Conversation\<close>, \<open>Orderly\<close>).
  \<^item> Resources: no descriptor is lost when connecting, binding or accepting, a worker gives back its
    place in the process table unless it exits in the middle of its session (\<open>session_exits\<close>), the shutdown closes and signals exactly what it has to (\<open>Network\<close>,
    \<open>Worker\<close>, \<open>Pgmain\<close>, \<open>Lifecycle\<close>); client numbers stay in the range of the counters; \<open>main\<close>, once its
    sockets are open, serves until a signal comes, leaves no descriptor of the network behind and closes the trace file and
    the log, but not the file of the statistics (\<open>Serving\<close>).
  \<^item> Sharing: with any interleaving in which no worker is lost by such an exit, the active connections
    are counted right (modulo their 16 bits), the process table holds only workers that live, no two clients share a counter that is printed; and, unless two workers
    look at the same free entry at the same time, every registered worker is in the table (\<open>Registry\<close>),
    so that the shutdown signals it (\<open>Shutdown\<close>). As long as no \<open>sem_wait\<close> is interrupted and no call gives up
    its wait for the log lock, the lines of the trace file and the entries of the
    log are those of the same calls made one after the other, so that what the other theories say of
    a process alone holds of the files that all processes share (\<open>Entries\<close>).
  \<^item> Configuration and output: reading a rendered file gives back its values, the text fields stay
    NUL-terminated, dumps and statistics have the specified form.
  \<^item> Faults: an endless loop on a length of -1 and on an SSL request with a length of 0, undefined behaviour on a startup message in pieces,
    answers of the server that are swallowed, the lock taken by force, process exits that leave the
    lock and the process table behind, the limits of the dump array and the port's text, one
    connection more than there are places, texts without an end, the widest row, the race on the
    process table, a limit that limits nothing. Each is a theorem or a lemma of the theory concerned.

  \<^bold>\<open>Interfaces.\<close> \<open>variant_loop\<close> is interpreted on the write loop (\<open>Message\<close>), the session loop (\<open>Worker\<close>)
  and the loop of \<open>main\<close> (\<open>Serving\<close>), \<open>machine\<close> on the log lock, the session, its counters, the accepting
  process and the process table (\<open>Registry\<close>, three invariants), \<open>critical_section\<close>, which extends it, on the
  semaphore and the log lock (\<open>Entries\<close>), \<open>decoding\<close> and \<open>decoding_refusal\<close>
  (\<open>Frame\<close>), what the decoders must keep call by call, on three such relations, \<open>quiet_calls\<close> (\<open>Worker\<close>) on
  what the start and the end of a worker leave alone, \<open>wire_field\<close> on the readers of the
  decoders, \<open>byte_queue\<close> (\<open>Buffer\<close>) on \<open>pgprtdbg_data_append\<close> and \<open>pgprtdbg_data_remove\<close>, \<open>stream_loop\<close>
  (\<open>Protocol\<close>) on a round of either decoder loop, and \<open>cuttable_stream\<close>, which extends it, on that of the
  client, and on that of the server for answers without a \<open>NoticeResponse\<close>: a lone \<open>N\<close> is taken for a
  message.

  \<^bold>\<open>Fuel.\<close> A C loop is \<open>loop body n\<close>: \<open>n\<close> rounds at most, and none left is \<open>Diverged\<close>. More fuel does not
  change a result. The theorems state how much is enough: one round more than there are messages for
  the decoders, \<open>length * (k + 1) + k + 1\<close> for a write when at most \<open>k\<close> writes in a row can be
  interrupted, \<open>2 * n + 2\<close> for a session whose peers send \<open>n\<close> bytes, one round more than there are polls
  before the signal for \<open>main\<close>.

  \<^bold>\<open>Not modelled.\<close> Other processes change the shared memory only where this is said (\<open>LogLock\<close>,
  \<open>Registry\<close>, \<open>Entries\<close>, \<open>main_moves\<close>): elsewhere a process is taken alone. The address lists of
  \<open>getaddrinfo\<close>, which are only freed, and failures of \<open>malloc\<close> outside \<open>memory_init\<close> and \<open>Copies\<close> are left out, as are the
  umask, the signal masks and the priorities of libev, what a failed \<open>getaddrinfo\<close> prints on the
  standard error, and the parsing of the command line inside \<open>getopt_long\<close>. The headers beyond their
  structs and constants, the build files and the documents hold no behaviour.
\<close>

end
